(* ===== verification/Prelude.thy ===== *)
theory Prelude
  imports Main "HOL-Library.Char_ord" "HOL-Library.List_Lexorder" "HOL-Library.Sublist"
    "HOL-Library.Multiset"
begin

text \<open>
  Shared vocabulary of the development: how a panic of the Rust code is a value, and the
  operations of the Rust standard library on \<^verbatim>\<open>str\<close>, \<^verbatim>\<open>Vec\<close> and
  \<^verbatim>\<open>Option\<close> that several components use.

  A Rust \<^verbatim>\<open>str\<close> is its UTF-8 byte sequence, an Isabelle \<^typ>\<open>string\<close>: the order of
  \<^verbatim>\<open>str\<close> is the lexicographic order of its bytes (\<^verbatim>\<open>Char_ord\<close> and
  \<^verbatim>\<open>List_Lexorder\<close>), and all separators the code searches for are ASCII, so a search on
  bytes finds what a search on characters finds.
\<close>

named_theorems str_simps
named_theorems tree_simps
named_theorems frame_simps

section \<open>Panics as values\<close>

text \<open>
  \<open>UnwrapNone\<close> is \<^verbatim>\<open>Option::unwrap\<close> or \<^verbatim>\<open>expect\<close> on \<^verbatim>\<open>None\<close>, \<open>UnwrapErr\<close>
  the same on \<^verbatim>\<open>Err\<close>, \<open>TodoReached\<close> and \<open>UnreachableReached\<close> the macros of
  those names, \<open>ExplicitPanic\<close> a \<^verbatim>\<open>panic!\<close>, \<open>OutOfBounds\<close> an index or advance past the end.
\<close>

datatype panic = UnwrapNone | UnwrapErr | TodoReached | UnreachableReached | ExplicitPanic | OutOfBounds

type_synonym 'a run = "panic + 'a"

definition unwrap :: "'a option \<Rightarrow> 'a run" where
  "unwrap x = (case x of None \<Rightarrow> Inl UnwrapNone | Some v \<Rightarrow> Inr v)"

definition and_then :: "'e + 'a \<Rightarrow> ('a \<Rightarrow> 'e + 'b) \<Rightarrow> 'e + 'b" where
  "and_then x f = (case x of Inl e \<Rightarrow> Inl e | Inr v \<Rightarrow> f v)"

lemma unwrap_simps [simp]: "unwrap None = Inl UnwrapNone" "unwrap (Some v) = Inr v"
  by (simp_all add: unwrap_def)

lemma and_then_simps [simp]: "and_then (Inl e) f = Inl e" "and_then (Inr v) f = f v"
  by (simp_all add: and_then_def)

lemma unwrap_eq_Inr [simp]: "unwrap x = Inr v \<longleftrightarrow> x = Some v"
  by (cases x) auto

lemma and_then_eq_Inr: "and_then x f = Inr r \<longleftrightarrow> (\<exists>v. x = Inr v \<and> f v = Inr r)"
  by (cases x) auto

definition opt_default :: "'a \<Rightarrow> 'a option \<Rightarrow> 'a" where
  "opt_default d x = (case x of None \<Rightarrow> d | Some v \<Rightarrow> v)"

lemma opt_default_simps [simp]: "opt_default d None = d" "opt_default d (Some v) = v"
  by (simp_all add: opt_default_def)

section \<open>Splitting strings\<close>

text \<open>\<^verbatim>\<open>str::split(c)\<close> for a one-byte separator: never empty, one piece more than separators.\<close>

fun split_ch :: "char \<Rightarrow> string \<Rightarrow> string list" where
  "split_ch c [] = [[]]"
| "split_ch c (x # xs) =
     (if x = c then [] # split_ch c xs
      else case split_ch c xs of [] \<Rightarrow> [[x]] | y # ys \<Rightarrow> (x # y) # ys)"

text \<open>\<^verbatim>\<open>join\<close> of string pieces with a separator.\<close>

fun join_with :: "string \<Rightarrow> string list \<Rightarrow> string" where
  "join_with sep [] = []"
| "join_with sep [x] = x"
| "join_with sep (x # y # ys) = x @ sep @ join_with sep (y # ys)"

text \<open>\<^verbatim>\<open>str::split_once(pat)\<close>: cut at the first occurrence.\<close>

fun split_once :: "string \<Rightarrow> string \<Rightarrow> (string \<times> string) option" where
  "split_once pat [] = (if pat = [] then Some ([], []) else None)"
| "split_once pat (x # xs) =
     (if prefix pat (x # xs) then Some ([], drop (length pat) (x # xs))
      else map_option (\<lambda>(a, b). (x # a, b)) (split_once pat xs))"

text \<open>\<^verbatim>\<open>str::rsplit_once(c)\<close>: cut at the last occurrence.\<close>

fun rsplit_once :: "char \<Rightarrow> string \<Rightarrow> (string \<times> string) option" where
  "rsplit_once c [] = None"
| "rsplit_once c (x # xs) =
     (case rsplit_once c xs of
        Some (a, b) \<Rightarrow> Some (x # a, b)
      | None \<Rightarrow> if x = c then Some ([], xs) else None)"

definition strip_prefix :: "string \<Rightarrow> string \<Rightarrow> string option" where
  "strip_prefix p s = (if prefix p s then Some (drop (length p) s) else None)"

definition strip_suffix :: "string \<Rightarrow> string \<Rightarrow> string option" where
  "strip_suffix p s = (if suffix p s then Some (take (length s - length p) s) else None)"

text \<open>\<^verbatim>\<open>str::split(pat)\<close> for a pattern of several bytes.\<close>

lemma split_once_length: "split_once pat s = Some (a, b) \<Longrightarrow> pat \<noteq> [] \<Longrightarrow> length b < length s"
proof (induction s arbitrary: a b)
  case Nil
  then show ?case by simp
next
  case (Cons x xs)
  show ?case
  proof (cases "prefix pat (x # xs)")
    case True
    with Cons.prems show ?thesis by (cases pat) auto
  next
    case False
    with Cons.prems obtain a' where "split_once pat xs = Some (a', b)" by auto
    then show ?thesis using Cons.IH Cons.prems(2) by fastforce
  qed
qed

function split_str :: "string \<Rightarrow> string \<Rightarrow> string list" where
  "split_str pat s =
     (if pat = [] then [s]
      else case split_once pat s of None \<Rightarrow> [s] | Some (a, b) \<Rightarrow> a # split_str pat b)"
  by pat_completeness auto
termination
  by (relation "measure (\<lambda>(pat, s). length s)") (auto dest: split_once_length)

declare split_str.simps [simp del]

text \<open>\<^verbatim>\<open>iter.nth(n)\<close> on a list of pieces.\<close>

definition nth_opt :: "'a list \<Rightarrow> nat \<Rightarrow> 'a option" where
  "nth_opt xs n = (if n < length xs then Some (xs ! n) else None)"

section \<open>Trimming and replacing\<close>

definition trim_start_ch :: "char \<Rightarrow> string \<Rightarrow> string" where
  "trim_start_ch c s = dropWhile (\<lambda>x. x = c) s"

definition is_ws :: "char \<Rightarrow> bool" where
  "is_ws c \<longleftrightarrow> c = CHR '' '' \<or> (9 \<le> (of_char c :: nat) \<and> (of_char c :: nat) \<le> 13)"

definition trim_start :: "string \<Rightarrow> string" where
  "trim_start s = dropWhile is_ws s"

definition trim_both :: "string \<Rightarrow> string" where
  "trim_both s = rev (dropWhile is_ws (rev (dropWhile is_ws s)))"

text \<open>\<^verbatim>\<open>str::replace(pat, by)\<close>: all non-overlapping occurrences, left to right.\<close>

definition replace_str :: "string \<Rightarrow> string \<Rightarrow> string \<Rightarrow> string" where
  "replace_str pat by s = join_with by (split_str pat s)"

text \<open>\<^verbatim>\<open>PathBuf::push\<close> on the text of a path: an absolute argument replaces it.\<close>

definition path_push :: "string \<Rightarrow> string \<Rightarrow> string" where
  "path_push p n =
     (if prefix ''/'' n then n
      else if p = [] \<or> suffix ''/'' p then p @ n else p @ ''/'' @ n)"

section \<open>Vectors\<close>

text \<open>\<^verbatim>\<open>iter().position(P)\<close> and \<^verbatim>\<open>Vec::swap_remove(i)\<close>: the last element takes the hole.\<close>

fun position :: "('a \<Rightarrow> bool) \<Rightarrow> 'a list \<Rightarrow> nat option" where
  "position P [] = None"
| "position P (x # xs) = (if P x then Some 0 else map_option Suc (position P xs))"

definition swap_remove :: "nat \<Rightarrow> 'a list \<Rightarrow> 'a list run" where
  "swap_remove i xs =
     (if i < length xs then Inr (butlast (xs[i := last xs])) else Inl OutOfBounds)"

text \<open>\<^verbatim>\<open>iter_mut().find(P)\<close> followed by an assignment: the first match is changed.\<close>

fun update_first :: "('a \<Rightarrow> bool) \<Rightarrow> ('a \<Rightarrow> 'a) \<Rightarrow> 'a list \<Rightarrow> 'a list" where
  "update_first P f [] = []"
| "update_first P f (x # xs) = (if P x then f x # xs else x # update_first P f xs)"

section \<open>Hash tables\<close>

text \<open>An iteration order of a hash table: the same entries in any order.\<close>

definition hash_order :: "('a list \<Rightarrow> 'a list) \<Rightarrow> bool" where
  "hash_order it \<longleftrightarrow> (\<forall>xs. mset (it xs) = mset xs)"

lemma hash_order_simps:
  assumes "hash_order it"
  shows "set (it xs) = set xs" "length (it xs) = length xs" "it xs = [] \<longleftrightarrow> xs = []" "it [] = []"
    "distinct (it xs) \<longleftrightarrow> distinct xs"
proof -
  have m: "mset (it xs) = mset xs" for xs using assms by (simp add: hash_order_def)
  show "set (it xs) = set xs" using m by (rule mset_eq_setD)
  show "length (it xs) = length xs" using m by (rule mset_eq_length)
  show "it xs = [] \<longleftrightarrow> xs = []" using m[of xs] by auto
  show "it [] = []" using m[of "[]"] by simp
  show "distinct (it xs) \<longleftrightarrow> distinct xs" using m by (rule mset_eq_imp_distinct_iff)
qed

section \<open>Numbers as text\<close>

text \<open>How \<^verbatim>\<open>format!\<close> prints an unsigned integer.\<close>

definition digit :: "nat \<Rightarrow> char" where
  "digit d = (char_of (48 + d) :: char)"

fun show_nat :: "nat \<Rightarrow> string" where
  "show_nat n = (if n < 10 then [digit n] else show_nat (n div 10) @ [digit (n mod 10)])"

declare show_nat.simps [simp del]

definition is_digit :: "char \<Rightarrow> bool" where
  "is_digit c \<longleftrightarrow> 48 \<le> (of_char c :: nat) \<and> (of_char c :: nat) \<le> 57"

definition read_nat :: "string \<Rightarrow> nat" where
  "read_nat s = foldl (\<lambda>a c. 10 * a + (of_char c - 48)) 0 s"

section \<open>Lemmas on strings\<close>

lemma split_ch_neq_Nil [simp]: "split_ch c s \<noteq> []"
  by (cases s) (auto split: list.splits)

lemma join_with_ConsI: "ys \<noteq> [] \<Longrightarrow> join_with sep (x # ys) = x @ sep @ join_with sep ys"
  by (cases ys) auto

lemma join_with_Cons_char: "join_with sep ((c # y) # ys) = c # join_with sep (y # ys)"
  by (cases ys) auto

lemma join_split_ch [str_simps]: "join_with [c] (split_ch c s) = s"
proof (induction s)
  case (Cons x s)
  then show ?case
    by (cases "split_ch c s") (auto simp: join_with_ConsI join_with_Cons_char)
qed simp

lemma split_ch_no_sep [simp]: "c \<notin> set s \<Longrightarrow> split_ch c s = [s]"
  by (induction s) auto

lemma split_ch_append [str_simps]:
  "c \<notin> set a \<Longrightarrow> split_ch c (a @ c # b) = a # split_ch c b"
  by (induction a) auto

lemma split_join_ch [str_simps]:
  "xs \<noteq> [] \<Longrightarrow> \<forall>x \<in> set xs. c \<notin> set x \<Longrightarrow> split_ch c (join_with [c] xs) = xs"
proof (induction xs)
  case (Cons x xs)
  then show ?case by (cases xs) (simp_all add: split_ch_append)
qed simp

lemma split_ch_no_sep_in: "x \<in> set (split_ch c s) \<Longrightarrow> c \<notin> set x"
proof (induction s arbitrary: x)
  case (Cons y s)
  show ?case
  proof (cases "split_ch c s")
    case Nil
    then show ?thesis by simp
  next
    case (Cons z zs)
    with Cons.IH Cons.prems show ?thesis by (auto split: if_splits)
  qed
qed simp

lemma split_ch_snoc_sep [str_simps]:
  "c \<notin> set b \<Longrightarrow> split_ch c (a @ c # b) = split_ch c a @ [b]"
proof (induction a)
  case (Cons x a)
  then show ?case by (cases "split_ch c a") auto
qed simp

lemma rsplit_once_None [str_simps]: "rsplit_once c s = None \<longleftrightarrow> c \<notin> set s"
  by (induction s) (auto split: option.splits)

lemma rsplit_once_SomeD: "rsplit_once c s = Some (a, b) \<Longrightarrow> s = a @ c # b \<and> c \<notin> set b"
proof (induction s arbitrary: a)
  case (Cons x s)
  then show ?case
    by (cases "rsplit_once c s") (auto simp: rsplit_once_None split: if_splits)
qed simp

lemma rsplit_once_append: "c \<notin> set b \<Longrightarrow> rsplit_once c (a @ c # b) = Some (a, b)"
proof (induction a)
  case Nil
  then have "rsplit_once c b = None" by (simp add: rsplit_once_None)
  then show ?case by simp
qed simp

lemma rsplit_once_Some [str_simps]:
  "rsplit_once c s = Some (a, b) \<longleftrightarrow> s = a @ c # b \<and> c \<notin> set b"
  using rsplit_once_SomeD rsplit_once_append by blast

lemma split_once_Some: "split_once pat s = Some (a, b) \<Longrightarrow> s = a @ pat @ b"
proof (induction s arbitrary: a)
  case (Cons x s)
  then show ?case by (auto split: if_splits elim!: prefixE)
qed (auto split: if_splits)

lemma split_once_None_iff: "split_once pat s = None \<longleftrightarrow> (\<nexists>a b. s = a @ pat @ b)"
proof (induction s)
  case (Cons x s)
  show ?case
  proof (cases "prefix pat (x # s)")
    case True
    then obtain t where "x # s = [] @ pat @ t" by (auto elim: prefixE)
    then have "\<exists>a b. x # s = a @ pat @ b" by blast
    with True show ?thesis by simp
  next
    case False
    have "(\<exists>a b. x # s = a @ pat @ b) \<longleftrightarrow> (\<exists>a b. s = a @ pat @ b)"
    proof
      assume "\<exists>a b. x # s = a @ pat @ b"
      then obtain a b where ab: "x # s = a @ pat @ b" by blast
      with False have "a \<noteq> []" by (metis append_Nil prefixI)
      with ab show "\<exists>a b. s = a @ pat @ b" by (cases a) auto
    qed (metis append_Cons)
    with False Cons.IH show ?thesis by simp
  qed
qed simp

text \<open>The cut is at the \<^emph>\<open>first\<close> occurrence: no earlier one exists.\<close>

lemma split_once_first:
  "split_once pat s = Some (a, b) \<Longrightarrow> s = a' @ pat @ b' \<Longrightarrow> length a \<le> length a'"
proof (induction s arbitrary: a a')
  case (Cons x s)
  show ?case
  proof (cases "prefix pat (x # s)")
    case True
    with Cons.prems(1) have "a = []" by simp
    then show ?thesis by simp
  next
    case False
    obtain a1 where a1: "split_once pat s = Some (a1, b)" "a = x # a1"
      using Cons.prems(1) False by (auto simp del: split_paired_All)
    from False Cons.prems(2) have "a' \<noteq> []" by (metis append_Nil prefixI)
    then obtain a2 where "a' = x # a2" "s = a2 @ pat @ b'" using Cons.prems(2) by (cases a') auto
    with Cons.IH[OF a1(1)] a1(2) show ?thesis by simp
  qed
qed (auto split: if_splits)

lemma split_once_at:
  "(\<And>a' b'. a @ pat @ b = a' @ pat @ b' \<Longrightarrow> length a \<le> length a')
   \<Longrightarrow> split_once pat (a @ pat @ b) = Some (a, b)"
proof -
  assume first: "\<And>a' b'. a @ pat @ b = a' @ pat @ b' \<Longrightarrow> length a \<le> length a'"
  obtain a0 b0 where c: "split_once pat (a @ pat @ b) = Some (a0, b0)"
    using split_once_None_iff[of pat "a @ pat @ b"] by (cases "split_once pat (a @ pat @ b)") auto
  from split_once_Some[OF c] have e: "a @ pat @ b = a0 @ pat @ b0" .
  from first[OF e] split_once_first[OF c refl] have "length a = length a0" by simp
  with e have "a = a0" "b = b0" by simp_all
  with c show ?thesis by simp
qed

lemma strip_prefix_append [simp]: "strip_prefix p (p @ s) = Some s"
  by (simp add: strip_prefix_def)

lemma strip_prefix_Some: "strip_prefix p s = Some r \<longleftrightarrow> s = p @ r"
  by (auto simp: strip_prefix_def elim!: prefixE)

lemma strip_prefix_None: "strip_prefix p s = None \<longleftrightarrow> \<not> prefix p s"
  by (simp add: strip_prefix_def)

section \<open>Lemmas on vectors\<close>

lemma position_None [simp]: "position P xs = None \<longleftrightarrow> (\<forall>x \<in> set xs. \<not> P x)"
  by (induction xs) auto

lemma position_Some:
  "position P xs = Some i \<Longrightarrow> i < length xs \<and> P (xs ! i) \<and> (\<forall>j < i. \<not> P (xs ! j))"
proof (induction xs arbitrary: i)
  case (Cons x xs)
  then show ?case by (auto simp: less_Suc_eq_0_disj split: if_splits)
qed simp

lemma find_Some_position: "find P xs = Some x \<longleftrightarrow> (\<exists>i. position P xs = Some i \<and> xs ! i = x)"
  by (induction xs) auto

lemma mset_swap_remove:
  assumes "i < length xs"
  shows "\<exists>ys. swap_remove i xs = Inr ys \<and> mset ys = mset xs - {#xs ! i#}"
proof -
  from assms have ne: "xs \<noteq> []" by auto
  let ?ys = "xs[i := last xs]"
  have l: "last ?ys = last xs" using ne by (simp add: last_list_update)
  have "mset ?ys = mset (butlast ?ys) + {#last ?ys#}"
    using ne by (metis append_butlast_last_id list_update_nonempty mset_append mset_single_iff_right)
  moreover have "mset ?ys = add_mset (last xs) (mset xs - {#xs ! i#})"
    using assms by (simp add: mset_update)
  ultimately have "mset (butlast ?ys) = mset xs - {#xs ! i#}" using l by simp
  then show ?thesis using assms by (simp add: swap_remove_def)
qed

lemma swap_remove_at: "swap_remove i xs = Inr ys \<Longrightarrow> j < length ys \<Longrightarrow>
    ys ! j = (if j = i then last xs else xs ! j)"
  by (auto simp: swap_remove_def nth_butlast nth_list_update split: if_splits)

lemma update_first_None: "\<forall>x \<in> set xs. \<not> P x \<Longrightarrow> update_first P f xs = xs"
  by (induction xs) auto

lemma update_first_position:
  "position P xs = Some i \<Longrightarrow> update_first P f xs = xs[i := f (xs ! i)]"
  by (induction xs arbitrary: i) (auto split: if_splits)

lemma length_update_first [simp]: "length (update_first P f xs) = length xs"
  by (induction xs) auto

section \<open>Lemmas on numbers as text\<close>

lemma of_char_digit: "d < 10 \<Longrightarrow> (of_char (digit d) :: nat) = 48 + d"
  by (simp add: digit_def)

lemma is_digit_digit [simp]: "d < 10 \<Longrightarrow> is_digit (digit d)"
  by (simp add: is_digit_def of_char_digit)

lemma show_nat_digits: "c \<in> set (show_nat n) \<Longrightarrow> is_digit c"
proof (induction n rule: show_nat.induct)
  case (1 n)
  show ?case
  proof (cases "n < 10")
    case True
    with 1(2) show ?thesis by (simp add: show_nat.simps[of n])
  next
    case False
    with 1(2) have "c \<in> set (show_nat (n div 10)) \<or> c = digit (n mod 10)"
      by (auto simp: show_nat.simps[of n])
    with 1(1)[OF False] show ?thesis by auto
  qed
qed

lemma read_show_nat [simp]: "read_nat (show_nat n) = n"
proof (induction n rule: show_nat.induct)
  case (1 n)
  show ?case
  proof (cases "n < 10")
    case True
    then show ?thesis by (simp add: show_nat.simps[of n] read_nat_def of_char_digit)
  next
    case False
    with 1[OF False] show ?thesis
      by (simp add: show_nat.simps[of n] read_nat_def of_char_digit)
  qed
qed

end
