(* ===== verification/Utf8.thy ===== *)
theory Utf8
  imports Prelude
begin

text \<open>
  UTF-8 as the Rust standard library decides it. File names of the operating system are byte
  strings; \<^verbatim>\<open>OsStr::to_str\<close> succeeds on valid UTF-8 only, and
  \<^verbatim>\<open>OsStr::to_string_lossy\<close> replaces every maximal invalid piece by U+FFFD. Both walk
  the bytes one sequence at a time: \<open>utf8_next\<close> says whether the next sequence is well
  formed and how many bytes it (or its maximal invalid prefix) takes.
\<close>

definition byte :: "char \<Rightarrow> nat" where
  "byte c = of_char c"

definition is_cont :: "char \<Rightarrow> bool" where
  "is_cont c \<longleftrightarrow> 128 \<le> byte c \<and> byte c \<le> 191"

definition utf8_width :: "char \<Rightarrow> nat" where
  "utf8_width c =
     (let b = byte c in
      if b < 128 then 1
      else if 194 \<le> b \<and> b \<le> 223 then 2
      else if 224 \<le> b \<and> b \<le> 239 then 3
      else if 240 \<le> b \<and> b \<le> 244 then 4 else 0)"

text \<open>The second byte excludes overlong forms, surrogates and values above U+10FFFF.\<close>

definition second_ok :: "char \<Rightarrow> char \<Rightarrow> bool" where
  "second_ok c d =
     (let b = byte c; e = byte d in
      if b = 224 then 160 \<le> e \<and> e \<le> 191
      else if b = 237 then 128 \<le> e \<and> e \<le> 159
      else if b = 240 then 144 \<le> e \<and> e \<le> 191
      else if b = 244 then 128 \<le> e \<and> e \<le> 143
      else is_cont d)"

fun conts :: "nat \<Rightarrow> string \<Rightarrow> nat" where
  "conts 0 s = 0"
| "conts (Suc n) [] = 0"
| "conts (Suc n) (d # s) = (if is_cont d then Suc (conts n s) else 0)"

definition utf8_next :: "char \<Rightarrow> string \<Rightarrow> bool \<times> nat" where
  "utf8_next c s =
     (let w = utf8_width c in
      if w = 0 then (False, 1)
      else if w = 1 then (True, 1)
      else case s of
             [] \<Rightarrow> (False, 1)
           | d # r \<Rightarrow>
               if second_ok c d
               then let k = conts (w - 2) r in (k = w - 2, 2 + k)
               else (False, 1))"

lemma conts_le: "conts n s \<le> length s" "conts n s \<le> n"
  by (induction n s rule: conts.induct) auto

lemma utf8_next_bounds: "1 \<le> snd (utf8_next c s)" "snd (utf8_next c s) \<le> Suc (length s)"
  using conts_le(1) by (auto simp: utf8_next_def Let_def split: list.splits)

function utf8_valid :: "string \<Rightarrow> bool" where
  "utf8_valid [] = True"
| "utf8_valid (c # s) =
     (fst (utf8_next c s) \<and> utf8_valid (drop (snd (utf8_next c s)) (c # s)))"
  by pat_completeness auto
termination
  by (relation "measure length") (use utf8_next_bounds(1) in \<open>auto simp: Suc_le_eq\<close>)

definition fffd :: string where
  "fffd = [CHR 0xEF, CHR 0xBF, CHR 0xBD]"

function to_string_lossy :: "string \<Rightarrow> string" where
  "to_string_lossy [] = []"
| "to_string_lossy (c # s) =
     (if fst (utf8_next c s) then take (snd (utf8_next c s)) (c # s) else fffd)
     @ to_string_lossy (drop (snd (utf8_next c s)) (c # s))"
  by pat_completeness auto
termination
  by (relation "measure length") (use utf8_next_bounds(1) in \<open>auto simp: Suc_le_eq\<close>)

definition os_to_str :: "string \<Rightarrow> string option" where
  "os_to_str s = (if utf8_valid s then Some s else None)"

declare utf8_valid.simps(2) [simp del] to_string_lossy.simps(2) [simp del]

lemma to_string_lossy_valid [str_simps]: "utf8_valid s \<Longrightarrow> to_string_lossy s = s"
proof (induction s rule: utf8_valid.induct)
  case (2 c s)
  then show ?case by (simp add: utf8_valid.simps(2) to_string_lossy.simps(2))
qed simp

lemma conts_prefix: "conts n s = n \<Longrightarrow> conts n (take n s @ r) = n"
  by (induction n s rule: conts.induct) (auto split: if_splits)

text \<open>A well formed sequence is well formed whatever follows it.\<close>

lemma utf8_next_prefix:
  assumes "utf8_next c s = (True, n)"
  shows "utf8_next c (take (n - 1) s @ r) = (True, n)"
proof (cases "utf8_width c \<le> 1")
  case True
  with assms show ?thesis by (auto simp: utf8_next_def Let_def split: if_splits)
next
  case False
  with assms obtain d t where s: "s = d # t" and ok: "second_ok c d"
    and k: "conts (utf8_width c - 2) t = utf8_width c - 2" and n: "n = utf8_width c"
    by (auto simp: utf8_next_def Let_def split: list.splits if_splits)
  from conts_prefix[OF k] False s ok n show ?thesis
    by (cases n) (auto simp: utf8_next_def Let_def take_Cons' numeral_2_eq_2)
qed

lemma utf8_valid_step:
  assumes "utf8_next c s = (True, n)"
  shows "utf8_valid (take n (c # s) @ r) = utf8_valid r"
proof -
  from assms utf8_next_bounds[of c s] have n: "1 \<le> n" "n \<le> Suc (length s)" by auto
  then have t: "take n (c # s) @ r = c # (take (n - 1) s @ r)" by (cases n) auto
  from n have "drop n (c # (take (n - 1) s @ r)) = r" by (cases n) auto
  with t utf8_next_prefix[OF assms, of r] show ?thesis by (simp add: utf8_valid.simps(2))
qed

lemma utf8_valid_append [str_simps]: "utf8_valid a \<Longrightarrow> utf8_valid (a @ b) = utf8_valid b"
proof (induction a rule: utf8_valid.induct)
  case (2 c s)
  obtain n where n: "utf8_next c s = (True, n)"
    using "2.prems" by (cases "utf8_next c s") (auto simp: utf8_valid.simps(2))
  have e: "(c # s) @ b = take n (c # s) @ (drop n (c # s) @ b)"
    by (metis append.assoc append_take_drop_id)
  have "utf8_valid ((c # s) @ b) = utf8_valid (drop n (c # s) @ b)"
    by (subst e) (rule utf8_valid_step[OF n])
  with "2.IH" "2.prems" n show ?case by (simp add: utf8_valid.simps(2))
qed simp

lemma utf8_valid_ascii [str_simps]: "byte c < 128 \<Longrightarrow> utf8_valid (c # s) = utf8_valid s"
  by (simp add: utf8_valid.simps(2) utf8_next_def utf8_width_def Let_def)

lemma utf8_valid_all_ascii: "\<forall>c \<in> set s. byte c < 128 \<Longrightarrow> utf8_valid s"
  by (induction s) (auto simp: utf8_valid_ascii)

lemma utf8_valid_fffd [simp]: "utf8_valid (fffd @ r) = utf8_valid r"
proof -
  have "utf8_next (CHR 0xEF) [CHR 0xBF, CHR 0xBD] = (True, 3)"
    by (simp add: utf8_next_def utf8_width_def second_ok_def is_cont_def byte_def Let_def
        numeral_2_eq_2 eval_nat_numeral)
  from utf8_valid_step[OF this, of r] show ?thesis by (simp add: fffd_def)
qed

theorem to_string_lossy_is_utf8: "utf8_valid (to_string_lossy s)"
proof (induction s rule: to_string_lossy.induct)
  case (2 c s)
  then show ?case
    using utf8_valid_step[of c s "snd (utf8_next c s)"]
    by (cases "utf8_next c s") (auto simp: to_string_lossy.simps(2))
qed simp

lemma to_string_lossy_eq_iff: "to_string_lossy s = s \<longleftrightarrow> utf8_valid s"
  using to_string_lossy_is_utf8 to_string_lossy_valid by metis

lemma os_to_str_simps [simp]: "utf8_valid s \<Longrightarrow> os_to_str s = Some s"
    "\<not> utf8_valid s \<Longrightarrow> os_to_str s = None"
  by (simp_all add: os_to_str_def)

text \<open>Bytes of the class \<open>[a-zA-Z0-9_.]\<close> that directory names are restricted to.\<close>

definition name_char :: "char \<Rightarrow> bool" where
  "name_char c \<longleftrightarrow>
     (let b = byte c in
      (97 \<le> b \<and> b \<le> 122) \<or> (65 \<le> b \<and> b \<le> 90) \<or> (48 \<le> b \<and> b \<le> 57) \<or> b = 95 \<or> b = 46)"

lemma name_char_ascii: "name_char c \<Longrightarrow> byte c < 128"
  by (auto simp: name_char_def Let_def)

end
