(* ===== verification/Btree_Map.thy ===== *)
theory Btree_Map
  imports Prelude
begin

text \<open>
  The ordered map \<^verbatim>\<open>std::collections::BTreeMap\<close> that the bucket tree is built from: the
  list of its entries in the order of their keys, so that iteration order (which the JSON answers
  show) is part of the model. The interface \<open>keyed_map\<close> states what the tree relies on; the
  lemmas the tree's operations share (renaming a key moves its value and nothing else) are proved
  once from it.
\<close>

section \<open>The map\<close>

type_synonym ('k, 'v) btree = "('k \<times> 'v) list"

definition bt_get :: "('k, 'v) btree \<Rightarrow> 'k \<Rightarrow> 'v option" where
  "bt_get m k = map_of m k"

definition bt_insert :: "'k::linorder \<Rightarrow> 'v \<Rightarrow> ('k, 'v) btree \<Rightarrow> ('k, 'v) btree" where
  "bt_insert k v m = [p \<leftarrow> m. fst p < k] @ (k, v) # [p \<leftarrow> m. k < fst p]"

definition bt_remove :: "'k \<Rightarrow> ('k, 'v) btree \<Rightarrow> ('k, 'v) btree" where
  "bt_remove k m = [p \<leftarrow> m. fst p \<noteq> k]"

text \<open>The invariant of the type: keys strictly increasing, hence distinct.\<close>

definition bt_inv :: "('k::linorder, 'v) btree \<Rightarrow> bool" where
  "bt_inv m \<longleftrightarrow> sorted_wrt (<) (map fst m)"

lemma bt_get_Nil [simp]: "bt_get [] k = None"
  by (simp add: bt_get_def)

lemma map_of_filter_key: "map_of [p \<leftarrow> m. P (fst p)] k = (if P k then map_of m k else None)"
  by (induction m) auto

lemma bt_get_insert [simp, tree_simps]:
  "bt_get (bt_insert k v m) j = (if j = k then Some v else bt_get m j)"
  using not_less_iff_gr_or_eq[of j k]
  by (auto simp: bt_get_def bt_insert_def map_add_def map_of_filter_key[where P = "\<lambda>x. x < k"]
      map_of_filter_key[where P = "\<lambda>x. k < x"] split: option.splits)

lemma bt_get_remove [simp, tree_simps]:
  "bt_get (bt_remove k m) j = (if j = k then None else bt_get m j)"
  by (simp add: bt_get_def bt_remove_def map_of_filter_key[where P = "\<lambda>x. x \<noteq> k"])

lemma bt_inv_Nil [simp]: "bt_inv []"
  by (simp add: bt_inv_def)

lemma sorted_wrt_filter_keys:
  "sorted_wrt (<) (map fst m) \<Longrightarrow> sorted_wrt (<) (map fst (filter P m))"
  by (induction m) auto

lemma bt_inv_insert [simp]: "bt_inv m \<Longrightarrow> bt_inv (bt_insert k v m)"
  by (auto simp: bt_inv_def bt_insert_def sorted_wrt_append sorted_wrt_filter_keys)

lemma bt_inv_remove [simp]: "bt_inv m \<Longrightarrow> bt_inv (bt_remove k m)"
  by (auto simp: bt_inv_def bt_remove_def sorted_wrt_filter_keys)

lemma bt_get_in_set: "bt_get m k = Some v \<Longrightarrow> (k, v) \<in> set m"
  by (simp add: bt_get_def map_of_SomeD)

lemma bt_inv_distinct: "bt_inv m \<Longrightarrow> distinct (map fst m)"
  by (induction m) (auto simp: bt_inv_def)

lemma bt_get_iff_set: "bt_inv m \<Longrightarrow> bt_get m k = Some v \<longleftrightarrow> (k, v) \<in> set m"
  by (simp add: bt_get_def bt_inv_distinct)

lemma set_bt_insert: "set (bt_insert k v m) = insert (k, v) {p \<in> set m. fst p \<noteq> k}"
  by (auto simp: bt_insert_def neq_iff)

lemma set_bt_remove: "set (bt_remove k m) = {p \<in> set m. fst p \<noteq> k}"
  by (auto simp: bt_remove_def)

text \<open>Two ordered maps with the same entries are the same list: iteration order is canonical.\<close>

lemma bt_inv_unique:
  assumes "bt_inv m" "bt_inv m'" "\<And>k. bt_get m k = bt_get m' k"
  shows "m = m'"
proof (rule map_sorted_distinct_set_unique[where f = fst])
  show eq: "set m = set m'"
  proof (rule set_eqI)
    fix p
    show "p \<in> set m \<longleftrightarrow> p \<in> set m'"
      using bt_get_iff_set[OF assms(1), of "fst p" "snd p"]
        bt_get_iff_set[OF assms(2), of "fst p" "snd p"] assms(3)[of "fst p"] by simp
  qed
  show "inj_on fst (set m \<union> set m')"
    using bt_inv_distinct[OF assms(1)] eq by (simp add: distinct_map)
qed (use assms(1,2) in \<open>auto simp: bt_inv_def bt_inv_distinct intro: strict_sorted_imp_sorted\<close>)

section \<open>The interface its users rely on\<close>

locale keyed_map =
  fixes get :: "'m \<Rightarrow> 'k \<Rightarrow> 'v option"
    and put :: "'k \<Rightarrow> 'v \<Rightarrow> 'm \<Rightarrow> 'm"
    and del :: "'k \<Rightarrow> 'm \<Rightarrow> 'm"
    and inv :: "'m \<Rightarrow> bool"
  assumes get_put: "get (put k v m) j = (if j = k then Some v else get m j)"
    and get_del: "get (del k m) j = (if j = k then None else get m j)"
    and inv_put: "inv m \<Longrightarrow> inv (put k v m)"
    and inv_del: "inv m \<Longrightarrow> inv (del k m)"
begin

text \<open>
  Renaming as the code does it: take the value out, put it back under the other key. The value
  moves, the old key is gone (unless the two are one), every other key keeps its value.
\<close>

lemma get_rename:
  "get (put b v (del a m)) j = (if j = b then Some v else if j = a then None else get m j)"
  by (simp add: get_put get_del)

lemma inv_rename: "inv m \<Longrightarrow> inv (put b v (del a m))"
  by (simp add: inv_put inv_del)

lemma put_overwrites: "get (put k v (put k w m)) j = get (put k v m) j"
  by (simp add: get_put)

lemma put_put_same: "get m k = Some v \<Longrightarrow> get (put k v m) j = get m j"
  by (simp add: get_put)

text \<open>\<^verbatim>\<open>entry(k).or_default()\<close>: a present key is left alone.\<close>

lemma or_default_present:
  "get m k = Some v \<Longrightarrow> get (case get m k of Some _ \<Rightarrow> m | None \<Rightarrow> put k d m) j = get m j"
  by simp

lemma or_default_absent:
  "get m k = None \<Longrightarrow>
     get (case get m k of Some _ \<Rightarrow> m | None \<Rightarrow> put k d m) j = (if j = k then Some d else get m j)"
  by (simp add: get_put)

end

interpretation bt: keyed_map bt_get bt_insert bt_remove bt_inv
  by unfold_locales simp_all

end
