(* ===== verification/Keys.thy ===== *)
theory Keys
  imports Utf8 Btree_Map
begin

text \<open>
  The names of the directory service: \<^verbatim>\<open>Bucket\<close> (directory/src/bucket/mod.rs), \<^verbatim>\<open>Key\<close>
  and \<^verbatim>\<open>Segment\<close> (directory/src/bucket/key.rs), and the part of \<^verbatim>\<open>std::path::Path\<close>
  they are computed from.

  A path is the list of its components, for the absolute, canonical paths the service handles: the
  root is canonicalised at start (directory/src/main.rs), and the watcher and \<^verbatim>\<open>read_dir\<close> report
  paths that extend it by directory entries. On these, \<open>path_str\<close> is the text of the path.
  A name is its text here; Cowed is why it does not matter whether the text is borrowed or owned.
\<close>

section \<open>Paths\<close>

type_synonym path = "string list"

definition path_parent :: "path \<Rightarrow> path option" where
  "path_parent p = (if p = [] then None else Some (butlast p))"

definition path_file_name :: "path \<Rightarrow> string option" where
  "path_file_name p = (if p = [] \<or> last p = ''..'' then None else Some (last p))"

definition path_join :: "path \<Rightarrow> string \<Rightarrow> path" where
  "path_join p n = p @ [n]"

definition path_str :: "path \<Rightarrow> string" where
  "path_str p = (if p = [] then ''/'' else concat (map (\<lambda>c. CHR ''/'' # c) p))"

definition path_to_str :: "path \<Rightarrow> string option" where
  "path_to_str p = os_to_str (path_str p)"

lemma path_simps [simp]:
  "path_parent [] = None" "path_parent (p @ [n]) = Some p"
  "path_file_name [] = None" "n \<noteq> ''..'' \<Longrightarrow> path_file_name (p @ [n]) = Some n"
  "path_join p n = p @ [n]"
  by (auto simp: path_parent_def path_file_name_def path_join_def)

lemma path_str_snoc: "p \<noteq> [] \<Longrightarrow> path_str (p @ [n]) = path_str p @ CHR ''/'' # n"
  by (simp add: path_str_def)

lemma path_str_append: "p \<noteq> [] \<Longrightarrow> path_str (p @ q) = path_str p @ concat (map (\<lambda>c. CHR ''/'' # c) q)"
  by (simp add: path_str_def)

lemma concat_slash_join:
  "concat (map (\<lambda>c. CHR ''/'' # c) (x # xs)) = CHR ''/'' # join_with ''/'' (x # xs)"
  by (induction xs arbitrary: x) (auto simp: join_with_Cons_char)

section \<open>Buckets, segments and keys\<close>

datatype bucket = Bucket (bucket_name: string)

datatype segment = Segment (seg_str: string)

datatype bkey = Key (key_name: string)

text \<open>All three compare as their text does (the derived or written \<^verbatim>\<open>Ord\<close> instances).\<close>

instantiation bucket :: linorder
begin

definition less_eq_bucket :: "bucket \<Rightarrow> bucket \<Rightarrow> bool" where
  "less_eq_bucket a b \<longleftrightarrow> bucket_name a \<le> bucket_name b"

definition less_bucket :: "bucket \<Rightarrow> bucket \<Rightarrow> bool" where
  "less_bucket a b \<longleftrightarrow> bucket_name a < bucket_name b"

instance
  by standard (auto simp: less_eq_bucket_def less_bucket_def bucket.expand)

end

instantiation segment :: linorder
begin

definition less_eq_segment :: "segment \<Rightarrow> segment \<Rightarrow> bool" where
  "less_eq_segment a b \<longleftrightarrow> seg_str a \<le> seg_str b"

definition less_segment :: "segment \<Rightarrow> segment \<Rightarrow> bool" where
  "less_segment a b \<longleftrightarrow> seg_str a < seg_str b"

instance
  by standard (auto simp: less_eq_segment_def less_segment_def segment.expand)

end

instantiation bkey :: linorder
begin

definition less_eq_bkey :: "bkey \<Rightarrow> bkey \<Rightarrow> bool" where
  "less_eq_bkey a b \<longleftrightarrow> key_name a \<le> key_name b"

definition less_bkey :: "bkey \<Rightarrow> bkey \<Rightarrow> bool" where
  "less_bkey a b \<longleftrightarrow> key_name a < key_name b"

instance
  by standard (auto simp: less_eq_bkey_def less_bkey_def bkey.expand)

end

text \<open>
  \<^verbatim>\<open>PartialEq\<close>, \<^verbatim>\<open>PartialOrd\<close> and \<^verbatim>\<open>Ord\<close> of buckets, written out in the source: with any text, and with each
  other. \<open>str_cmp\<close> is the comparison of strings, which goes by their bytes.
\<close>

datatype rust_ordering = Less | Equal | Greater

definition str_cmp :: "string \<Rightarrow> string \<Rightarrow> rust_ordering" where
  "str_cmp a b = (if a < b then Less else if a = b then Equal else Greater)"

definition bucket_eq :: "bucket \<Rightarrow> string \<Rightarrow> bool" where
  "bucket_eq b s \<longleftrightarrow> bucket_name b = s"

definition bucket_partial_cmp :: "bucket \<Rightarrow> string \<Rightarrow> rust_ordering option" where
  "bucket_partial_cmp b s = Some (str_cmp (bucket_name b) s)"

definition bucket_cmp :: "bucket \<Rightarrow> bucket \<Rightarrow> rust_ordering" where
  "bucket_cmp a b = str_cmp (bucket_name a) (bucket_name b)"

text \<open>They are the order of the tables, and agree with each other.\<close>

lemma bucket_cmp_order:
  "bucket_cmp a b = Less \<longleftrightarrow> a < b" "bucket_cmp a b = Equal \<longleftrightarrow> a = b" "bucket_cmp a b = Greater \<longleftrightarrow> b < a"
  "bucket_partial_cmp a (bucket_name b) = Some (bucket_cmp a b)" "bucket_eq a (bucket_name b) \<longleftrightarrow> a = b"
  by (auto simp: bucket_cmp_def str_cmp_def less_bucket_def bucket_partial_cmp_def bucket_eq_def bucket.expand)

definition key_root :: bkey where
  "key_root = Key ''.''"

definition is_root :: "bkey \<Rightarrow> bool" where
  "is_root k \<longleftrightarrow> key_name k = ''.''"

text \<open>Iterating over a key: its segments between slashes.\<close>

definition key_iter :: "bkey \<Rightarrow> segment list" where
  "key_iter k = map Segment (split_ch (CHR ''/'') (key_name k))"

definition segment_of_key :: "bkey \<Rightarrow> segment" where
  "segment_of_key k = Segment (key_name k)"

definition segment_of_bucket :: "bucket \<Rightarrow> segment" where
  "segment_of_bucket b = Segment (bucket_name b)"

text \<open>\<^verbatim>\<open>Bucket::new\<close> and \<^verbatim>\<open>Bucket::new_random\<close>, with the random part as an argument.\<close>

definition bucket_new :: "path \<Rightarrow> bucket option" where
  "bucket_new p = map_option Bucket (Option.bind (path_file_name p) os_to_str)"

definition bucket_new_random :: "string \<Rightarrow> string option \<Rightarrow> bucket" where
  "bucket_new_random nano ext =
     Bucket (nano @ ''.'' @ opt_default ''__unknown'' (Option.bind ext os_to_str))"

text \<open>
  \<^verbatim>\<open>Key::from_bucket\<close>: the text of the path after the first occurrence of the bucket's name,
  without one leading slash; the empty rest is the root key.
\<close>

definition from_bucket :: "bucket \<Rightarrow> path \<Rightarrow> bkey option" where
  "from_bucket b p =
     (case path_to_str p of
        None \<Rightarrow> None
      | Some s \<Rightarrow>
          map_option
            (\<lambda>(_, x). let y = opt_default x (strip_prefix ''/'' x)
                      in Key (if y = [] then ''.'' else y))
            (split_once (bucket_name b) s))"

text \<open>
  \<^verbatim>\<open>Bucket::find_bucket\<close>: walk up until the parent is the root; the component below it is the
  bucket. The \<^verbatim>\<open>unwrap\<close> on its name panics when that name is not UTF-8.
\<close>

function find_bucket :: "path \<Rightarrow> path \<Rightarrow> bucket option run" where
  "find_bucket root child =
     (case path_parent child of
        None \<Rightarrow> Inr None
      | Some parent \<Rightarrow>
          if parent = root
          then and_then (unwrap (Option.bind (path_file_name child) os_to_str))
                 (\<lambda>n. Inr (Some (Bucket n)))
          else find_bucket root parent)"
  by pat_completeness auto
termination
  by (relation "measure (\<lambda>(root, child). length child)")
     (auto simp: path_parent_def split: if_splits)

declare find_bucket.simps [simp del]

section \<open>Properties\<close>

lemma is_root_key_root [simp]: "is_root key_root"
  by (simp add: is_root_def key_root_def)

lemma find_bucket_top:
  "n \<noteq> ''..'' \<Longrightarrow> utf8_valid n \<Longrightarrow> find_bucket root (root @ [n]) = Inr (Some (Bucket n))"
  by (simp add: find_bucket.simps)

lemma find_bucket_below:
  assumes "n \<noteq> ''..''" "utf8_valid n"
  shows "find_bucket root (root @ n # ks) = Inr (Some (Bucket n))"
proof (induction ks rule: rev_induct)
  case Nil
  with assms show ?case by (simp add: find_bucket_top)
next
  case (snoc k ks)
  have "path_parent (root @ n # ks @ [k]) = Some (root @ n # ks)"
    by (metis append.assoc append_Cons path_simps(2))
  then show ?case
    by (subst find_bucket.simps) (simp add: snoc.IH)
qed

lemma find_bucket_outside:
  "\<not> strict_prefix root p \<Longrightarrow> find_bucket root p = Inr None"
proof (induction p rule: rev_induct)
  case Nil
  then show ?case by (simp add: find_bucket.simps)
next
  case (snoc n p)
  have "p \<noteq> root" using snoc.prems by (auto simp: strict_prefix_def)
  moreover have "\<not> strict_prefix root p"
    using snoc.prems by (auto simp: strict_prefix_def)
  ultimately show ?case
    by (subst find_bucket.simps) (simp add: snoc.IH)
qed

text \<open>
  The relative path that \<^verbatim>\<open>Key::from_bucket\<close> is meant to give, and its text as a key.
\<close>

definition key_of_segments :: "string list \<Rightarrow> bkey" where
  "key_of_segments ks = Key (if ks = [] then ''.'' else join_with ''/'' ks)"

definition clean_component :: "string \<Rightarrow> bool" where
  "clean_component c \<longleftrightarrow> c \<noteq> [] \<and> CHR ''/'' \<notin> set c \<and> c \<noteq> ''.'' \<and> c \<noteq> ''..'' \<and> utf8_valid c"

lemma join_clean_nonempty:
  "ks \<noteq> [] \<Longrightarrow> \<forall>k \<in> set ks. clean_component k \<Longrightarrow> join_with ''/'' ks \<noteq> []"
  by (cases ks; cases "tl ks") (auto simp: clean_component_def)

lemma join_clean_not_dot:
  "ks \<noteq> [] \<Longrightarrow> \<forall>k \<in> set ks. clean_component k \<Longrightarrow> join_with ''/'' ks \<noteq> ''.''"
  by (cases ks; cases "tl ks") (auto simp: clean_component_def append_eq_Cons_conv)

lemma key_iter_of_segments:
  assumes "ks \<noteq> []" "\<forall>k \<in> set ks. clean_component k"
  shows "key_iter (key_of_segments ks) = map Segment ks" "\<not> is_root (key_of_segments ks)"
  using assms split_join_ch[of ks "CHR ''/''"] join_clean_not_dot[OF assms]
  by (auto simp: key_iter_def key_of_segments_def is_root_def clean_component_def)

lemma path_str_valid: "\<forall>c \<in> set p. utf8_valid c \<Longrightarrow> utf8_valid (path_str p)"
proof -
  have slash: "byte (CHR ''/'') < 128" by (simp add: byte_def)
  assume "\<forall>c \<in> set p. utf8_valid c"
  then have "utf8_valid (concat (map (\<lambda>c. CHR ''/'' # c) p))"
    by (induction p) (auto simp: utf8_valid_ascii[OF slash] utf8_valid_append)
  then show ?thesis by (simp add: path_str_def utf8_valid_ascii[OF slash])
qed

text \<open>The text after the bucket's own component is a slash and the joined rest.\<close>

lemma path_str_below:
  "path_str (root @ n # ks) =
     concat (map (\<lambda>c. CHR ''/'' # c) root) @ ''/'' @ n @ concat (map (\<lambda>c. CHR ''/'' # c) ks)"
  by (simp add: path_str_def)

lemma from_bucket_correct:
  assumes clean: "\<forall>k \<in> set (root @ n # ks). clean_component k"
    and first: "\<And>a b. path_str (root @ n # ks) = a @ n @ b
        \<Longrightarrow> length (concat (map (\<lambda>c. CHR ''/'' # c) root)) < length a"
  shows "from_bucket (Bucket n) (root @ n # ks) = Some (key_of_segments ks)"
proof -
  let ?pre = "concat (map (\<lambda>c. CHR ''/'' # c) root) @ ''/''"
  let ?post = "concat (map (\<lambda>c. CHR ''/'' # c) ks)"
  have s: "path_str (root @ n # ks) = ?pre @ n @ ?post" by (simp add: path_str_below)
  have "split_once n (?pre @ n @ ?post) = Some (?pre, ?post)"
  proof (rule split_once_at)
    fix a' b'
    assume "?pre @ n @ ?post = a' @ n @ b'"
    then have "path_str (root @ n # ks) = a' @ n @ b'" by (simp add: path_str_below)
    from first[OF this] show "length ?pre \<le> length a'" by simp
  qed
  moreover have "path_to_str (root @ n # ks) = Some (path_str (root @ n # ks))"
    using clean path_str_valid[of "root @ n # ks"] by (simp add: path_to_str_def clean_component_def)
  moreover have "(let y = opt_default ?post (strip_prefix ''/'' ?post) in Key (if y = [] then ''.'' else y))
      = key_of_segments ks"
  proof (cases ks)
    case Nil
    then show ?thesis by (simp add: strip_prefix_def key_of_segments_def)
  next
    case (Cons k ks')
    have "join_with ''/'' ks \<noteq> []" using join_clean_nonempty[of ks] Cons clean by simp
    moreover have "?post = ''/'' @ join_with ''/'' ks"
      using Cons concat_slash_join[of k ks'] by simp
    ultimately show ?thesis using Cons by (simp only: strip_prefix_append) (simp add: key_of_segments_def)
  qed
  ultimately show ?thesis by (simp add: from_bucket_def s)
qed

text \<open>
  Where the bucket's name also occurs in the text of the root path, the first occurrence is there,
  and the key is too long: it is not the relative path.
\<close>

lemma from_bucket_name_in_root:
  assumes ne: "clean_component n" and occ: "concat (map (\<lambda>c. CHR ''/'' # c) root) = a @ n @ b"
    and k: "from_bucket (Bucket n) (root @ n # ks) = Some k"
  shows "k \<noteq> key_of_segments ks"
proof -
  let ?post = "concat (map (\<lambda>c. CHR ''/'' # c) ks)"
  obtain a0 x where c: "split_once n (path_str (root @ n # ks)) = Some (a0, x)"
    and k': "k = Key (let y = opt_default x (strip_prefix ''/'' x) in if y = [] then ''.'' else y)"
    using k by (auto simp: from_bucket_def path_to_str_def os_to_str_def Let_def split: option.splits if_splits)
  have s: "path_str (root @ n # ks) = a @ n @ (b @ ''/'' @ n @ ?post)"
    using occ by (simp add: path_str_below)
  have x: "path_str (root @ n # ks) = a0 @ n @ x" using split_once_Some[OF c] .
  have "length a0 \<le> length a" using split_once_first[OF c s] .
  moreover have "length a0 + length n + length x = length a + length n + (length b + 1 + length n + length ?post)"
    using arg_cong[OF x, of length] arg_cong[OF s, of length] by simp
  ultimately have len: "length (''/'' @ n @ ?post) \<le> length x" by simp
  have "suffix (''/'' @ n @ ?post) (path_str (root @ n # ks))" "suffix x (path_str (root @ n # ks))"
    using s x by (metis suffixI append.assoc)+
  from suffix_length_suffix[OF this len] obtain u where u: "x = u @ ''/'' @ n @ ?post"
    by (auto simp: suffix_def)
  define y where "y = opt_default x (strip_prefix ''/'' x)"
  have y: "suffix (n @ ?post) y"
    using u by (cases u) (auto simp: y_def strip_prefix_def suffix_def)
  then have "y \<noteq> []" using ne by (auto simp: clean_component_def)
  with k' have k'': "k = Key y" by (simp add: y_def)
  show ?thesis
  proof (cases ks)
    case Nil
    with y ne have "y \<noteq> ''.''" by (auto simp: suffix_def append_eq_Cons_conv clean_component_def)
    with Nil k'' show ?thesis by (simp add: key_of_segments_def)
  next
    case (Cons k0 ks0)
    have "length n + length ?post \<le> length y"
      using y by (auto dest: suffix_length_le)
    moreover have "length (join_with ''/'' ks) < length ?post"
      using Cons concat_slash_join[of k0 ks0] by simp
    ultimately have "length (join_with ''/'' ks) < length y" by simp
    with Cons k'' show ?thesis by (auto simp: key_of_segments_def)
  qed
qed

end
