(* ===== verification/Skipper.thy ===== *)
theory Skipper
  imports Keys
begin

text \<open>
  The skipper (directory/src/manager/utils/skipper.rs): when the watcher itself renames a path, it
  notes the new name, and the event that the rename causes is skipped once. Three trackers with one
  contract, stated as the interface \<open>skip_tracker\<close>: a tracker holds a set of names, \<open>to_skip\<close> adds
  one, \<open>skipped\<close> asks for one and takes it out. The mutexes make each operation atomic.
\<close>

type_synonym bucket_tracker = "bucket set"

type_synonym key_tracker = "bucket \<Rightarrow> bkey set option"

type_synonym object_tracker = "bucket \<Rightarrow> (bkey \<Rightarrow> string set option) option"

record skipper =
  sk_bucket :: bucket_tracker
  sk_key :: key_tracker
  sk_object :: object_tracker

definition skipper_new :: skipper where
  "skipper_new = \<lparr>sk_bucket = {}, sk_key = (\<lambda>_. None), sk_object = (\<lambda>_. None)\<rparr>"

text \<open>\<^verbatim>\<open>HashSet::insert\<close> and \<^verbatim>\<open>remove\<close> with their answers.\<close>

definition set_insert :: "'a \<Rightarrow> 'a set \<Rightarrow> bool \<times> 'a set" where
  "set_insert x s = (x \<notin> s, insert x s)"

definition set_remove :: "'a \<Rightarrow> 'a set \<Rightarrow> bool \<times> 'a set" where
  "set_remove x s = (x \<in> s, s - {x})"

definition bucket_to_skip :: "bucket \<Rightarrow> bucket_tracker \<Rightarrow> bool \<times> bucket_tracker" where
  "bucket_to_skip b t = set_insert b t"

definition bucket_skipped :: "bucket \<Rightarrow> bucket_tracker \<Rightarrow> bool \<times> bucket_tracker" where
  "bucket_skipped b t = set_remove b t"

definition key_to_skip :: "bucket \<times> bkey \<Rightarrow> key_tracker \<Rightarrow> bool \<times> key_tracker" where
  "key_to_skip bk t =
     (case bk of (b, k) \<Rightarrow>
        case set_insert k (opt_default {} (t b)) of (r, s) \<Rightarrow> (r, t(b \<mapsto> s)))"

definition key_skipped :: "bucket \<times> bkey \<Rightarrow> key_tracker \<Rightarrow> bool \<times> key_tracker" where
  "key_skipped bk t =
     (case bk of (b, k) \<Rightarrow>
        case t b of
          None \<Rightarrow> (False, t)
        | Some s \<Rightarrow> (case set_remove k s of (r, s') \<Rightarrow> (r, t(b \<mapsto> s'))))"

definition object_to_skip :: "bucket \<times> bkey \<times> string \<Rightarrow> object_tracker \<Rightarrow> bool \<times> object_tracker" where
  "object_to_skip bkn t =
     (case bkn of (b, k, n) \<Rightarrow>
        let m = opt_default (\<lambda>_. None) (t b) in
        case set_insert n (opt_default {} (m k)) of (r, s) \<Rightarrow> (r, t(b \<mapsto> m(k \<mapsto> s))))"

definition object_skipped :: "bucket \<times> bkey \<times> string \<Rightarrow> object_tracker \<Rightarrow> bool \<times> object_tracker" where
  "object_skipped bkn t =
     (case bkn of (b, k, n) \<Rightarrow>
        case t b of
          None \<Rightarrow> (False, t)
        | Some m \<Rightarrow>
            (case m k of
               None \<Rightarrow> (False, t)
             | Some s \<Rightarrow> (case set_remove n s of (r, s') \<Rightarrow> (r, t(b \<mapsto> m(k \<mapsto> s'))))))"

section \<open>The contract\<close>

locale skip_tracker =
  fixes to_skip :: "'k \<Rightarrow> 't \<Rightarrow> bool \<times> 't"
    and skipped :: "'k \<Rightarrow> 't \<Rightarrow> bool \<times> 't"
    and armed :: "'t \<Rightarrow> 'k set"
  assumes armed_to_skip: "armed (snd (to_skip k t)) = insert k (armed t)"
    and to_skip_answer: "fst (to_skip k t) \<longleftrightarrow> k \<notin> armed t"
    and armed_skipped: "armed (snd (skipped k t)) = armed t - {k}"
    and skipped_answer: "fst (skipped k t) \<longleftrightarrow> k \<in> armed t"
begin

text \<open>A noted name is skipped once, whatever else is asked in between.\<close>

lemma skip_once:
  "fst (skipped k (snd (to_skip k t))) \<and> \<not> fst (skipped k (snd (skipped k (snd (to_skip k t)))))"
  by (simp add: skipped_answer armed_skipped armed_to_skip)

lemma skipped_other: "j \<noteq> k \<Longrightarrow> fst (skipped j (snd (to_skip k t))) = fst (skipped j t)"
  by (simp add: skipped_answer armed_to_skip)

lemma skip_survives:
  "k \<notin> set js \<Longrightarrow> fst (skipped k (fold (\<lambda>j t. snd (skipped j t)) js (snd (to_skip k t))))"
proof -
  have "armed (fold (\<lambda>j t. snd (skipped j t)) js u) = armed u - set js" for u
    by (induction js arbitrary: u) (auto simp: armed_skipped)
  moreover assume "k \<notin> set js"
  ultimately show ?thesis by (simp add: skipped_answer armed_to_skip)
qed

lemma never_armed_not_skipped: "k \<notin> armed t \<Longrightarrow> \<not> fst (skipped k t)"
  by (simp add: skipped_answer)

end

definition key_armed :: "key_tracker \<Rightarrow> (bucket \<times> bkey) set" where
  "key_armed t = {(b, k). k \<in> opt_default {} (t b)}"

definition object_armed :: "object_tracker \<Rightarrow> (bucket \<times> bkey \<times> string) set" where
  "object_armed t = {(b, k, n). n \<in> opt_default {} (opt_default (\<lambda>_. None) (t b) k)}"

interpretation bucket_tracker: skip_tracker bucket_to_skip bucket_skipped "\<lambda>t. t"
  by unfold_locales (auto simp: bucket_to_skip_def bucket_skipped_def set_insert_def set_remove_def)

interpretation key_tracker: skip_tracker key_to_skip key_skipped key_armed
  by unfold_locales
    (auto simp: key_to_skip_def key_skipped_def set_insert_def set_remove_def key_armed_def
      split: option.splits prod.splits if_splits)

interpretation object_tracker: skip_tracker object_to_skip object_skipped object_armed
  by unfold_locales
    (auto simp: object_to_skip_def object_skipped_def set_insert_def set_remove_def object_armed_def Let_def
      opt_default_def split: option.splits prod.splits if_splits)

end
