(* ===== verification/Normalize.thy ===== *)
theory Normalize
  imports Keys
begin

text \<open>
  Name normalisation (directory/src/bucket/utils/mod.rs and normalizeds.rs): what a directory or a
  file found under the root is renamed to. Directory names keep the characters of
  \<^verbatim>\<open>[a-zA-Z0-9_.]\<close> and get an underscore for every other character; file names lose leading
  hyphens and get an underscore for every U+FFFD that the lossy decoding put in.

  The random part of a generated name (\<^verbatim>\<open>nanoid!\<close>) is an argument.
\<close>

section \<open>Decisions\<close>

record rename =
  rn_parent :: path
  rn_from :: string
  rn_to :: string

definition rename_new :: "path \<Rightarrow> string \<Rightarrow> string \<Rightarrow> rename" where
  "rename_new p f t = \<lparr>rn_parent = p, rn_from = f, rn_to = t\<rparr>"

datatype rename_decision = NeedRestore | Yes rename | Not string | Fail string

datatype rename_error = InvalidPath path | InvalidParent path

section \<open>Directories\<close>

text \<open>
  \<^verbatim>\<open>NAME_ALLOWED.replace_all(_, "_")\<close> on the bytes of a valid string: the byte that starts a
  refused character becomes an underscore, its continuation bytes go.
\<close>

definition allowed_byte :: "char \<Rightarrow> string" where
  "allowed_byte c = (if name_char c then [c] else if is_cont c then [] else ''_'')"

definition replace_disallowed :: "string \<Rightarrow> string" where
  "replace_disallowed s = concat (map allowed_byte s)"

definition normalize_path :: "bool \<Rightarrow> string \<Rightarrow> path \<Rightarrow> rename_error + rename_decision" where
  "normalize_path new_path nano dest =
     (case map_option to_string_lossy (path_file_name dest) of
        None \<Rightarrow> Inl (InvalidPath dest)
      | Some fname \<Rightarrow>
          let new_name = replace_disallowed (trim_start_ch (CHR ''-'') fname) in
          if new_name \<noteq> [] then
            (if fname \<noteq> new_name then
               (case path_parent dest of
                  None \<Rightarrow> Inl (InvalidParent dest)
                | Some parent \<Rightarrow>
                    Inr (Yes \<lparr>rn_parent = parent, rn_from = fname, rn_to = new_name\<rparr>))
             else Inr (Not new_name))
          else if new_path then
            (case path_parent dest of
               None \<Rightarrow> Inl (InvalidParent dest)
             | Some parent \<Rightarrow> Inr (Yes (rename_new parent fname (''INVALID_NAME-'' @ nano))))
          else Inr NeedRestore)"

section \<open>Files\<close>

definition normalize_file :: "string \<Rightarrow> path \<Rightarrow> rename_error + rename_decision" where
  "normalize_file nano p =
     (case map_option to_string_lossy (path_file_name p) of
        None \<Rightarrow> Inl (InvalidPath p)
      | Some name \<Rightarrow>
          let new_name = replace_str fffd ''_'' (trim_start_ch (CHR ''-'') name);
              new_name = (if new_name \<noteq> [] then new_name else nano @ ''.unknown'') in
          if name \<noteq> new_name then
            (case path_parent p of
               None \<Rightarrow> Inl (InvalidParent p)
             | Some parent \<Rightarrow> Inr (Yes (rename_new parent name new_name)))
          else Inr (Not new_name))"

section \<open>Lemmas\<close>

lemma name_char_simps [simp]: "\<not> name_char (CHR ''-'')" "name_char (CHR ''_'')"
    "\<not> name_char (CHR ''/'')"
  by (simp_all add: name_char_def byte_def)

lemma replace_disallowed_chars: "c \<in> set (replace_disallowed s) \<Longrightarrow> name_char c"
  by (auto simp: replace_disallowed_def allowed_byte_def split: if_splits)

lemma replace_disallowed_id: "\<forall>c \<in> set s. name_char c \<Longrightarrow> replace_disallowed s = s"
  by (induction s) (auto simp: replace_disallowed_def allowed_byte_def)

lemma trim_start_ch_id: "s = [] \<or> hd s \<noteq> c \<Longrightarrow> trim_start_ch c s = s"
  by (cases s) (auto simp: trim_start_ch_def)

lemma trim_start_ch_hd: "trim_start_ch c s = [] \<or> hd (trim_start_ch c s) \<noteq> c"
  by (induction s) (auto simp: trim_start_ch_def)

lemma normalize_clean_name:
  assumes "n \<noteq> []" "\<forall>c \<in> set n. name_char c"
  shows "to_string_lossy n = n" "replace_disallowed (trim_start_ch (CHR ''-'') n) = n"
proof -
  have "hd n \<noteq> CHR ''-''" using assms by (metis list.set_sel(1) name_char_simps(1))
  then have "trim_start_ch (CHR ''-'') n = n" by (simp add: trim_start_ch_id)
  then show "replace_disallowed (trim_start_ch (CHR ''-'') n) = n"
    using assms(2) by (simp add: replace_disallowed_id)
  show "to_string_lossy n = n"
    using assms(2) name_char_ascii by (intro to_string_lossy_valid utf8_valid_all_ascii) auto
qed

text \<open>A directory whose name is clean is left alone.\<close>

lemma normalize_path_clean:
  "n \<noteq> [] \<Longrightarrow> n \<noteq> ''..'' \<Longrightarrow> \<forall>c \<in> set n. name_char c
    \<Longrightarrow> normalize_path new nano (p @ [n]) = Inr (Not n)"
  by (simp add: normalize_path_def normalize_clean_name Let_def)

lemma normalize_path_NotD:
  assumes "normalize_path new nano p = Inr (Not n)"
  shows "n \<noteq> []" "\<forall>c \<in> set n. name_char c"
    "map_option to_string_lossy (path_file_name p) = Some n"
  using assms replace_disallowed_chars
  by (auto simp: normalize_path_def Let_def split: option.splits if_splits) metis+

lemma normalize_path_YesD:
  assumes "normalize_path new nano p = Inr (Yes r)"
  shows "path_parent p = Some (rn_parent r)"
    "map_option to_string_lossy (path_file_name p) = Some (rn_from r)"
    "rn_to r \<noteq> [] \<and> (\<forall>c \<in> set (rn_to r). name_char c) \<or> new \<and> rn_to r = ''INVALID_NAME-'' @ nano"
  using assms by (auto simp: normalize_path_def rename_new_def Let_def dest: replace_disallowed_chars
      split: option.splits if_splits)

lemma normalize_path_ok:
  assumes "n \<noteq> ''..''"
  shows "\<exists>d. normalize_path new nano (p @ [n]) = Inr d"
  using assms by (auto simp: normalize_path_def Let_def)

lemma normalize_path_cases:
  assumes "n \<noteq> ''..''"
  obtains (Yes) r where "normalize_path True nano (p @ [n]) = Inr (Yes r)"
    | (Not) m where "normalize_path True nano (p @ [n]) = Inr (Not m)"
proof (cases "normalize_path True nano (p @ [n])")
  case (Inr d)
  then show ?thesis
    using assms Yes Not by (cases d) (auto simp: normalize_path_def Let_def split: if_splits)
qed (use assms in \<open>auto simp: normalize_path_def Let_def split: if_splits\<close>)

text \<open>Pieces of a split do not contain the pattern.\<close>

lemma split_str_pieces:
  "pat \<noteq> [] \<Longrightarrow> x \<in> set (split_str pat s) \<Longrightarrow> split_once pat x = None"
proof (induction pat s rule: split_str.induct)
  case (1 pat s)
  show ?case
  proof (cases "split_once pat s")
    case None
    then show ?thesis using 1 by (simp add: split_str.simps)
  next
    case (Some ab)
    obtain a b where ab: "ab = (a, b)" by force
    have "split_once pat a = None"
    proof (rule ccontr)
      assume "split_once pat a \<noteq> None"
      then obtain u v where uv: "a = u @ pat @ v" using split_once_None_iff by metis
      have s: "s = u @ pat @ (v @ pat @ b)" using split_once_Some Some ab uv by fastforce
      have "length a \<le> length u" using split_once_first[OF _ s] Some ab by blast
      with uv "1.prems"(1) show False by simp
    qed
    with Some ab 1 show ?thesis by (auto simp: split_str.simps[of pat s])
  qed
qed

lemma split_str_neq_Nil [simp]: "split_str pat s \<noteq> []"
  by (simp add: split_str.simps[of pat s] split: option.splits)

lemma split_str_none: "split_once pat s = None \<Longrightarrow> split_str pat s = [s]"
  by (simp add: split_str.simps)

lemma fffd_neq_Nil [simp]: "fffd \<noteq> []"
  by (simp add: fffd_def)

lemma replace_str_cut:
  "split_once pat s = Some (a, b) \<Longrightarrow> pat \<noteq> [] \<Longrightarrow> replace_str pat by s = a @ by @ replace_str pat by b"
  by (simp add: replace_str_def split_str.simps[of pat s] join_with_ConsI)

lemma replace_str_id: "split_once pat s = None \<Longrightarrow> replace_str pat by s = s"
  by (simp add: replace_str_def split_str_none)

text \<open>Joining pieces without U+FFFD by an ASCII byte gives a text without it.\<close>

lemma no_pat_join_one:
  assumes "split_once pat a = None" "split_once pat b = None" "c \<notin> set pat" "pat \<noteq> []"
  shows "split_once pat (a @ c # b) = None"
proof (rule ccontr)
  assume "split_once pat (a @ c # b) \<noteq> None"
  then obtain u v where uv: "a @ c # b = u @ pat @ v" using split_once_None_iff by metis
  from uv consider w where "a = u @ w" "w @ c # b = pat @ v" | w where "u = a @ w" "c # b = w @ pat @ v"
    by (auto simp: append_eq_append_conv2)
  then show False
  proof cases
    case 1
    from 1(2) consider z where "w = pat @ z" | z where "pat = w @ z" "c # b = z @ v"
      by (auto simp: append_eq_append_conv2)
    then show False
    proof cases
      case 1
      with \<open>a = u @ w\<close> assms(1) show False using split_once_None_iff by (metis append.assoc)
    next
      case 2
      show False
      proof (cases z)
        case Nil
        with 2 have "a = u @ pat @ []" using \<open>a = u @ w\<close> by simp
        with assms(1) show False using split_once_None_iff by metis
      next
        case (Cons d z')
        with 2 assms(3) show False by simp
      qed
    qed
  next
    case 2
    then show False
    proof (cases w)
      case Nil
      with 2 assms(3,4) show False by (cases pat) auto
    next
      case (Cons d w')
      with 2 have "b = w' @ pat @ v" by simp
      with assms(2) show False using split_once_None_iff by metis
    qed
  qed
qed

lemma no_pat_join:
  "\<forall>x \<in> set xs. split_once pat x = None \<Longrightarrow> xs \<noteq> [] \<Longrightarrow> c \<notin> set pat \<Longrightarrow> pat \<noteq> []
    \<Longrightarrow> split_once pat (join_with [c] xs) = None"
proof (induction xs)
  case (Cons x xs)
  then show ?case by (cases xs) (auto simp: no_pat_join_one)
qed simp

lemma replace_fffd_gone: "split_once fffd (replace_str fffd ''_'' s) = None"
  unfolding replace_str_def
  by (rule no_pat_join) (auto simp: split_str_pieces fffd_def)

lemma replace_fffd_hd:
  assumes "s = [] \<or> hd s \<noteq> CHR ''-''"
  shows "replace_str fffd ''_'' s = [] \<or> hd (replace_str fffd ''_'' s) \<noteq> CHR ''-''"
proof (cases "split_once fffd s")
  case None
  then show ?thesis using assms by (simp add: replace_str_id)
next
  case (Some ab)
  obtain a b where ab: "ab = (a, b)" by force
  have s: "s = a @ fffd @ b" using Some ab split_once_Some by blast
  have "replace_str fffd ''_'' s = a @ ''_'' @ replace_str fffd ''_'' b"
    using Some ab by (simp add: replace_str_cut)
  with s assms show ?thesis by (cases a) auto
qed

text \<open>Validity is kept: a U+FFFD that is cut out is a whole character of its own.\<close>

lemma utf8_valid_split:
  "utf8_valid (a @ fffd @ b) \<Longrightarrow> utf8_valid a \<and> utf8_valid b"
proof (induction a rule: length_induct)
  case (1 a)
  show ?case
  proof (cases a)
    case Nil
    with 1 show ?thesis by simp
  next
    case (Cons c s)
    obtain n where n: "utf8_next c (s @ fffd @ b) = (True, n)"
      using "1.prems" Cons by (cases "utf8_next c (s @ fffd @ b)") (auto simp: utf8_valid.simps(2))
    have v: "utf8_valid (drop n (c # s @ fffd @ b))"
      using "1.prems" Cons n by (simp add: utf8_valid.simps(2))
    have ncont: "\<not> is_cont (CHR 0xEF)" and nsec: "\<not> second_ok c (CHR 0xEF)"
      by (simp_all add: is_cont_def byte_def second_ok_def Let_def)
    have bound: "n \<le> Suc (length s) \<and> utf8_next c s = (True, n)"
    proof -
      have k: "conts k (t @ fffd @ b) = k \<Longrightarrow> k \<le> length t \<and> conts k t = k" for k t
      proof (induction k t rule: conts.induct)
        case (2 k)
        then show ?case using ncont by (simp add: fffd_def)
      next
        case (3 k d t)
        then show ?case by (simp split: if_splits)
      qed simp
      show ?thesis
        using n nsec k[of "utf8_width c - 2" "tl s"]
        by (cases s) (auto simp: utf8_next_def Let_def fffd_def split: if_splits)
    qed
    have n1: "1 \<le> n" using utf8_next_bounds(1)[of c "s @ fffd @ b"] n by simp
    have d: "drop n (c # s @ fffd @ b) = drop n (c # s) @ fffd @ b" using bound by (cases n) auto
    have "length (drop n (c # s)) < length a" using n1 Cons by simp
    with 1 v d have "utf8_valid (drop n (c # s)) \<and> utf8_valid b" by metis
    with Cons bound show ?thesis by (simp add: utf8_valid.simps(2))
  qed
qed

lemma utf8_valid_replace_fffd: "utf8_valid s \<Longrightarrow> utf8_valid (replace_str fffd ''_'' s)"
proof (induction "length s" arbitrary: s rule: less_induct)
  case less
  show ?case
  proof (cases "split_once fffd s")
    case None
    then show ?thesis using less.prems by (simp add: replace_str_id)
  next
    case (Some ab)
    obtain a b where ab: "ab = (a, b)" by force
    have s: "s = a @ fffd @ b" using Some ab split_once_Some by blast
    have ub: "byte (CHR ''_'') < 128" by (simp add: byte_def)
    have "replace_str fffd ''_'' s = a @ ''_'' @ replace_str fffd ''_'' b"
      using Some ab by (simp add: replace_str_cut)
    moreover have "utf8_valid a" "utf8_valid b" using utf8_valid_split less.prems s by blast+
    moreover have "length b < length s" using s by (simp add: fffd_def)
    ultimately show ?thesis using less.hyps ub by (simp add: utf8_valid_append utf8_valid_ascii)
  qed
qed

lemma utf8_valid_trim_hyphen: "utf8_valid s \<Longrightarrow> utf8_valid (trim_start_ch (CHR ''-'') s)"
proof (induction s)
  case (Cons c s)
  have "byte (CHR ''-'') < 128" by (simp add: byte_def)
  then show ?case using Cons by (cases "c = CHR ''-''") (auto simp: trim_start_ch_def utf8_valid_ascii)
qed (simp add: trim_start_ch_def)

lemma normalize_file_YesD:
  assumes "normalize_file nano p = Inr (Yes r)"
  shows "path_parent p = Some (rn_parent r)"
    "map_option to_string_lossy (path_file_name p) = Some (rn_from r)"
    "rn_to r = nano @ ''.unknown'' \<or>
     rn_to r \<noteq> [] \<and> hd (rn_to r) \<noteq> CHR ''-'' \<and> utf8_valid (rn_to r) \<and> split_once fffd (rn_to r) = None"
  using assms replace_fffd_hd[OF trim_start_ch_hd[of "CHR ''-''" "to_string_lossy (the (path_file_name p))"]]
  by (auto simp: normalize_file_def rename_new_def Let_def replace_fffd_gone utf8_valid_replace_fffd
      utf8_valid_trim_hyphen to_string_lossy_is_utf8 split: option.splits if_splits)

lemma normalize_file_clean:
  assumes "n \<noteq> []" "n \<noteq> ''..''" "hd n \<noteq> CHR ''-''" "utf8_valid n" "split_once fffd n = None"
  shows "normalize_file nano (p @ [n]) = Inr (Not n)"
  using assms by (simp add: normalize_file_def to_string_lossy_valid trim_start_ch_id replace_str_id Let_def)

lemma normalize_file_NotD:
  assumes "normalize_file nano p = Inr (Not n)"
  shows "n \<noteq> []" "utf8_valid n" "map_option to_string_lossy (path_file_name p) = Some n"
proof -
  show n: "n \<noteq> []" "map_option to_string_lossy (path_file_name p) = Some n"
    using assms by (auto simp: normalize_file_def Let_def split: option.splits if_splits)
  show "utf8_valid n" using n(2) to_string_lossy_is_utf8 by auto
qed

lemma normalize_file_cases:
  assumes "n \<noteq> ''..''"
  obtains (Yes) r where "normalize_file nano (p @ [n]) = Inr (Yes r)"
    | (Not) m where "normalize_file nano (p @ [n]) = Inr (Not m)"
proof (cases "normalize_file nano (p @ [n])")
  case (Inr d)
  then show ?thesis
    using assms Yes Not by (cases d) (auto simp: normalize_file_def Let_def split: if_splits)
qed (use assms in \<open>auto simp: normalize_file_def Let_def split: if_splits\<close>)

end
