(* ===== verification/Objects.thy ===== *)
theory Objects
  imports Keys "HOL-Library.Word"
begin

text \<open>
  \<^verbatim>\<open>Object\<close> (directory/src/bucket/object.rs): the record the service keeps of a file, its
  timestamps, its checksum, and the operating system services it is built from.

  The operating system and the SHA-256 implementation are parameters: an \<open>os\<close> record of
  functions on an abstract file-system state. A point in time is its nanoseconds since the Unix
  epoch together with the offset it is shown in.
\<close>

section \<open>Time stamps\<close>

record datetime =
  dt_nanos :: int
  dt_offset :: int

text \<open>
  \<^verbatim>\<open>from_systemtime\<close>: both \<^verbatim>\<open>unwrap\<close>s can fail, on a time before 1970 and on one past
  the year 9999 (the last second the \<^verbatim>\<open>time\<close> crate represents).
\<close>

definition max_unix_timestamp :: int where
  "max_unix_timestamp = 253402300799"

definition from_systemtime :: "int \<Rightarrow> datetime run" where
  "from_systemtime v =
     (if v < 0 then Inl UnwrapErr
      else let secs = v div 1000000000; nanos = v mod 1000000000 in
        if max_unix_timestamp < secs then Inl UnwrapErr
        else Inr \<lparr>dt_nanos = secs * 1000000000 + nanos, dt_offset = - 3 * 3600\<rparr>)"

text \<open>
  The \<^verbatim>\<open>Changed\<close> trait: any type compared by \<^verbatim>\<open>!=\<close>, a time stamp by
  \<open>self > other\<close> when both are present.
\<close>

definition changed :: "'a \<Rightarrow> 'a \<Rightarrow> bool" where
  "changed self other \<longleftrightarrow> self \<noteq> other"

definition time_changed :: "datetime option \<Rightarrow> datetime option \<Rightarrow> bool" where
  "time_changed self other =
     (case other of
        None \<Rightarrow> False
      | Some x \<Rightarrow> (case self of None \<Rightarrow> False | Some y \<Rightarrow> dt_nanos x < dt_nanos y))"

section \<open>Checksums\<close>

datatype read_result = ReadOk string | ReadErr string

record 'h digest =
  dg_new :: 'h
  dg_update :: "'h \<Rightarrow> string \<Rightarrow> 'h"
  dg_hex :: "'h \<Rightarrow> string"

text \<open>
  \<^verbatim>\<open>CheckSum::check_sum\<close>: read until a read gives no bytes, feeding the hash; the results of
  the successive reads are a list, after whose end a read gives no bytes.
\<close>

fun checksum_loop :: "'h digest \<Rightarrow> 'h \<Rightarrow> read_result list \<Rightarrow> string + 'h" where
  "checksum_loop d sha [] = Inr sha"
| "checksum_loop d sha (ReadErr e # rs) = Inl e"
| "checksum_loop d sha (ReadOk bs # rs) =
     (if bs = [] then Inr sha else checksum_loop d (dg_update d sha bs) rs)"

definition check_sum :: "'h digest \<Rightarrow> string + read_result list \<Rightarrow> string + string" where
  "check_sum d file =
     and_then file (\<lambda>reads. and_then (checksum_loop d (dg_new d) reads) (\<lambda>sha. Inr (dg_hex d sha)))"

section \<open>The operating system\<close>

record file_meta =
  fm_modified :: "int option"
  fm_accessed :: "int option"
  fm_created :: "int option"
  fm_size :: "64 word"

record ('fs, 'h) os =
  os_metadata :: "'fs \<Rightarrow> path \<Rightarrow> file_meta option"
  os_open :: "'fs \<Rightarrow> path \<Rightarrow> string + read_result list"
  os_is_dir :: "'fs \<Rightarrow> path \<Rightarrow> bool"
  os_rename :: "path \<Rightarrow> path \<Rightarrow> 'fs \<Rightarrow> bool \<times> 'fs"
  os_now_local :: "'fs \<Rightarrow> datetime option"
  os_sha256 :: "'h digest"

section \<open>Objects\<close>

datatype owner_file = System | User string

record object =
  obj_size :: int
  owner :: owner_file
  file_name :: string
  checksum :: string
  seen_by :: "string list option"
  taken_by :: "string list option"
  modified :: "datetime option"
  accessed :: "datetime option"
  created :: "datetime option"

text \<open>\<^verbatim>\<open>PartialEq\<close>: only the name and the checksum are compared.\<close>

definition object_eq :: "object \<Rightarrow> object \<Rightarrow> bool" where
  "object_eq a b \<longleftrightarrow> file_name a = file_name b \<and> checksum a = checksum b"

definition opt_time :: "int option \<Rightarrow> datetime option run" where
  "opt_time t =
     (case t of None \<Rightarrow> Inr None | Some v \<Rightarrow> and_then (from_systemtime v) (\<lambda>d. Inr (Some d)))"

text \<open>
  \<^verbatim>\<open>get_info_metadata\<close>: without metadata the three times default to the local time (which
  panics when it cannot be determined) and the size to 0; \<^verbatim>\<open>as i64\<close> reads the 64 bits as signed.
\<close>

definition get_info_metadata ::
    "datetime option \<Rightarrow> file_meta option
     \<Rightarrow> (datetime option \<times> datetime option \<times> datetime option \<times> int) run" where
  "get_info_metadata now meta =
     (case meta of
        Some m \<Rightarrow>
          and_then (opt_time (fm_modified m)) (\<lambda>mo.
          and_then (opt_time (fm_accessed m)) (\<lambda>ac.
          and_then (opt_time (fm_created m)) (\<lambda>cr.
          Inr (mo, ac, cr, sint (fm_size m)))))
      | None \<Rightarrow> and_then (unwrap now) (\<lambda>t. Inr (Some t, Some t, Some t, 0)))"

text \<open>
  \<^verbatim>\<open>Object::default\<close>: its time stamps are the local time, so it panics when there is none.
\<close>

definition object_default :: "datetime option \<Rightarrow> object run" where
  "object_default now =
     and_then (unwrap now) (\<lambda>t.
       Inr \<lparr>obj_size = 0, owner = System, file_name = [], checksum = [], seen_by = None,
            taken_by = None, modified = Some t, accessed = Some t, created = Some t\<rparr>)"

text \<open>
  \<^verbatim>\<open>Object::new\<close>: a failed checksum is logged and leaves the empty string; the remaining
  fields come from \<^verbatim>\<open>..Default::default()\<close>.
\<close>

definition object_new :: "('fs, 'h) os \<Rightarrow> 'fs \<Rightarrow> path \<Rightarrow> owner_file \<Rightarrow> object run" where
  "object_new os fs path own =
     and_then (get_info_metadata (os_now_local os fs) (os_metadata os fs path)) (\<lambda>(mo, ac, cr, sz).
     and_then (unwrap (Option.bind (path_file_name path) os_to_str)) (\<lambda>name.
     and_then (object_default (os_now_local os fs)) (\<lambda>d.
     Inr (d\<lparr>file_name := name,
            checksum := (case check_sum (os_sha256 os) (os_open os fs path) of
                           Inr msg \<Rightarrow> msg | Inl _ \<Rightarrow> []),
            obj_size := sz, modified := mo, owner := own, accessed := ac, created := cr\<rparr>))))"

section \<open>Properties\<close>

lemma from_systemtime_ok:
  "0 \<le> v \<Longrightarrow> v div 1000000000 \<le> max_unix_timestamp
     \<Longrightarrow> from_systemtime v = Inr \<lparr>dt_nanos = v, dt_offset = - 10800\<rparr>"
  by (simp add: from_systemtime_def Let_def)

text \<open>
  The digest does not depend on how the reads cut the file, given that feeding two pieces is
  feeding their concatenation.
\<close>

lemma checksum_loop_concat:
  assumes "\<And>h a b. dg_update d (dg_update d h a) b = dg_update d h (a @ b)"
    and "\<And>h. dg_update d h [] = h"
  shows "\<forall>c \<in> set cs. c \<noteq> [] \<Longrightarrow>
    checksum_loop d h (map ReadOk cs) = Inr (dg_update d h (concat cs))"
proof (induction cs arbitrary: h)
  case (Cons c cs)
  then show ?case by (simp add: assms(1))
qed (simp add: assms(2))

lemma checksum_loop_err:
  "\<forall>c \<in> set cs. c \<noteq> [] \<Longrightarrow> checksum_loop d h (map ReadOk cs @ ReadErr e # rs) = Inl e"
  by (induction cs arbitrary: h) auto

lemma object_new_name:
  "object_new os fs path own = Inr ob \<Longrightarrow>
     path_file_name path = Some (file_name ob) \<and> utf8_valid (file_name ob) \<and> owner ob = own
     \<and> seen_by ob = None \<and> taken_by ob = None"
  by (auto simp: object_new_def object_default_def and_then_eq_Inr os_to_str_def
      split: option.splits if_splits prod.splits bind_splits)

lemma object_new_no_clock:
  "os_now_local os fs = None \<Longrightarrow> \<exists>p. object_new os fs path own = Inl p"
  by (auto simp: object_new_def object_default_def and_then_def split: sum.splits)

end
