(* ===== verification/Bucket_Map.thy ===== *)
theory Bucket_Map
  imports Objects
begin

text \<open>
  The in-memory tree of the directory service (directory/src/bucket/bucket_map.rs): a map from
  buckets to entries, an entry holding the objects of a directory, its subdirectories and the
  broker its observers subscribe to. \<open>apply_change\<close> is the method \<^verbatim>\<open>BucketMap::change\<close>, one
  definition per variant of \<^verbatim>\<open>Change\<close> (directory/src/manager/mod.rs).

  A mutable borrow of an entry (\<^verbatim>\<open>get_mut_entry\<close>) is the entry together with the function
  that puts a new entry in its place. Starting a \<^verbatim>\<open>WSBroker\<close> gives a new actor: brokers are
  numbers, and \<open>next_broker\<close> is the next unused one. Log messages are not modelled; a panic is a
  value.
\<close>

section \<open>State\<close>

datatype key_entry =
  KeyEntry (ke_objects: "object list option")
    (ke_keys: "(segment \<times> key_entry) list option")
    (ke_broker: nat)

record bucket_map =
  bm_path :: path
  bm_tree :: "(bucket, key_entry) btree"
  bm_broker :: nat
  next_broker :: nat

definition default_entry :: "nat \<Rightarrow> key_entry" where
  "default_entry broker = KeyEntry None None broker"

definition set_objects :: "object list option \<Rightarrow> key_entry \<Rightarrow> key_entry" where
  "set_objects obs e = KeyEntry obs (ke_keys e) (ke_broker e)"

definition set_keys :: "(segment, key_entry) btree option \<Rightarrow> key_entry \<Rightarrow> key_entry" where
  "set_keys ks e = KeyEntry (ke_objects e) ks (ke_broker e)"

lemma set_entry_simps [simp]:
  "ke_objects (set_objects obs e) = obs" "ke_keys (set_objects obs e) = ke_keys e"
  "ke_broker (set_objects obs e) = ke_broker e"
  "ke_objects (set_keys ks e) = ke_objects e" "ke_keys (set_keys ks e) = ks"
  "ke_broker (set_keys ks e) = ke_broker e"
  "ke_objects (default_entry n) = None" "ke_keys (default_entry n) = None"
  "ke_broker (default_entry n) = n"
  by (simp_all add: set_objects_def set_keys_def default_entry_def)

text \<open>\<^verbatim>\<open>BucketMap::new\<close> on what the operating system says of the path.\<close>

definition bucket_map_new :: "bool \<Rightarrow> bool \<Rightarrow> path \<Rightarrow> bucket_map run" where
  "bucket_map_new exists is_directory p =
     (if \<not> exists then Inl ExplicitPanic
      else if \<not> is_directory then Inl ExplicitPanic
      else Inr \<lparr>bm_path = p, bm_tree = [], bm_broker = 0, next_broker = 1\<rparr>)"

section \<open>Lookups\<close>

fun descend :: "key_entry \<Rightarrow> segment list \<Rightarrow> key_entry option" where
  "descend e [] = Some e"
| "descend e (s # ss) =
     (case Option.bind (ke_keys e) (\<lambda>ks. bt_get ks s) of
        None \<Rightarrow> None
      | Some c \<Rightarrow> descend c ss)"

definition get_entry :: "bucket_map \<Rightarrow> bucket \<Rightarrow> bkey \<Rightarrow> key_entry option" where
  "get_entry m b k =
     (if is_root k then bt_get (bm_tree m) b
      else Option.bind (bt_get (bm_tree m) b) (\<lambda>e. descend e (key_iter k)))"

definition get_object :: "bucket_map \<Rightarrow> bucket \<Rightarrow> bkey \<Rightarrow> string \<Rightarrow> object option" where
  "get_object m b k name =
     Option.bind (get_entry m b k) (\<lambda>v.
     Option.bind (ke_objects v) (\<lambda>x. find (\<lambda>ob. file_name ob = name) x))"

definition get_buckets :: "bucket_map \<Rightarrow> bucket list" where
  "get_buckets m = map fst (bm_tree m)"

text \<open>\<^verbatim>\<open>get_mut_entry\<close>: the entry and the way back.\<close>

fun descend_mut :: "key_entry \<Rightarrow> segment list \<Rightarrow> (key_entry \<times> (key_entry \<Rightarrow> key_entry)) option" where
  "descend_mut e [] = Some (e, \<lambda>e'. e')"
| "descend_mut e (s # ss) =
     (case ke_keys e of
        None \<Rightarrow> None
      | Some ks \<Rightarrow>
          (case bt_get ks s of
             None \<Rightarrow> None
           | Some c \<Rightarrow>
               map_option (\<lambda>(x, put). (x, \<lambda>x'. set_keys (Some (bt_insert s (put x') ks)) e))
                 (descend_mut c ss)))"

definition get_mut_bucket :: "bucket_map \<Rightarrow> bucket \<Rightarrow> (key_entry \<times> (key_entry \<Rightarrow> bucket_map)) option" where
  "get_mut_bucket m b =
     map_option (\<lambda>e. (e, \<lambda>e'. m\<lparr>bm_tree := bt_insert b e' (bm_tree m)\<rparr>)) (bt_get (bm_tree m) b)"

definition get_mut_entry ::
    "bucket_map \<Rightarrow> bucket \<Rightarrow> bkey \<Rightarrow> (key_entry \<times> (key_entry \<Rightarrow> bucket_map)) option" where
  "get_mut_entry m b k =
     (if is_root k then get_mut_bucket m b
      else Option.bind (get_mut_bucket m b) (\<lambda>(e, put).
             map_option (\<lambda>(x, put_entry). (x, \<lambda>x'. put (put_entry x')))
               (descend_mut e (key_iter k))))"

text \<open>
  \<^verbatim>\<open>subscriber\<close>: the broker a new observer is connected to, none when the entry is unknown.
\<close>

definition subscriber :: "bucket_map \<Rightarrow> bucket option \<Rightarrow> bkey option \<Rightarrow> nat option" where
  "subscriber m bucket key =
     (case bucket of
        Some b \<Rightarrow> map_option ke_broker (get_entry m b (opt_default key_root key))
      | None \<Rightarrow> Some (bm_broker m))"

section \<open>Changes\<close>

datatype change =
    NewObject bucket bkey object
  | NewKey bucket bkey
  | NewBucket bucket
  | NameObject bucket bkey string string
  | NameBucket bucket bucket
  | NameKey bucket bkey segment
  | DeleteObject bucket bkey string
  | DeleteKey bucket bkey
  | DeleteBucket bucket

text \<open>\<^verbatim>\<open>map.entry(k).or_default()\<close>: the default entry starts a broker, only when it is needed.\<close>

definition entry_or_default ::
    "'k::linorder \<Rightarrow> nat \<Rightarrow> ('k, key_entry) btree \<Rightarrow> ('k, key_entry) btree \<times> nat" where
  "entry_or_default k n m =
     (case bt_get m k of
        Some _ \<Rightarrow> (m, n)
      | None \<Rightarrow> (bt_insert k (default_entry n) m, Suc n))"

definition change_new_object :: "bucket \<Rightarrow> bkey \<Rightarrow> object \<Rightarrow> bucket_map \<Rightarrow> bucket_map run" where
  "change_new_object b k ob m =
     (case get_mut_entry m b k of
        None \<Rightarrow> Inr m
      | Some (entry, put) \<Rightarrow>
          Inr (put (set_objects (Some (opt_default [] (ke_objects entry) @ [ob])) entry)))"

text \<open>Both branches of \<^verbatim>\<open>NewKey\<close> end in the same \<^verbatim>\<open>keys.as_mut().unwrap()...or_default()\<close>.\<close>

definition insert_key ::
    "segment \<Rightarrow> key_entry \<times> (key_entry \<Rightarrow> bucket_map) \<Rightarrow> bucket_map \<Rightarrow> bucket_map run" where
  "insert_key seg entry_put m =
     (case entry_put of (entry, put) \<Rightarrow>
        and_then (unwrap (ke_keys entry)) (\<lambda>keys.
          case entry_or_default seg (next_broker m) keys of
            (keys', n) \<Rightarrow> Inr ((put (set_keys (Some keys') entry))\<lparr>next_broker := n\<rparr>)))"

definition change_new_key :: "bucket \<Rightarrow> bkey \<Rightarrow> bucket_map \<Rightarrow> bucket_map run" where
  "change_new_key b k m =
     (case rsplit_once (CHR ''/'') (key_name k) of
        Some (parent, new_key) \<Rightarrow>
          (case get_mut_entry m b (Key parent) of
             Some entry \<Rightarrow> insert_key (Segment new_key) entry m
           | None \<Rightarrow> Inr m)
      | None \<Rightarrow>
          (case get_mut_bucket m b of
             Some entry \<Rightarrow> insert_key (Segment (key_name k)) entry m
           | None \<Rightarrow> Inr m))"

definition change_new_bucket :: "bucket \<Rightarrow> bucket_map \<Rightarrow> bucket_map run" where
  "change_new_bucket b m =
     (case entry_or_default b (next_broker m) (bm_tree m) of
        (tree, n) \<Rightarrow> Inr (m\<lparr>bm_tree := tree, next_broker := n\<rparr>))"

definition change_name_object :: "bucket \<Rightarrow> bkey \<Rightarrow> string \<Rightarrow> string \<Rightarrow> bucket_map \<Rightarrow> bucket_map run" where
  "change_name_object b k frm dest m =
     (case get_mut_entry m b k of
        None \<Rightarrow> Inr m
      | Some (entry, put) \<Rightarrow>
          (case Option.bind (ke_objects entry) (position (\<lambda>x. file_name x = frm)) of
             Some i \<Rightarrow>
               Inr (put (set_objects
                 (map_option (\<lambda>obs. obs[i := (obs ! i)\<lparr>file_name := dest\<rparr>]) (ke_objects entry)) entry))
           | None \<Rightarrow> Inr m))"

text \<open>An existing \<open>dest\<close> is logged and then overwritten.\<close>

definition change_name_bucket :: "bucket \<Rightarrow> bucket \<Rightarrow> bucket_map \<Rightarrow> bucket_map run" where
  "change_name_bucket frm dest m =
     (case bt_get (bm_tree m) frm of
        Some entry \<Rightarrow> Inr (m\<lparr>bm_tree := bt_insert dest entry (bt_remove frm (bm_tree m))\<rparr>)
      | None \<Rightarrow> Inr m)"

definition rename_key ::
    "segment \<Rightarrow> segment \<Rightarrow> key_entry \<times> (key_entry \<Rightarrow> bucket_map) \<Rightarrow> bucket_map \<Rightarrow> bucket_map run" where
  "rename_key frm dest entry_put m =
     (case entry_put of (entry, put) \<Rightarrow>
        and_then (unwrap (ke_keys entry)) (\<lambda>keys.
          if bt_get keys dest \<noteq> None then Inr m
          else
            (case bt_get keys frm of
               Some old \<Rightarrow> Inr (put (set_keys (Some (bt_insert dest old (bt_remove frm keys))) entry))
             | None \<Rightarrow>
                 Inr ((put (set_keys (Some (bt_insert dest (default_entry (next_broker m))
                                              (bt_remove frm keys))) entry))
                        \<lparr>next_broker := Suc (next_broker m)\<rparr>))))"

definition change_name_key :: "bucket \<Rightarrow> bkey \<Rightarrow> segment \<Rightarrow> bucket_map \<Rightarrow> bucket_map run" where
  "change_name_key b frm dest m =
     (case rsplit_once (CHR ''/'') (key_name frm) of
        Some (parent, seg) \<Rightarrow>
          (case get_mut_entry m b (Key parent) of
             None \<Rightarrow> Inr m
           | Some entry \<Rightarrow> rename_key (Segment seg) dest entry m)
      | None \<Rightarrow>
          (case get_mut_bucket m b of
             None \<Rightarrow> Inr m
           | Some entry \<Rightarrow> rename_key (segment_of_key frm) dest entry m))"

definition change_delete_object :: "bucket \<Rightarrow> bkey \<Rightarrow> string \<Rightarrow> bucket_map \<Rightarrow> bucket_map run" where
  "change_delete_object b k name m =
     (case get_mut_entry m b k of
        None \<Rightarrow> Inr m
      | Some (entry, put) \<Rightarrow>
          (case ke_objects entry of
             None \<Rightarrow> Inr m
           | Some objs \<Rightarrow>
               (case position (\<lambda>x. file_name x = name) objs of
                  Some idx \<Rightarrow>
                    and_then (swap_remove idx objs)
                      (\<lambda>objs'. Inr (put (set_objects (Some objs') entry)))
                | None \<Rightarrow> Inr m)))"

definition remove_key ::
    "segment \<Rightarrow> key_entry \<times> (key_entry \<Rightarrow> bucket_map) \<Rightarrow> bucket_map \<Rightarrow> bucket_map run" where
  "remove_key seg entry_put m =
     (case entry_put of (entry, put) \<Rightarrow>
        and_then (unwrap (ke_keys entry)) (\<lambda>keys.
          Inr (put (set_keys (Some (bt_remove seg keys)) entry))))"

definition change_delete_key :: "bucket \<Rightarrow> bkey \<Rightarrow> bucket_map \<Rightarrow> bucket_map run" where
  "change_delete_key b k m =
     (case rsplit_once (CHR ''/'') (key_name k) of
        Some (parent, to_delete) \<Rightarrow>
          (case get_mut_entry m b (Key parent) of
             None \<Rightarrow> Inr m
           | Some entry \<Rightarrow> remove_key (Segment to_delete) entry m)
      | None \<Rightarrow>
          (case get_mut_bucket m b of
             None \<Rightarrow> Inr m
           | Some entry \<Rightarrow> remove_key (segment_of_key k) entry m))"

definition change_delete_bucket :: "bucket \<Rightarrow> bucket_map \<Rightarrow> bucket_map run" where
  "change_delete_bucket b m = Inr (m\<lparr>bm_tree := bt_remove b (bm_tree m)\<rparr>)"

fun apply_change :: "change \<Rightarrow> bucket_map \<Rightarrow> bucket_map run" where
  "apply_change (NewObject b k ob) m = change_new_object b k ob m"
| "apply_change (NewKey b k) m = change_new_key b k m"
| "apply_change (NewBucket b) m = change_new_bucket b m"
| "apply_change (NameObject b k frm dest) m = change_name_object b k frm dest m"
| "apply_change (NameBucket frm dest) m = change_name_bucket frm dest m"
| "apply_change (NameKey b frm dest) m = change_name_key b frm dest m"
| "apply_change (DeleteObject b k name) m = change_delete_object b k name m"
| "apply_change (DeleteKey b k) m = change_delete_key b k m"
| "apply_change (DeleteBucket b) m = change_delete_bucket b m"

section \<open>Borrowing an entry\<close>

text \<open>
  What a mutable borrow promises: it exists exactly where reading succeeds and shows the same
  value, and after writing through it the place holds what was written.
\<close>

locale focus =
  fixes read :: "'s \<Rightarrow> 'k \<Rightarrow> 'v option"
    and borrow :: "'s \<Rightarrow> 'k \<Rightarrow> ('v \<times> ('v \<Rightarrow> 's)) option"
  assumes borrow_read: "map_option fst (borrow s k) = read s k"
    and borrow_write: "borrow s k = Some (v, put) \<Longrightarrow> read (put w) k = Some w"
begin

lemma borrow_None_iff: "borrow s k = None \<longleftrightarrow> read s k = None"
  by (metis borrow_read option.map_disc_iff)

lemma borrow_SomeD: "borrow s k = Some (v, put) \<Longrightarrow> read s k = Some v"
  by (metis borrow_read fst_conv option.simps(9))

lemma borrow_obtain:
  assumes "read s k = Some v"
  obtains put where "borrow s k = Some (v, put)"
  using assms borrow_read[of s k] by (cases "borrow s k") auto

lemma read_modify:
  "read s k = Some v \<Longrightarrow>
     read (case borrow s k of None \<Rightarrow> s | Some (x, put) \<Rightarrow> put (f x)) k = Some (f v)"
  using borrow_read[of s k] borrow_write by (cases "borrow s k") auto

end

lemma descend_mut_read: "map_option fst (descend_mut e ss) = descend e ss"
proof (induction e ss rule: descend_mut.induct)
  case (2 e s ss)
  show ?case
  proof (cases "Option.bind (ke_keys e) (\<lambda>ks. bt_get ks s)")
    case None
    then show ?thesis by (auto split: option.splits bind_splits)
  next
    case (Some c)
    then obtain ks where ks: "ke_keys e = Some ks" "bt_get ks s = Some c"
      by (auto split: bind_splits)
    with 2[OF ks] show ?thesis by (auto simp: option.map_comp comp_def case_prod_unfold)
  qed
qed simp

lemma descend_mut_ConsE:
  assumes "descend_mut e (s # ss) = Some (v, put)"
  obtains ks c pc where "ke_keys e = Some ks" "bt_get ks s = Some c"
    "descend_mut c ss = Some (v, pc)" "put = (\<lambda>x'. set_keys (Some (bt_insert s (pc x') ks)) e)"
  using assms by (auto split: option.splits)

lemma descend_append:
  "descend e (ss @ tt) = Option.bind (descend e ss) (\<lambda>x. descend x tt)"
  by (induction e ss rule: descend.induct) (auto split: option.splits)

lemma descend_mut_write:
  "descend_mut e ss = Some (v, put) \<Longrightarrow> descend (put w) (ss @ tt) = descend w tt"
proof (induction ss arbitrary: e v put)
  case (Cons s ss)
  then show ?case by (elim descend_mut_ConsE) auto
qed simp

interpretation entry_focus: focus descend descend_mut
proof unfold_locales
  show "descend (put w) k = Some w" if "descend_mut s k = Some (v, put)" for s k v put w
    using descend_mut_write[OF that, of w "[]"] by simp
qed (simp add: descend_mut_read)

lemma descend_set_objects [simp]:
  "ss \<noteq> [] \<Longrightarrow> descend (set_objects obs e) ss = descend e ss"
  by (cases ss) auto

text \<open>The segments of a key, none for the root key.\<close>

definition key_segs :: "bkey \<Rightarrow> segment list" where
  "key_segs k = (if is_root k then [] else key_iter k)"

lemma key_segs_root [simp]: "key_segs key_root = []"
  by (simp add: key_segs_def)

definition lookup :: "bucket_map \<Rightarrow> bucket \<Rightarrow> segment list \<Rightarrow> key_entry option" where
  "lookup m b ss = Option.bind (bt_get (bm_tree m) b) (\<lambda>e. descend e ss)"

lemma get_entry_lookup: "get_entry m b k = lookup m b (key_segs k)"
  by (auto simp: get_entry_def lookup_def key_segs_def)

text \<open>A borrow by bucket and segments; the code's two kinds of borrow are instances of it.\<close>

definition get_mut_at ::
    "bucket_map \<Rightarrow> bucket \<Rightarrow> segment list \<Rightarrow> (key_entry \<times> (key_entry \<Rightarrow> bucket_map)) option" where
  "get_mut_at m b ss =
     Option.bind (get_mut_bucket m b) (\<lambda>(e, put).
       map_option (\<lambda>(x, put_entry). (x, \<lambda>x'. put (put_entry x'))) (descend_mut e ss))"

lemma get_mut_bucket_at: "get_mut_bucket m b = get_mut_at m b []"
  by (auto simp: get_mut_at_def get_mut_bucket_def)

lemma get_mut_entry_at: "get_mut_entry m b k = get_mut_at m b (key_segs k)"
  by (auto simp: get_mut_entry_def key_segs_def get_mut_bucket_at[symmetric])
    (simp add: get_mut_at_def)

lemma get_mut_atE:
  assumes "get_mut_at m b ss = Some (v, put)"
  obtains e pe where "bt_get (bm_tree m) b = Some e" "descend_mut e ss = Some (v, pe)"
    "put = (\<lambda>x'. m\<lparr>bm_tree := bt_insert b (pe x') (bm_tree m)\<rparr>)"
  using assms
  by (cases "bt_get (bm_tree m) b") (auto simp: get_mut_at_def get_mut_bucket_def)

lemma get_mut_at_None: "get_mut_at m b ss = None \<longleftrightarrow> lookup m b ss = None"
proof (cases "bt_get (bm_tree m) b")
  case (Some e)
  then show ?thesis
    using entry_focus.borrow_None_iff[of e ss]
    by (simp add: get_mut_at_def get_mut_bucket_def lookup_def)
qed (simp add: get_mut_at_def get_mut_bucket_def lookup_def)

lemma get_mut_at_SomeD: "get_mut_at m b ss = Some (v, put) \<Longrightarrow> lookup m b ss = Some v"
  by (elim get_mut_atE) (auto simp: lookup_def dest: entry_focus.borrow_SomeD)

interpretation bm_focus: focus "\<lambda>m (b, k). get_entry m b k" "\<lambda>m (b, k). get_mut_entry m b k"
proof unfold_locales
  fix m :: bucket_map and bk :: "bucket \<times> bkey"
  obtain b k where bk: "bk = (b, k)" by force
  show "map_option fst (case bk of (b, k) \<Rightarrow> get_mut_entry m b k) = (case bk of (b, k) \<Rightarrow> get_entry m b k)"
    using get_mut_at_None[of m b "key_segs k"] get_mut_at_SomeD[of m b "key_segs k"]
    by (cases "get_mut_at m b (key_segs k)") (auto simp: bk get_mut_entry_at get_entry_lookup)
next
  fix m :: bucket_map and bk :: "bucket \<times> bkey" and v put w
  obtain b k where bk: "bk = (b, k)" by force
  assume "(case bk of (b, k) \<Rightarrow> get_mut_entry m b k) = Some (v, put)"
  then have "get_mut_at m b (key_segs k) = Some (v, put)" by (simp add: bk get_mut_entry_at)
  then show "(case bk of (b, k) \<Rightarrow> get_entry (put w) b k) = Some w"
    by (elim get_mut_atE) (auto simp: bk get_entry_lookup lookup_def dest: entry_focus.borrow_write)
qed

end
