(* ===== verification/Bucket_Map_Spec.thy ===== *)
theory Bucket_Map_Spec
  imports Bucket_Map
begin

text \<open>
  What the tree of \<^verbatim>\<open>BucketMap\<close> promises: a flat directory, a partial function from the
  address of a directory (its bucket and the segments below it) to its contents. \<open>abs_change\<close> says
  what each change does to a directory, and \<open>change_refines\<close> that the nested maps implement it,
  panics included. The invariants of the tree are the order of its maps and the uniqueness of the
  brokers, without which an observer of one directory would be told of another's changes.
\<close>

section \<open>Directories\<close>

record node =
  nd_objects :: "object list option"
  nd_keys :: bool
  nd_broker :: nat

type_synonym addr = "bucket \<times> segment list"

type_synonym directory = "addr \<Rightarrow> node option"

definition node_of :: "key_entry \<Rightarrow> node" where
  "node_of e = \<lparr>nd_objects = ke_objects e, nd_keys = (ke_keys e \<noteq> None), nd_broker = ke_broker e\<rparr>"

definition default_node :: "nat \<Rightarrow> node" where
  "default_node n = \<lparr>nd_objects = None, nd_keys = False, nd_broker = n\<rparr>"

definition view :: "bucket_map \<Rightarrow> directory" where
  "view m = (\<lambda>(b, ss). map_option node_of (lookup m b ss))"

definition in_subtree :: "addr \<Rightarrow> addr \<Rightarrow> bool" where
  "in_subtree a x \<longleftrightarrow> fst x = fst a \<and> prefix (snd a) (snd x)"

definition dir_drop :: "addr \<Rightarrow> directory \<Rightarrow> directory" where
  "dir_drop a d = (\<lambda>x. if in_subtree a x then None else d x)"

definition dir_move :: "addr \<Rightarrow> addr \<Rightarrow> directory \<Rightarrow> directory" where
  "dir_move a a' d =
     (\<lambda>x. if in_subtree a' x then d (fst a, snd a @ drop (length (snd a')) (snd x))
          else if in_subtree a x then None else d x)"

definition dir_objects :: "addr \<Rightarrow> (object list option \<Rightarrow> object list option) \<Rightarrow> directory \<Rightarrow> directory" where
  "dir_objects a f d =
     (case d a of None \<Rightarrow> d | Some n \<Rightarrow> d(a \<mapsto> n\<lparr>nd_objects := f (nd_objects n)\<rparr>))"

text \<open>Parent and last segment of a key.\<close>

definition key_parts :: "bkey \<Rightarrow> segment list \<times> segment" where
  "key_parts k =
     (case rsplit_once (CHR ''/'') (key_name k) of
        Some (parent, seg) \<Rightarrow> (key_segs (Key parent), Segment seg)
      | None \<Rightarrow> ([], Segment (key_name k)))"

definition key_addr :: "bucket \<Rightarrow> bkey \<Rightarrow> addr" where
  "key_addr b k = (b, key_segs k)"

text \<open>
  Renaming a directory inside a parent that has a table of subdirectories: nothing when the new
  name is taken, a new empty directory when the old name is unknown.
\<close>

definition dir_rename :: "nat \<Rightarrow> bucket \<Rightarrow> segment list \<Rightarrow> segment \<Rightarrow> segment \<Rightarrow> directory \<Rightarrow> directory" where
  "dir_rename n b ps frm dest d =
     (if d (b, ps @ [dest]) \<noteq> None then d
      else if d (b, ps @ [frm]) \<noteq> None then dir_move (b, ps @ [frm]) (b, ps @ [dest]) d
      else d((b, ps @ [dest]) \<mapsto> default_node n))"

text \<open>The operations that need the parent's table panic without it.\<close>

definition with_table :: "addr \<Rightarrow> (directory \<Rightarrow> directory) \<Rightarrow> directory \<Rightarrow> directory run" where
  "with_table a f d =
     (case d a of
        None \<Rightarrow> Inr d
      | Some n \<Rightarrow> if nd_keys n then Inr (f d) else Inl UnwrapNone)"

fun abs_change :: "nat \<Rightarrow> change \<Rightarrow> directory \<Rightarrow> directory run" where
  "abs_change n (NewObject b k ob) d =
     Inr (dir_objects (key_addr b k) (\<lambda>obs. Some (opt_default [] obs @ [ob])) d)"
| "abs_change n (NewKey b k) d =
     (case key_parts k of (ps, s) \<Rightarrow>
        with_table (b, ps) (\<lambda>d. if d (b, ps @ [s]) \<noteq> None then d else d((b, ps @ [s]) \<mapsto> default_node n)) d)"
| "abs_change n (NewBucket b) d =
     Inr (if d (b, []) \<noteq> None then d else d((b, []) \<mapsto> default_node n))"
| "abs_change n (NameObject b k frm dest) d =
     Inr (dir_objects (key_addr b k)
       (map_option (update_first (\<lambda>x. file_name x = frm) (\<lambda>x. x\<lparr>file_name := dest\<rparr>))) d)"
| "abs_change n (NameBucket frm dest) d =
     Inr (if d (frm, []) \<noteq> None then dir_move (frm, []) (dest, []) d else d)"
| "abs_change n (NameKey b frm dest) d =
     (case key_parts frm of (ps, s) \<Rightarrow> with_table (b, ps) (dir_rename n b ps s dest) d)"
| "abs_change n (DeleteObject b k name) d =
     Inr (dir_objects (key_addr b k)
       (map_option (\<lambda>obs. case position (\<lambda>x. file_name x = name) obs of
                            None \<Rightarrow> obs
                          | Some i \<Rightarrow> butlast (obs[i := last obs]))) d)"
| "abs_change n (DeleteKey b k) d =
     (case key_parts k of (ps, s) \<Rightarrow> with_table (b, ps) (dir_drop (b, ps @ [s])) d)"
| "abs_change n (DeleteBucket b) d = Inr (dir_drop (b, []) d)"

section \<open>The view after a write\<close>

lemma strict_prefix_below [simp]: "strict_prefix ss (ss @ t # tt)"
  by (simp add: strict_prefix_def)

lemma node_of_simps [simp]:
  "node_of (set_objects obs e) = (node_of e)\<lparr>nd_objects := obs\<rparr>"
  "ke_keys e = Some ks \<Longrightarrow> node_of (set_keys (Some ks') e) = node_of e"
  "nd_objects (node_of e) = ke_objects e" "nd_keys (node_of e) \<longleftrightarrow> ke_keys e \<noteq> None"
  "nd_broker (node_of e) = ke_broker e" "node_of (default_entry n) = default_node n"
  by (simp_all add: node_of_def default_node_def)

lemma descend_default [simp]: "descend (default_entry n) ss = (if ss = [] then Some (default_entry n) else None)"
  by (cases ss) auto

lemma view_apply: "view m (b, ss) = map_option node_of (lookup m b ss)"
  by (simp add: view_def)

lemma descend_mut_view:
  "descend_mut e ss = Some (v, put) \<Longrightarrow>
     map_option node_of (descend (put w) tt) =
       (if prefix ss tt then map_option node_of (descend w (drop (length ss) tt))
        else map_option node_of (descend e tt))"
proof (induction ss arbitrary: e put tt)
  case (Cons s ss)
  from Cons.prems obtain ks c pc where c: "ke_keys e = Some ks" "bt_get ks s = Some c"
    "descend_mut c ss = Some (v, pc)" "put = (\<lambda>x'. set_keys (Some (bt_insert s (pc x') ks)) e)"
    by (elim descend_mut_ConsE)
  then show ?case
    using Cons.IH[OF c(3)] by (cases tt) (auto split: option.splits)
qed simp

lemma view_write:
  assumes "get_mut_at m b ss = Some (v, put)"
  shows "view (put w) (b', tt) =
    (if b' = b \<and> prefix ss tt then map_option node_of (descend w (drop (length ss) tt))
     else view m (b', tt))"
  using assms by (elim get_mut_atE) (auto simp: view_apply lookup_def descend_mut_view)

lemma view_next_broker [simp]: "view (m\<lparr>next_broker := n\<rparr>) = view m"
  by (simp add: view_def lookup_def)

lemma next_broker_write: "get_mut_at m b ss = Some (v, put) \<Longrightarrow> next_broker (put w) = next_broker m"
  by (elim get_mut_atE) auto

lemma view_borrowed: "get_mut_at m b ss = Some (v, put) \<Longrightarrow> view m (b, ss) = Some (node_of v)"
  by (drule get_mut_at_SomeD) (simp add: view_apply)

lemma view_below: "get_mut_at m b ss = Some (v, put) \<Longrightarrow> view m (b, ss @ tt) = map_option node_of (descend v tt)"
  by (drule get_mut_at_SomeD)
    (auto simp: view_apply lookup_def descend_append split: bind_splits)

lemma view_None: "get_mut_at m b ss = None \<Longrightarrow> view m (b, ss) = None"
  by (simp add: get_mut_at_None view_apply)

lemma view_prefix_closed: "view m (b, ss) = None \<Longrightarrow> view m (b, ss @ tt) = None"
  by (auto simp: view_apply lookup_def descend_append split: bind_splits)

text \<open>Changing the objects of a borrowed entry changes one node.\<close>

lemma view_set_objects:
  assumes "get_mut_at m b ss = Some (v, put)" "f (ke_objects v) = obs"
  shows "view (put (set_objects obs v)) = dir_objects (b, ss) f (view m)"
proof (rule ext)
  fix x :: addr
  obtain b' tt where x: "x = (b', tt)" by force
  show "view (put (set_objects obs v)) x = dir_objects (b, ss) f (view m) x"
    using view_write[OF assms(1), of "set_objects obs v" b' tt] view_borrowed[OF assms(1)]
      view_below[OF assms(1), of "drop (length ss) tt"] assms(2)
    by (cases "prefix ss tt"; cases "tt = ss") (auto simp: x dir_objects_def elim!: prefixE)
qed

text \<open>Changing the table of a borrowed entry changes the subtrees below it.\<close>

lemma view_set_keys:
  assumes "get_mut_at m b ss = Some (v, put)" "ke_keys v = Some ks"
  shows "view (put (set_keys (Some ks') v)) (b', tt) =
    (if b' = b \<and> strict_prefix ss tt
     then Option.bind (bt_get ks' (tt ! length ss)) (\<lambda>e. map_option node_of (descend e (drop (Suc (length ss)) tt)))
     else view m (b', tt))"
proof (cases "strict_prefix ss tt")
  case True
  then obtain s tt' where tt: "tt = ss @ s # tt'" by (metis strict_prefixE')
  show ?thesis
    using view_write[OF assms(1), of "set_keys (Some ks') v" b' tt]
    by (auto simp: tt strict_prefix_def split: option.splits)
next
  case False
  then show ?thesis
    using view_write[OF assms(1), of "set_keys (Some ks') v" b' tt] view_borrowed[OF assms(1)] assms(2)
    by (auto simp: strict_prefix_def)
qed

lemma view_table:
  assumes "get_mut_at m b ss = Some (v, put)" "ke_keys v = Some ks" "strict_prefix ss tt"
  shows "view m (b, tt) =
    Option.bind (bt_get ks (tt ! length ss)) (\<lambda>e. map_option node_of (descend e (drop (Suc (length ss)) tt)))"
proof -
  from assms(3) obtain s tt' where tt: "tt = ss @ s # tt'"
    by (metis strict_prefixE')
  show ?thesis
    using view_below[OF assms(1), of "s # tt'"] assms(2) by (auto simp: tt split: option.splits)
qed

lemma view_child:
  assumes "get_mut_at m b ss = Some (v, put)" "ke_keys v = Some ks"
  shows "view m (b, ss @ [s]) = map_option node_of (bt_get ks s)"
  using view_table[OF assms, of "ss @ [s]"]
  by (cases "bt_get ks s") (auto simp: strict_prefix_def)

section \<open>Every change refines its specification\<close>

lemma in_subtree_simps [simp]: "in_subtree (b, ss) (b', tt) \<longleftrightarrow> b' = b \<and> prefix ss tt"
  by (simp add: in_subtree_def)

lemma view_insert_key:
  assumes "get_mut_at m b ss = Some ep"
  shows "map_sum id view (insert_key s ep m) =
    with_table (b, ss) (\<lambda>d. if d (b, ss @ [s]) \<noteq> None then d
       else d((b, ss @ [s]) \<mapsto> default_node (next_broker m))) (view m)"
proof -
  obtain v put where ep: "ep = (v, put)" by force
  have bv: "get_mut_at m b ss = Some (v, put)" using assms ep by simp
  show ?thesis
  proof (cases "ke_keys v")
    case None
    with view_borrowed[OF bv] show ?thesis by (simp add: ep insert_key_def with_table_def)
  next
    case (Some ks)
    note child = view_child[OF bv Some, of s]
    have "view (put (set_keys (Some (fst (entry_or_default s (next_broker m) ks))) v)) x =
      (if view m (b, ss @ [s]) \<noteq> None then view m
       else (view m)((b, ss @ [s]) \<mapsto> default_node (next_broker m))) x" for x
    proof -
      obtain b' tt where x: "x = (b', tt)" by force
      show ?thesis
      proof (cases "b' = b \<and> strict_prefix ss tt")
        case True
        then obtain t tt' where tt: "tt = ss @ t # tt'" by (metis strict_prefixE')
        show ?thesis
          using True child view_set_keys[OF bv Some, of "fst (entry_or_default s (next_broker m) ks)" b' tt]
            view_table[OF bv Some, of tt]
          by (auto simp: x tt entry_or_default_def split: option.splits)
      next
        case False
        then show ?thesis
          using view_set_keys[OF bv Some, of "fst (entry_or_default s (next_broker m) ks)" b' tt]
          by (auto simp: x)
      qed
    qed
    then show ?thesis
      using Some view_borrowed[OF bv]
      by (auto simp: ep insert_key_def with_table_def split: prod.splits intro!: ext)
  qed
qed

lemma view_remove_key:
  assumes "get_mut_at m b ss = Some ep"
  shows "map_sum id view (remove_key s ep m) = with_table (b, ss) (dir_drop (b, ss @ [s])) (view m)"
proof -
  obtain v put where ep: "ep = (v, put)" by force
  have bv: "get_mut_at m b ss = Some (v, put)" using assms ep by simp
  show ?thesis
  proof (cases "ke_keys v")
    case None
    with view_borrowed[OF bv] show ?thesis by (simp add: ep remove_key_def with_table_def)
  next
    case (Some ks)
    have "view (put (set_keys (Some (bt_remove s ks)) v)) x = dir_drop (b, ss @ [s]) (view m) x" for x
    proof -
      obtain b' tt where x: "x = (b', tt)" by force
      show ?thesis
      proof (cases "b' = b \<and> strict_prefix ss tt")
        case True
        then obtain t tt' where tt: "tt = ss @ t # tt'" by (metis strict_prefixE')
        show ?thesis
          using True view_set_keys[OF bv Some, of "bt_remove s ks" b' tt] view_table[OF bv Some, of tt]
          by (auto simp: x tt dir_drop_def)
      next
        case False
        then have "\<not> (b' = b \<and> prefix (ss @ [s]) tt)"
          by (auto simp: strict_prefix_def elim: prefixE)
        with False show ?thesis
          using view_set_keys[OF bv Some, of "bt_remove s ks" b' tt]
          by (auto simp: x dir_drop_def)
      qed
    qed
    then show ?thesis
      using Some view_borrowed[OF bv]
      by (auto simp: ep remove_key_def with_table_def intro!: ext)
  qed
qed

lemma view_rename_key:
  assumes "get_mut_at m b ss = Some ep"
  shows "map_sum id view (rename_key frm dest ep m) =
    with_table (b, ss) (dir_rename (next_broker m) b ss frm dest) (view m)"
proof -
  obtain v put where ep: "ep = (v, put)" by force
  have bv: "get_mut_at m b ss = Some (v, put)" using assms ep by simp
  show ?thesis
  proof (cases "ke_keys v")
    case None
    with view_borrowed[OF bv] show ?thesis by (simp add: ep rename_key_def with_table_def)
  next
    case (Some ks)
    note child = view_child[OF bv Some]
    define ks' where "ks' = bt_insert dest
      (case bt_get ks frm of Some old \<Rightarrow> old | None \<Rightarrow> default_entry (next_broker m)) (bt_remove frm ks)"
    have "view (put (set_keys (Some ks') v)) x = dir_rename (next_broker m) b ss frm dest (view m) x"
      if fresh: "bt_get ks dest = None" for x
    proof -
      obtain b' tt where x: "x = (b', tt)" by force
      show ?thesis
      proof (cases "b' = b \<and> strict_prefix ss tt")
        case True
        then obtain t tt' where tt: "tt = ss @ t # tt'" by (metis strict_prefixE')
        show ?thesis
          using True fresh child view_set_keys[OF bv Some, of ks' b' tt] view_table[OF bv Some, of tt]
            view_table[OF bv Some, of "ss @ frm # tt'"]
          by (auto simp: x tt dir_rename_def dir_move_def ks'_def split: option.splits)
      next
        case False
        then have "\<not> (b' = b \<and> prefix (ss @ [s]) tt)" for s
          by (auto simp: strict_prefix_def elim: prefixE)
        with False show ?thesis
          using view_set_keys[OF bv Some, of ks' b' tt]
          by (auto simp: x dir_rename_def dir_move_def)
      qed
    qed
    then show ?thesis
      using Some view_borrowed[OF bv] child
      by (auto simp: ep rename_key_def with_table_def ks'_def dir_rename_def[of _ _ _ _ _ "view m"]
          split: option.splits intro!: ext)
  qed
qed

lemma update_first_by_position:
  "update_first P f xs = (case position P xs of None \<Rightarrow> xs | Some i \<Rightarrow> xs[i := f (xs ! i)])"
  by (auto simp: update_first_None update_first_position split: option.splits)

lemma dir_objects_id: "(\<And>n. d a = Some n \<Longrightarrow> f (nd_objects n) = nd_objects n) \<Longrightarrow> dir_objects a f d = d"
  by (auto simp: dir_objects_def split: option.splits)

lemma refines_new_object:
  "map_sum id view (change_new_object b k ob m) = abs_change n (NewObject b k ob) (view m)"
proof (cases "get_mut_at m b (key_segs k)")
  case None
  then show ?thesis
    by (simp add: change_new_object_def get_mut_entry_at key_addr_def dir_objects_def view_None)
next
  case (Some ep)
  then show ?thesis
    by (cases ep) (simp add: change_new_object_def get_mut_entry_at key_addr_def
        view_set_objects[where f = "\<lambda>obs. Some (opt_default [] obs @ [ob])"])
qed

lemma refines_name_object:
  "map_sum id view (change_name_object b k frm dest m) = abs_change n (NameObject b k frm dest) (view m)"
proof (cases "get_mut_at m b (key_segs k)")
  case None
  then show ?thesis
    by (simp add: change_name_object_def get_mut_entry_at key_addr_def dir_objects_def view_None)
next
  case (Some ep)
  then obtain v put where v: "get_mut_at m b (key_segs k) = Some (v, put)" by (cases ep) simp
  let ?f = "map_option (update_first (\<lambda>x. file_name x = frm) (\<lambda>x. x\<lparr>file_name := dest\<rparr>))"
  show ?thesis
  proof (cases "Option.bind (ke_objects v) (position (\<lambda>x. file_name x = frm))")
    case None
    then have "?f (ke_objects v) = ke_objects v"
      by (cases "ke_objects v") (auto simp: update_first_None)
    then have "dir_objects (key_addr b k) ?f (view m) = view m"
      using view_borrowed[OF v] by (intro dir_objects_id) (auto simp: key_addr_def)
    with v None show ?thesis by (simp add: change_name_object_def get_mut_entry_at)
  next
    case (Some i)
    then obtain obs where obs: "ke_objects v = Some obs" "position (\<lambda>x. file_name x = frm) obs = Some i"
      by (auto split: bind_splits)
    show ?thesis
      using v obs view_set_objects[OF v, of ?f]
      by (simp add: change_name_object_def get_mut_entry_at key_addr_def update_first_position)
  qed
qed

lemma refines_delete_object:
  "map_sum id view (change_delete_object b k name m) = abs_change n (DeleteObject b k name) (view m)"
proof (cases "get_mut_at m b (key_segs k)")
  case None
  then show ?thesis
    by (simp add: change_delete_object_def get_mut_entry_at key_addr_def dir_objects_def view_None)
next
  case (Some ep)
  then obtain v put where v: "get_mut_at m b (key_segs k) = Some (v, put)" by (cases ep) simp
  let ?f = "map_option (\<lambda>obs. case position (\<lambda>x. file_name x = name) obs of
                            None \<Rightarrow> obs | Some i \<Rightarrow> butlast (obs[i := last obs]))"
  show ?thesis
  proof (cases "Option.bind (ke_objects v) (position (\<lambda>x. file_name x = name))")
    case None
    then have "?f (ke_objects v) = ke_objects v"
      by (cases "ke_objects v") (simp_all del: position_None)
    then have "dir_objects (key_addr b k) ?f (view m) = view m"
      using view_borrowed[OF v] by (intro dir_objects_id) (auto simp: key_addr_def)
    with v None show ?thesis
      by (auto simp: change_delete_object_def get_mut_entry_at simp del: position_None
          split: option.splits bind_splits)
  next
    case (Some i)
    then obtain obs where obs: "ke_objects v = Some obs" "position (\<lambda>x. file_name x = name) obs = Some i"
      by (auto split: bind_splits)
    show ?thesis
      using v obs view_set_objects[OF v, of ?f] position_Some[OF obs(2)]
      by (simp add: change_delete_object_def get_mut_entry_at key_addr_def swap_remove_def)
  qed
qed

lemma with_table_None: "d a = None \<Longrightarrow> with_table a f d = Inr d"
  by (simp add: with_table_def)

text \<open>The three operations on a parent's table share the way the parent is found.\<close>

lemma on_parent_at:
  "(case rsplit_once (CHR ''/'') (key_name k) of
      Some (parent, seg) \<Rightarrow>
        (case get_mut_entry m b (Key parent) of None \<Rightarrow> Inr m | Some ep \<Rightarrow> op (Segment seg) ep m)
    | None \<Rightarrow> (case get_mut_bucket m b of None \<Rightarrow> Inr m | Some ep \<Rightarrow> op (Segment (key_name k)) ep m))
   = (case get_mut_at m b (fst (key_parts k)) of
        None \<Rightarrow> Inr m | Some ep \<Rightarrow> op (snd (key_parts k)) ep m)"
  by (auto simp: key_parts_def get_mut_entry_at get_mut_bucket_at split: option.splits)

lemma change_on_parent:
  "change_new_key b k m =
    (case get_mut_at m b (fst (key_parts k)) of None \<Rightarrow> Inr m | Some ep \<Rightarrow> insert_key (snd (key_parts k)) ep m)"
  "change_name_key b k dest m =
    (case get_mut_at m b (fst (key_parts k)) of None \<Rightarrow> Inr m | Some ep \<Rightarrow> rename_key (snd (key_parts k)) dest ep m)"
  "change_delete_key b k m =
    (case get_mut_at m b (fst (key_parts k)) of None \<Rightarrow> Inr m | Some ep \<Rightarrow> remove_key (snd (key_parts k)) ep m)"
  unfolding change_new_key_def change_name_key_def change_delete_key_def segment_of_key_def
  by (rule on_parent_at[where op = insert_key], rule on_parent_at[where op = "\<lambda>s. rename_key s dest"],
      rule on_parent_at[where op = remove_key])

lemma refines_on_parent:
  assumes "\<And>ss ep s. get_mut_at m b ss = Some ep \<Longrightarrow> map_sum id view (op s ep m) = with_table (b, ss) (f ss s) (view m)"
  shows "map_sum id view (case get_mut_at m b (fst (key_parts k)) of
        None \<Rightarrow> Inr m | Some ep \<Rightarrow> op (snd (key_parts k)) ep m)
    = (case key_parts k of (ps, s) \<Rightarrow> with_table (b, ps) (f ps s) (view m))"
  by (auto simp: assms with_table_None view_None split: option.splits prod.splits)

lemma refines_new_key:
  "map_sum id view (change_new_key b k m) = abs_change (next_broker m) (NewKey b k) (view m)"
  unfolding change_on_parent abs_change.simps
  by (rule refines_on_parent[where op = insert_key]) (rule view_insert_key)

lemma refines_name_key:
  "map_sum id view (change_name_key b k dest m) = abs_change (next_broker m) (NameKey b k dest) (view m)"
  unfolding change_on_parent abs_change.simps
  by (rule refines_on_parent[where op = "\<lambda>s. rename_key s dest"]) (rule view_rename_key)

lemma refines_delete_key:
  "map_sum id view (change_delete_key b k m) = abs_change n (DeleteKey b k) (view m)"
  unfolding change_on_parent abs_change.simps
  by (rule refines_on_parent[where op = remove_key]) (rule view_remove_key)

lemma view_tree:
  "view (m\<lparr>bm_tree := t\<rparr>) (b, ss) = Option.bind (bt_get t b) (\<lambda>e. map_option node_of (descend e ss))"
  by (cases "bt_get t b") (simp_all add: view_apply lookup_def)

lemma view_bucket: "view m (b, ss) = Option.bind (bt_get (bm_tree m) b) (\<lambda>e. map_option node_of (descend e ss))"
  by (cases "bt_get (bm_tree m) b") (simp_all add: view_apply lookup_def)

lemma refines_new_bucket:
  "map_sum id view (change_new_bucket b m) = abs_change (next_broker m) (NewBucket b) (view m)"
proof -
  have "view (m\<lparr>bm_tree := fst (entry_or_default b (next_broker m) (bm_tree m))\<rparr>) (b', tt)
    = (if view m (b, []) \<noteq> None then view m else (view m)((b, []) \<mapsto> default_node (next_broker m))) (b', tt)"
    for b' tt
    by (auto simp: view_tree view_bucket entry_or_default_def split: option.splits)
  then show ?thesis
    by (auto simp: change_new_bucket_def split: prod.splits intro!: ext)
qed

lemma refines_name_bucket:
  "map_sum id view (change_name_bucket frm dest m) = abs_change n (NameBucket frm dest) (view m)"
proof -
  have "view (m\<lparr>bm_tree := bt_insert dest e (bt_remove frm (bm_tree m))\<rparr>) (b', tt)
    = dir_move (frm, []) (dest, []) (view m) (b', tt)" if "bt_get (bm_tree m) frm = Some e" for b' tt e
    using that by (auto simp: view_tree view_bucket dir_move_def)
  then show ?thesis
    by (auto simp: change_name_bucket_def view_bucket split: option.splits intro!: ext)
qed

lemma refines_delete_bucket:
  "map_sum id view (change_delete_bucket b m) = abs_change n (DeleteBucket b) (view m)"
proof -
  have "view (m\<lparr>bm_tree := bt_remove b (bm_tree m)\<rparr>) (b', tt) = dir_drop (b, []) (view m) (b', tt)" for b' tt
    by (auto simp: view_tree view_bucket dir_drop_def)
  then show ?thesis by (auto simp: change_delete_bucket_def intro!: ext)
qed

lemma change_refines_lemma:
  "map_sum id view (apply_change c m) = abs_change (next_broker m) c (view m)"
  by (cases c) (simp_all only: apply_change.simps refines_new_object refines_new_key refines_new_bucket
      refines_name_object refines_name_bucket refines_name_key refines_delete_object refines_delete_key
      refines_delete_bucket)

lemma change_view:
  "apply_change c m = Inr m' \<Longrightarrow> abs_change (next_broker m) c (view m) = Inr (view m')"
  using change_refines_lemma[of c m] by simp

lemma change_panic_iff:
  "apply_change c m = Inl p \<longleftrightarrow> abs_change (next_broker m) c (view m) = Inl p"
  using change_refines_lemma[of c m] by (cases "apply_change c m") auto

section \<open>Invariants\<close>

text \<open>The maps of the tree are ordered, at every level.\<close>

fun entry_wf :: "key_entry \<Rightarrow> bool" where
  "entry_wf (KeyEntry obs ks br) =
     (case ks of None \<Rightarrow> True | Some m \<Rightarrow> bt_inv m \<and> list_all (\<lambda>p. entry_wf (snd p)) m)"

definition tree_wf :: "bucket_map \<Rightarrow> bool" where
  "tree_wf m \<longleftrightarrow> bt_inv (bm_tree m) \<and> list_all (\<lambda>p. entry_wf (snd p)) (bm_tree m)"

text \<open>Every broker belongs to one directory and none is the broker of the root.\<close>

definition brokers_ok :: "nat \<Rightarrow> nat \<Rightarrow> directory \<Rightarrow> bool" where
  "brokers_ok root n d \<longleftrightarrow>
     root < n
     \<and> (\<forall>a x. d a = Some x \<longrightarrow> nd_broker x < n \<and> nd_broker x \<noteq> root)
     \<and> (\<forall>a a' x x'. d a = Some x \<longrightarrow> d a' = Some x' \<longrightarrow> nd_broker x = nd_broker x' \<longrightarrow> a = a')"

definition bm_inv :: "bucket_map \<Rightarrow> bool" where
  "bm_inv m \<longleftrightarrow> tree_wf m \<and> brokers_ok (bm_broker m) (next_broker m) (view m)"

lemma entry_wf_iff:
  "entry_wf e \<longleftrightarrow> (\<forall>ks. ke_keys e = Some ks \<longrightarrow> bt_inv ks \<and> list_all (\<lambda>p. entry_wf (snd p)) ks)"
  by (cases e) (auto split: option.splits)

lemma entry_wf_intros [simp]:
  "entry_wf (default_entry n)" "entry_wf (set_objects obs e) = entry_wf e"
  by (simp_all add: entry_wf_iff[of "default_entry n"] entry_wf_iff[of e] entry_wf_iff[of "set_objects obs e"])

lemma list_all_insert [simp]:
  "list_all P m \<Longrightarrow> P (k, v) \<Longrightarrow> list_all P (bt_insert k v m)"
  by (auto simp: list_all_iff set_bt_insert)

lemma list_all_remove [simp]: "list_all P m \<Longrightarrow> list_all P (bt_remove k m)"
  by (auto simp: list_all_iff set_bt_remove)

lemma list_all_get: "list_all (\<lambda>p. P (snd p)) m \<Longrightarrow> bt_get m k = Some v \<Longrightarrow> P v"
  by (fastforce simp: list_all_iff dest: bt_get_in_set)

lemma entry_wf_move [simp]:
  "list_all (\<lambda>p. entry_wf (snd p)) m \<Longrightarrow> bt_get m k = Some v
    \<Longrightarrow> list_all (\<lambda>p. entry_wf (snd p)) (bt_insert k' v (bt_remove k m))"
  by (simp add: list_all_get[where P = entry_wf])

lemma descend_mut_wf:
  "descend_mut e ss = Some (v, put) \<Longrightarrow> entry_wf e \<Longrightarrow> entry_wf v \<and> (entry_wf w \<longrightarrow> entry_wf (put w))"
proof (induction ss arbitrary: e put)
  case (Cons s ss)
  from Cons.prems(1) obtain ks c pc where c: "ke_keys e = Some ks" "bt_get ks s = Some c"
    "descend_mut c ss = Some (v, pc)" "put = (\<lambda>x'. set_keys (Some (bt_insert s (pc x') ks)) e)"
    by (elim descend_mut_ConsE)
  have wf: "bt_inv ks" "list_all (\<lambda>p. entry_wf (snd p)) ks"
    using Cons.prems(2) c(1) by (simp_all add: entry_wf_iff[of e])
  with Cons.IH[OF c(3)] list_all_get[OF wf(2) c(2)] show ?case
    by (auto simp: c(4) entry_wf_iff[of "set_keys _ e"])
qed simp

lemma get_mut_at_wf:
  assumes "get_mut_at m b ss = Some (v, put)" "tree_wf m"
  shows "entry_wf v" "entry_wf w \<Longrightarrow> tree_wf (put w)"
proof -
  obtain e pe where e: "bt_get (bm_tree m) b = Some e" "descend_mut e ss = Some (v, pe)"
    "put = (\<lambda>x'. m\<lparr>bm_tree := bt_insert b (pe x') (bm_tree m)\<rparr>)"
    using assms(1) by (elim get_mut_atE)
  have "entry_wf e" using assms(2) e(1) list_all_get by (auto simp: tree_wf_def)
  with descend_mut_wf[OF e(2)] assms(2) show "entry_wf v" "entry_wf w \<Longrightarrow> tree_wf (put w)"
    by (auto simp: e(3) tree_wf_def)
qed

lemma get_mut_at_objects_wf:
  assumes "get_mut_at m b ss = Some (v, put)" "tree_wf m"
  shows "\<forall>obs. tree_wf (put (set_objects obs v))"
  using get_mut_at_wf[OF assms] by simp

lemma tree_wf_next_broker [simp]: "tree_wf (m\<lparr>next_broker := n\<rparr>) = tree_wf m"
  by (simp add: tree_wf_def)

lemma entry_or_default_wf:
  "bt_inv m \<Longrightarrow> list_all (\<lambda>p. entry_wf (snd p)) m \<Longrightarrow> entry_or_default k n m = (m', n')
    \<Longrightarrow> bt_inv m' \<and> list_all (\<lambda>p. entry_wf (snd p)) m'"
  by (auto simp: entry_or_default_def split: option.splits)

lemma entry_wf_set_keys [simp]:
  "entry_wf (set_keys (Some ks) e) \<longleftrightarrow> bt_inv ks \<and> list_all (\<lambda>p. entry_wf (snd p)) ks"
  by (simp add: entry_wf_iff[of "set_keys (Some ks) e"])

lemma table_ops_wf:
  assumes "get_mut_at m b ss = Some ep" "tree_wf m"
  shows "insert_key s ep m = Inr m' \<Longrightarrow> tree_wf m'"
    "rename_key s t ep m = Inr m' \<Longrightarrow> tree_wf m'"
    "remove_key s ep m = Inr m' \<Longrightarrow> tree_wf m'"
proof -
  obtain v put where ep: "ep = (v, put)" by force
  note wf = get_mut_at_wf[OF assms(1)[unfolded ep] assms(2)]
  have ks: "bt_inv ks \<and> list_all (\<lambda>p. entry_wf (snd p)) ks" if "ke_keys v = Some ks" for ks
    using wf(1) that by (simp add: entry_wf_iff[of v])
  show "insert_key s ep m = Inr m' \<Longrightarrow> tree_wf m'"
  proof -
    assume "insert_key s ep m = Inr m'"
    then obtain keys keys' n where k: "ke_keys v = Some keys"
      "entry_or_default s (next_broker m) keys = (keys', n)"
      "m' = (put (set_keys (Some keys') v))\<lparr>next_broker := n\<rparr>"
      by (cases "entry_or_default s (next_broker m) (the (ke_keys v))")
        (auto simp: ep insert_key_def and_then_eq_Inr)
    show "tree_wf m'" using ks[OF k(1)] entry_or_default_wf[OF _ _ k(2)] wf(2) by (simp add: k(3))
  qed
  show "rename_key s t ep m = Inr m' \<Longrightarrow> tree_wf m'"
    using ks assms(2) by (auto simp: ep rename_key_def and_then_eq_Inr intro!: wf(2)
        split: option.splits if_splits)
  show "remove_key s ep m = Inr m' \<Longrightarrow> tree_wf m'"
    using ks by (auto simp: ep remove_key_def and_then_eq_Inr intro!: wf(2))
qed

lemma change_tree_wf:
  assumes "apply_change c m = Inr m'" "tree_wf m"
  shows "tree_wf m'"
proof (cases c)
  case (NewObject b k ob)
  with assms show ?thesis
    by (auto simp: change_new_object_def get_mut_entry_at dest: get_mut_at_objects_wf split: option.splits)
next
  case (NewKey b k)
  with assms show ?thesis
    by (auto simp: change_on_parent dest: table_ops_wf(1) split: option.splits)
next
  case (NewBucket b)
  with assms show ?thesis
    by (auto simp: change_new_bucket_def tree_wf_def dest: entry_or_default_wf split: prod.splits)
next
  case (NameObject b k frm dest)
  show ?thesis
  proof (cases "get_mut_at m b (key_segs k)")
    case None
    with NameObject assms show ?thesis by (simp add: change_name_object_def get_mut_entry_at)
  next
    case (Some ep)
    then obtain v put where v: "get_mut_at m b (key_segs k) = Some (v, put)" by (cases ep) simp
    with NameObject assms get_mut_at_objects_wf[OF v] show ?thesis
      by (auto simp: change_name_object_def get_mut_entry_at split: option.splits)
  qed
next
  case (NameBucket frm dest)
  with assms show ?thesis
    by (auto simp: change_name_bucket_def tree_wf_def split: option.splits)
next
  case (NameKey b frm dest)
  with assms show ?thesis
    by (auto simp: change_on_parent dest: table_ops_wf(2) split: option.splits)
next
  case (DeleteObject b k name)
  show ?thesis
  proof (cases "get_mut_at m b (key_segs k)")
    case None
    with DeleteObject assms show ?thesis by (simp add: change_delete_object_def get_mut_entry_at)
  next
    case (Some ep)
    then obtain v put where v: "get_mut_at m b (key_segs k) = Some (v, put)" by (cases ep) simp
    with DeleteObject assms get_mut_at_objects_wf[OF v] show ?thesis
      by (auto simp: change_delete_object_def get_mut_entry_at and_then_eq_Inr split: option.splits)
  qed
next
  case (DeleteKey b k)
  with assms show ?thesis
    by (auto simp: change_on_parent dest: table_ops_wf(3) split: option.splits)
next
  case (DeleteBucket b)
  with assms show ?thesis
    by (auto simp: change_delete_bucket_def tree_wf_def)
qed

section \<open>Brokers\<close>

text \<open>The next unused broker after a change: a change starts at most one.\<close>

definition fresh_at :: "directory \<Rightarrow> addr list \<Rightarrow> nat \<Rightarrow> nat" where
  "fresh_at d as n = (if \<forall>a \<in> set as. d a = None then Suc n else n)"

fun abs_next :: "change \<Rightarrow> directory \<Rightarrow> nat \<Rightarrow> nat" where
  "abs_next (NewKey b k) d n =
     (case key_parts k of (ps, s) \<Rightarrow> if d (b, ps) = None then n else fresh_at d [(b, ps @ [s])] n)"
| "abs_next (NewBucket b) d n = fresh_at d [(b, [])] n"
| "abs_next (NameKey b frm dest) d n =
     (case key_parts frm of (ps, s) \<Rightarrow>
        if d (b, ps) = None then n else fresh_at d [(b, ps @ [dest]), (b, ps @ [s])] n)"
| "abs_next _ d n = n"

lemma next_insert_key:
  assumes "get_mut_at m b ss = Some ep" "insert_key s ep m = Inr m'"
  shows "next_broker m' = fresh_at (view m) [(b, ss @ [s])] (next_broker m)"
    "bm_broker m' = bm_broker m" "bm_path m' = bm_path m"
proof -
  obtain v put where ep: "ep = (v, put)" by force
  obtain e pe where e: "put = (\<lambda>x'. m\<lparr>bm_tree := bt_insert b (pe x') (bm_tree m)\<rparr>)"
    using assms(1) ep by (auto elim: get_mut_atE)
  obtain ks where ks: "ke_keys v = Some ks"
    using assms(2) by (auto simp: ep insert_key_def and_then_eq_Inr)
  note child = view_child[OF assms(1)[unfolded ep] ks, of s]
  show "next_broker m' = fresh_at (view m) [(b, ss @ [s])] (next_broker m)"
    "bm_broker m' = bm_broker m" "bm_path m' = bm_path m"
    using assms(2) child
    by (auto simp: ep ks insert_key_def entry_or_default_def fresh_at_def e split: option.splits)
qed

lemma next_rename_key:
  assumes "get_mut_at m b ss = Some ep" "rename_key s t ep m = Inr m'"
  shows "next_broker m' = fresh_at (view m) [(b, ss @ [t]), (b, ss @ [s])] (next_broker m)"
    "bm_broker m' = bm_broker m" "bm_path m' = bm_path m"
proof -
  obtain v put where ep: "ep = (v, put)" by force
  obtain e pe where e: "put = (\<lambda>x'. m\<lparr>bm_tree := bt_insert b (pe x') (bm_tree m)\<rparr>)"
    using assms(1) ep by (auto elim: get_mut_atE)
  obtain ks where ks: "ke_keys v = Some ks"
    using assms(2) by (auto simp: ep rename_key_def and_then_eq_Inr)
  note child = view_child[OF assms(1)[unfolded ep] ks]
  show "next_broker m' = fresh_at (view m) [(b, ss @ [t]), (b, ss @ [s])] (next_broker m)"
    "bm_broker m' = bm_broker m" "bm_path m' = bm_path m"
    using assms(2) child
    by (auto simp: ep ks rename_key_def fresh_at_def e split: option.splits if_splits)
qed

lemma next_remove_key:
  assumes "get_mut_at m b ss = Some ep" "remove_key s ep m = Inr m'"
  shows "next_broker m' = next_broker m" "bm_broker m' = bm_broker m" "bm_path m' = bm_path m"
  using assms by (auto simp: remove_key_def and_then_eq_Inr elim!: get_mut_atE split: prod.splits)

lemma get_mut_at_frame:
  assumes "get_mut_at m b ss = Some (v, put)"
  shows "next_broker (put w) = next_broker m" "bm_broker (put w) = bm_broker m" "bm_path (put w) = bm_path m"
  using assms by (auto elim!: get_mut_atE)

lemma change_frame:
  assumes "apply_change c m = Inr m'"
  shows "next_broker m' = abs_next c (view m) (next_broker m) \<and> bm_broker m' = bm_broker m
    \<and> bm_path m' = bm_path m"
proof (cases c)
  case (NewKey b k)
  with assms show ?thesis
    by (auto simp: change_on_parent
        dest: next_insert_key view_None view_borrowed split: option.splits prod.splits)
next
  case (NewBucket b)
  with assms show ?thesis
    by (auto simp: change_new_bucket_def entry_or_default_def fresh_at_def view_bucket split: option.splits)
next
  case (NameKey b frm dest)
  with assms show ?thesis
    by (auto simp: change_on_parent
        dest: next_rename_key view_None view_borrowed split: option.splits prod.splits)
next
  case (DeleteKey b k)
  with assms show ?thesis
    by (auto simp: change_on_parent dest: next_remove_key
        split: option.splits)
qed (use assms in \<open>auto simp: change_new_object_def change_name_object_def change_name_bucket_def
    change_delete_object_def change_delete_bucket_def get_mut_entry_at and_then_eq_Inr get_mut_at_frame
    split: option.splits\<close>)

text \<open>The directory operations keep brokers apart.\<close>

lemma brokers_ok_objects: "brokers_ok r n d \<Longrightarrow> brokers_ok r n (dir_objects a f d)"
  unfolding brokers_ok_def dir_objects_def
  by (cases "d a") (auto simp del: split_paired_All split_paired_Ex split: if_splits)

lemma brokers_ok_drop: "brokers_ok r n d \<Longrightarrow> brokers_ok r n (dir_drop a d)"
  by (auto simp: brokers_ok_def dir_drop_def simp del: split_paired_All split: if_splits)

lemma brokers_ok_new:
  "brokers_ok r n d \<Longrightarrow> brokers_ok r (Suc n) (d(a \<mapsto> default_node n))"
  by (auto simp: brokers_ok_def default_node_def less_Suc_eq simp del: split_paired_All split: if_splits)

lemma brokers_ok_move: "brokers_ok r n d \<Longrightarrow> brokers_ok r n (dir_move a a' d)"
proof -
  assume ok: "brokers_ok r n d"
  define src where "src x = (if in_subtree a' x then (fst a, snd a @ drop (length (snd a')) (snd x)) else x)"
    for x :: addr
  have src: "dir_move a a' d x = Some y \<Longrightarrow> d (src x) = Some y \<and> (in_subtree a' x \<or> \<not> in_subtree a x)" for x y
    by (auto simp: dir_move_def src_def split: if_splits)
  have inj: "x = x'" if "dir_move a a' d x = Some y" "dir_move a a' d x' = Some y'" "src x = src x'" for x x' y y'
    using that(3) src[OF that(1)] src[OF that(2)]
    by (cases x; cases x') (auto simp: src_def in_subtree_def elim!: prefixE split: if_splits)
  show ?thesis
    using ok unfolding brokers_ok_def by (metis src inj)
qed

lemma brokers_ok_abs:
  assumes "brokers_ok r n d" "abs_change n c d = Inr d'"
  shows "brokers_ok r (abs_next c d n) d'"
proof (cases c)
  case (NewObject b k ob)
  with assms show ?thesis by (auto intro: brokers_ok_objects)
next
  case (NewKey b k)
  obtain ps s where k: "key_parts k = (ps, s)" by force
  show ?thesis
    using assms NewKey k brokers_ok_new[OF assms(1), of "(b, ps @ [s])"]
    by (auto simp: with_table_def fresh_at_def split: option.splits if_splits)
next
  case (NewBucket b)
  then show ?thesis
    using assms brokers_ok_new[OF assms(1), of "(b, [])"] by (auto simp: fresh_at_def split: if_splits)
next
  case (NameObject b k frm dest)
  with assms show ?thesis by (auto intro: brokers_ok_objects)
next
  case (NameBucket frm dest)
  with assms show ?thesis by (auto intro: brokers_ok_move split: if_splits)
next
  case (NameKey b frm dest)
  obtain ps s where k: "key_parts frm = (ps, s)" by force
  show ?thesis
    using assms NameKey k brokers_ok_new[OF assms(1), of "(b, ps @ [dest])"]
    by (auto simp: with_table_def dir_rename_def fresh_at_def brokers_ok_move split: option.splits if_splits)
next
  case (DeleteObject b k name)
  with assms show ?thesis by (auto intro: brokers_ok_objects)
next
  case (DeleteKey b k)
  obtain ps s where k: "key_parts k = (ps, s)" by force
  with DeleteKey assms show ?thesis
    by (auto simp: with_table_def brokers_ok_drop split: option.splits if_splits)
next
  case (DeleteBucket b)
  with assms show ?thesis by (auto intro: brokers_ok_drop)
qed

lemma change_inv_lemma: "bm_inv m \<Longrightarrow> apply_change c m = Inr m' \<Longrightarrow> bm_inv m'"
  using change_frame[of c m m'] brokers_ok_abs[OF _ change_view] change_tree_wf
  by (auto simp: bm_inv_def)

section \<open>Lemmas on single changes\<close>

lemma view_get_entry: "view m (b, key_segs k) = map_option node_of (get_entry m b k)"
  by (simp add: view_apply get_entry_lookup)

lemma get_object_view:
  "get_object m b k name =
     Option.bind (view m (b, key_segs k)) (\<lambda>n. Option.bind (nd_objects n) (find (\<lambda>ob. file_name ob = name)))"
  by (cases "get_entry m b k") (auto simp: get_object_def view_get_entry)

text \<open>The parent a change needs the table of.\<close>

fun table_parent :: "change \<Rightarrow> addr option" where
  "table_parent (NewKey b k) = Some (b, fst (key_parts k))"
| "table_parent (NameKey b k s) = Some (b, fst (key_parts k))"
| "table_parent (DeleteKey b k) = Some (b, fst (key_parts k))"
| "table_parent _ = None"

lemma with_table_Inl: "with_table a f d = Inl p \<longleftrightarrow> p = UnwrapNone \<and> (\<exists>n. d a = Some n \<and> \<not> nd_keys n)"
  by (auto simp: with_table_def split: option.splits)

lemma abs_change_panic:
  "abs_change n c d = Inl p \<longleftrightarrow>
     p = UnwrapNone \<and> (\<exists>a x. table_parent c = Some a \<and> d a = Some x \<and> \<not> nd_keys x)"
  by (cases c) (auto simp: with_table_Inl split: prod.splits)

lemma key_parts_single [simp]: "CHR ''/'' \<notin> set n \<Longrightarrow> key_parts (Key n) = ([], Segment n)"
  by (simp add: key_parts_def rsplit_once_None[THEN iffD2])

lemma find_append_fresh: "find P xs = None \<Longrightarrow> find P (xs @ [y]) = (if P y then Some y else None)"
  by (induction xs) (auto split: if_splits)

lemma find_append_old: "find P (xs @ ys) = (case find P xs of None \<Rightarrow> find P ys | Some x \<Rightarrow> Some x)"
  by (induction xs) auto

lemma change_new_bucket_ok: "\<exists>m'. apply_change (NewBucket b) m = Inr m'"
  by (simp add: change_new_bucket_def split: prod.splits)

lemma mset_delete_at:
  "position P obs = Some i \<Longrightarrow> mset (butlast (obs[i := last obs])) = mset obs - {#obs ! i#}"
  using position_Some[of P obs i] mset_swap_remove[of i obs] by (auto simp: swap_remove_def)

lemma new_bucket_then_key:
  assumes "b \<notin> set (get_buckets m)" "CHR ''/'' \<notin> set n"
  shows "and_then (apply_change (NewBucket b) m) (apply_change (NewKey b (Key n))) = Inl UnwrapNone"
proof -
  obtain m' where m': "apply_change (NewBucket b) m = Inr m'" using change_new_bucket_ok by blast
  have "bt_get (bm_tree m) b = None"
    using assms(1) by (simp add: bt_get_def get_buckets_def map_of_eq_None_iff)
  then have "view m (b, []) = None" by (simp add: view_bucket)
  then have "view m' (b, []) = Some (default_node (next_broker m))"
    using change_view[OF m'] by (auto simp: fun_eq_iff split: if_splits)
  then have "apply_change (NewKey b (Key n)) m' = Inl UnwrapNone"
    using assms(2) by (simp only: change_panic_iff abs_change_panic) (simp add: default_node_def)
  with m' show ?thesis by simp
qed

section \<open>Properties\<close>

text \<open>
  C1. Every change to the tree of nested maps does to the flat directory, the partial function from
  addresses to directory contents, what \<open>abs_change\<close> says, and panics exactly when that does.
\<close>

theorem change_refines:
  "map_sum id view (apply_change c m) = abs_change (next_broker m) c (view m)"
  by (rule change_refines_lemma)

text \<open>
  C2. Every change keeps the invariant of the tree: its maps stay ordered at every level, each
  directory keeps a broker of its own, and no directory has the broker of the root.
\<close>

theorem change_preserves_inv:
  "bm_inv m \<Longrightarrow> apply_change c m = Inr m' \<Longrightarrow> bm_inv m'"
  by (rule change_inv_lemma)

definition sample_map :: bucket_map where
  "sample_map = \<lparr>bm_path = [''srv''],
     bm_tree = [(Bucket ''a'', KeyEntry None
                   (Some [(Segment ''x'', KeyEntry None None 2), (Segment ''y'', KeyEntry None None 3)]) 1)],
     bm_broker = 0, next_broker = 4\<rparr>"

lemma sample_map_view:
  "view sample_map (b, ss) =
     (if b = Bucket ''a'' \<and> ss = [] then Some \<lparr>nd_objects = None, nd_keys = True, nd_broker = 1\<rparr>
      else if b = Bucket ''a'' \<and> ss = [Segment ''x''] then Some (default_node 2)
      else if b = Bucket ''a'' \<and> ss = [Segment ''y''] then Some (default_node 3) else None)"
  by (cases ss; cases "tl ss")
    (auto simp: view_bucket sample_map_def bt_get_def node_of_def default_node_def)

lemma sample_map_inv: "bm_inv sample_map"
proof -
  have "tree_wf sample_map"
    by (simp add: tree_wf_def sample_map_def bt_inv_def less_segment_def)
  moreover have "brokers_ok 0 4 (view sample_map)"
    unfolding brokers_ok_def
    by (auto simp: sample_map_view default_node_def split: if_splits)
  ultimately show ?thesis by (simp add: bm_inv_def) (simp add: sample_map_def)
qed

theorem change_preserves_inv_witness:
  "\<exists>m'. apply_change (NameKey (Bucket ''a'') (Key ''x'') (Segment ''z'')) sample_map = Inr m' \<and> bm_inv m'"
proof -
  have "\<exists>m'. apply_change (NameKey (Bucket ''a'') (Key ''x'') (Segment ''z'')) sample_map = Inr m'"
    by (simp add: change_on_parent get_mut_at_def get_mut_bucket_def sample_map_def bt_get_def
        rename_key_def)
  then show ?thesis using change_preserves_inv[OF sample_map_inv] by blast
qed

text \<open>
  C3. A change panics in one case only: it creates, renames or deletes a subdirectory of a directory
  that is in the tree and has no table of subdirectories.
\<close>

theorem change_panics_iff:
  "apply_change c m = Inl p \<longleftrightarrow>
     p = UnwrapNone \<and> (\<exists>a n. table_parent c = Some a \<and> view m a = Some n \<and> \<not> nd_keys n)"
  by (simp add: change_panic_iff abs_change_panic)

text \<open>
  A bucket that a change adds has no table of subdirectories, so the change that reports the first
  subdirectory of a new bucket panics.
\<close>

theorem new_bucket_first_key_panics:
  assumes "b \<notin> set (get_buckets m)" "CHR ''/'' \<notin> set n"
  shows "and_then (apply_change (NewBucket b) m) (apply_change (NewKey b (Key n))) = Inl UnwrapNone"
  using assms by (rule new_bucket_then_key)

theorem new_bucket_first_key_panics_witness:
  "and_then (apply_change (NewBucket (Bucket ''b'')) sample_map)
     (apply_change (NewKey (Bucket ''b'') (Key ''docs''))) = Inl UnwrapNone"
  by (rule new_bucket_first_key_panics) (simp_all add: sample_map_def get_buckets_def)

text \<open>
  C4. Renaming a directory whose new name is free moves its whole subtree, with the brokers its
  observers are connected to, leaves nothing under the old name and touches no other directory.
\<close>

theorem name_key_moves_subtree:
  assumes "key_parts k = (ps, s)" "view m (b, ps) = Some p" "nd_keys p"
    and "view m (b, ps @ [s]) \<noteq> None" "view m (b, ps @ [dest]) = None"
  shows "\<exists>m'. apply_change (NameKey b k dest) m = Inr m'
    \<and> (\<forall>tt. view m' (b, ps @ dest # tt) = view m (b, ps @ s # tt) \<and> view m' (b, ps @ s # tt) = None)
    \<and> (\<forall>b' tt. b' = b \<and> (prefix (ps @ [dest]) tt \<or> prefix (ps @ [s]) tt) \<or> view m' (b', tt) = view m (b', tt))"
proof -
  have abs: "abs_change (next_broker m) (NameKey b k dest) (view m)
      = Inr (dir_move (b, ps @ [s]) (b, ps @ [dest]) (view m))"
    using assms by (auto simp: with_table_def dir_rename_def)
  then obtain m' where m': "apply_change (NameKey b k dest) m = Inr m'"
    using change_panic_iff[of "NameKey b k dest" m]
    by (cases "apply_change (NameKey b k dest) m") (auto simp del: abs_change.simps)
  have v: "view m' = dir_move (b, ps @ [s]) (b, ps @ [dest]) (view m)"
    using change_view[OF m'] abs by simp
  have "s \<noteq> dest" using assms(4,5) by auto
  with m' v show ?thesis by (auto simp: dir_move_def)
qed

theorem name_key_moves_subtree_witness:
  "\<exists>m'. apply_change (NameKey (Bucket ''a'') (Key ''x'') (Segment ''z'')) sample_map = Inr m'
    \<and> view m' (Bucket ''a'', [Segment ''z'']) = Some (default_node 2)
    \<and> view m' (Bucket ''a'', [Segment ''x'']) = None"
  using name_key_moves_subtree[of "Key ''x''" "[]" "Segment ''x''" sample_map "Bucket ''a''"
      "\<lparr>nd_objects = None, nd_keys = True, nd_broker = 1\<rparr>" "Segment ''z''"]
  by (auto simp: sample_map_view)

text \<open>
  C5. Renaming a bucket onto one that exists is only reported in the log: the tree of the renamed
  bucket replaces the other's, whose directories and brokers are gone.
\<close>

theorem name_bucket_overwrites:
  assumes "bm_inv m" "view m (frm, []) \<noteq> None" "frm \<noteq> dest" "view m (dest, ss) = Some lost"
  shows "\<exists>m'. apply_change (NameBucket frm dest) m = Inr m'
    \<and> (\<forall>tt. view m' (dest, tt) = view m (frm, tt))
    \<and> (\<nexists>a n. view m' a = Some n \<and> nd_broker n = nd_broker lost)"
proof -
  have abs: "abs_change (next_broker m) (NameBucket frm dest) (view m) = Inr (dir_move (frm, []) (dest, []) (view m))"
    using assms(2) by simp
  then obtain m' where m': "apply_change (NameBucket frm dest) m = Inr m'"
    using change_panic_iff[of "NameBucket frm dest" m]
    by (cases "apply_change (NameBucket frm dest) m") (auto simp del: abs_change.simps)
  have v: "view m' = dir_move (frm, []) (dest, []) (view m)"
    using change_view[OF m'] abs by simp
  have "a = (dest, ss)" if "view m a = Some n" "nd_broker n = nd_broker lost" for a n
    using assms(1,4) that unfolding bm_inv_def brokers_ok_def by metis
  then have "\<nexists>a n. view m' a = Some n \<and> nd_broker n = nd_broker lost"
    using assms(3) by (auto simp: v dir_move_def split: if_splits)
  with m' v show ?thesis by (auto simp: dir_move_def)
qed

definition two_buckets :: bucket_map where
  "two_buckets = \<lparr>bm_path = [''srv''],
     bm_tree = [(Bucket ''a'', KeyEntry None None 1), (Bucket ''b'', KeyEntry None None 2)],
     bm_broker = 0, next_broker = 3\<rparr>"

lemma two_buckets_view:
  "view two_buckets (b, ss) =
     (if b = Bucket ''a'' \<and> ss = [] then Some (default_node 1)
      else if b = Bucket ''b'' \<and> ss = [] then Some (default_node 2) else None)"
  by (cases ss) (auto simp: view_bucket two_buckets_def bt_get_def node_of_def default_node_def)

lemma two_buckets_inv: "bm_inv two_buckets"
proof -
  have "tree_wf two_buckets"
    by (simp add: tree_wf_def two_buckets_def bt_inv_def less_bucket_def)
  moreover have "brokers_ok 0 3 (view two_buckets)"
    unfolding brokers_ok_def by (auto simp: two_buckets_view default_node_def split: if_splits)
  ultimately show ?thesis by (simp add: bm_inv_def) (simp add: two_buckets_def)
qed

theorem name_bucket_overwrites_witness:
  "\<exists>m'. apply_change (NameBucket (Bucket ''a'') (Bucket ''b'')) two_buckets = Inr m'
    \<and> view m' (Bucket ''b'', []) = Some (default_node 1)"
  using name_bucket_overwrites[OF two_buckets_inv, of "Bucket ''a''" "Bucket ''b''" "[]" "default_node 2"]
  by (auto simp: two_buckets_view)

text \<open>
  An object reported in a directory of the tree, under a name that is new there, is found by that
  name, and every object found before is still found.
\<close>

theorem new_object_found:
  assumes "get_entry m b k \<noteq> None" "get_object m b k (file_name ob) = None"
  shows "\<exists>m'. apply_change (NewObject b k ob) m = Inr m'
    \<and> get_object m' b k (file_name ob) = Some ob
    \<and> (\<forall>b' k' name. get_object m b' k' name = None \<or> get_object m' b' k' name = get_object m b' k' name)"
proof -
  obtain m' where m': "apply_change (NewObject b k ob) m = Inr m'"
    using change_panic_iff[of "NewObject b k ob" m] by (cases "apply_change (NewObject b k ob) m") auto
  obtain n where n: "view m (b, key_segs k) = Some n" using assms(1) by (auto simp: view_get_entry)
  have v: "view m' = (view m)((b, key_segs k) \<mapsto> n\<lparr>nd_objects := Some (opt_default [] (nd_objects n) @ [ob])\<rparr>)"
    using change_view[OF m'] n by (simp add: key_addr_def dir_objects_def)
  have "get_object m' b k (file_name ob) = Some ob"
    using assms(2) n by (cases "nd_objects n") (auto simp: get_object_view v find_append_fresh)
  moreover have "get_object m b' k' name = None \<or> get_object m' b' k' name = get_object m b' k' name" for b' k' name
    using n by (cases "nd_objects n") (auto simp: get_object_view v find_append_old split: option.splits)
  ultimately show ?thesis using m' by blast
qed

definition sample_object :: object where
  "sample_object = \<lparr>obj_size = 3, owner = System, file_name = ''f.txt'', checksum = ''ab'', seen_by = None,
     taken_by = None, modified = None, accessed = None, created = None\<rparr>"

theorem new_object_found_witness:
  "\<exists>m'. apply_change (NewObject (Bucket ''a'') (Key ''x'') sample_object) sample_map = Inr m'
    \<and> get_object m' (Bucket ''a'') (Key ''x'') (file_name sample_object) = Some sample_object"
  using new_object_found[of sample_map "Bucket ''a''" "Key ''x''" sample_object]
  by (auto simp: get_object_def get_entry_def is_root_def key_iter_def sample_map_def bt_get_def)

text \<open>
  Deleting an object removes exactly the first one of that name from its directory, whatever order
  the swap leaves the others in; the rest of the tree is untouched.
\<close>

theorem delete_object_removes_one:
  assumes "view m (b, key_segs k) = Some n" "nd_objects n = Some obs" "get_object m b k name = Some ob"
  shows "\<exists>m' obs'. apply_change (DeleteObject b k name) m = Inr m'
    \<and> view m' = (view m)((b, key_segs k) \<mapsto> n\<lparr>nd_objects := Some obs'\<rparr>)
    \<and> mset obs' = mset obs - {#ob#}"
proof -
  obtain m' where m': "apply_change (DeleteObject b k name) m = Inr m'"
    using change_panic_iff[of "DeleteObject b k name" m] by (cases "apply_change (DeleteObject b k name) m") auto
  obtain i where i: "position (\<lambda>x. file_name x = name) obs = Some i" "obs ! i = ob"
    using assms by (auto simp: get_object_view find_Some_position)
  then have "view m' = (view m)((b, key_segs k) \<mapsto> n\<lparr>nd_objects := Some (butlast (obs[i := last obs]))\<rparr>)"
    using change_view[OF m'] assms(1,2) by (simp add: key_addr_def dir_objects_def)
  with m' i mset_delete_at[OF i(1)] show ?thesis by blast
qed

definition full_map :: bucket_map where
  "full_map = \<lparr>bm_path = [''srv''],
     bm_tree = [(Bucket ''a'', KeyEntry (Some [sample_object, sample_object\<lparr>file_name := ''g''\<rparr>]) None 1)],
     bm_broker = 0, next_broker = 2\<rparr>"

lemma full_map_view:
  "view full_map (b, ss) =
     (if b = Bucket ''a'' \<and> ss = []
      then Some \<lparr>nd_objects = Some [sample_object, sample_object\<lparr>file_name := ''g''\<rparr>], nd_keys = False, nd_broker = 1\<rparr>
      else None)"
  by (cases ss) (auto simp: view_bucket full_map_def bt_get_def node_of_def)

theorem delete_object_removes_one_witness:
  "\<exists>m' obs'. apply_change (DeleteObject (Bucket ''a'') key_root ''f.txt'') full_map = Inr m'
    \<and> mset obs' = {#sample_object\<lparr>file_name := ''g''\<rparr>#}"
  using delete_object_removes_one[of full_map "Bucket ''a''" key_root
      "\<lparr>nd_objects = Some [sample_object, sample_object\<lparr>file_name := ''g''\<rparr>], nd_keys = False, nd_broker = 1\<rparr>"
      "[sample_object, sample_object\<lparr>file_name := ''g''\<rparr>]" "''f.txt''" sample_object]
  by (auto simp: view_bucket full_map_def bt_get_def node_of_def get_object_def get_entry_def sample_object_def)

end
