(* ===== verification/Watcher_Handlers.thy ===== *)
theory Watcher_Handlers
  imports Skipper Normalize Bucket_Map_Spec
begin

text \<open>
  What the watcher makes of a file-system event (directory/src/manager/utils/mod.rs): a change to
  the tree, or nothing, with the renames it performs and the skips it notes. Each handler is a
  function of the operating system \<open>os\<close>, the random names \<open>nano\<close>, the root, the paths of the event, the
  skipper and the file-system state; the answer \<^verbatim>\<open>Err(())\<close> is \<open>None\<close>.
\<close>

type_synonym 'fs handled = "(change option \<times> skipper \<times> 'fs) run"

definition find_bucket_unwrap :: "path \<Rightarrow> path \<Rightarrow> bucket run" where
  "find_bucket_unwrap root p = and_then (find_bucket root p) unwrap"

definition file_name_unwrap :: "path \<Rightarrow> string run" where
  "file_name_unwrap p = unwrap (Option.bind (path_file_name p) os_to_str)"

definition skip_bucket :: "bucket \<Rightarrow> skipper \<Rightarrow> skipper" where
  "skip_bucket b sk = sk\<lparr>sk_bucket := snd (bucket_to_skip b (sk_bucket sk))\<rparr>"

definition skip_key :: "bucket \<Rightarrow> bkey \<Rightarrow> skipper \<Rightarrow> skipper" where
  "skip_key b k sk = sk\<lparr>sk_key := snd (key_to_skip (b, k) (sk_key sk))\<rparr>"

definition skip_object :: "bucket \<Rightarrow> bkey \<Rightarrow> string \<Rightarrow> skipper \<Rightarrow> skipper" where
  "skip_object b k n sk = sk\<lparr>sk_object := snd (object_to_skip (b, k, n) (sk_object sk))\<rparr>"

section \<open>New directories and files\<close>

definition hd_new_bucket_or_key_watcher ::
    "('fs, 'h) os \<Rightarrow> string \<Rightarrow> path \<Rightarrow> path \<Rightarrow> skipper \<Rightarrow> 'fs \<Rightarrow> 'fs handled" where
  "hd_new_bucket_or_key_watcher os nano root p sk fs =
     (case normalize_path True nano p of
        Inr (Not str) \<Rightarrow>
          (case path_parent p of
             None \<Rightarrow> Inr (None, sk, fs)
           | Some parent \<Rightarrow>
               if parent = root then Inr (Some (NewBucket (Bucket str)), sk, fs)
               else
                 and_then (find_bucket_unwrap root p) (\<lambda>bucket.
                   case from_bucket bucket p of
                     None \<Rightarrow> Inr (None, sk, fs)
                   | Some key \<Rightarrow> Inr (Some (NewKey bucket key), sk, fs)))
      | Inr (Yes r) \<Rightarrow>
          let frm = path_join (rn_parent r) (rn_from r);
              dest = path_join (rn_parent r) (rn_to r)
          in (case os_rename os frm dest fs of
                (False, fs) \<Rightarrow> Inr (None, sk, fs)
              | (True, fs) \<Rightarrow>
                  let bucket = Bucket (rn_to r) in
                  if root = rn_parent r
                  then Inr (Some (NewBucket bucket), skip_bucket bucket sk, fs)
                  else
                    (case from_bucket bucket (path_join (rn_parent r) (rn_to r)) of
                       None \<Rightarrow> Inr (None, sk, fs)
                     | Some key \<Rightarrow> Inr (Some (NewKey bucket key), skip_key bucket key sk, fs)))
      | Inl _ \<Rightarrow> Inr (None, sk, fs)
      | _ \<Rightarrow> Inl UnreachableReached)"

definition hd_new_object_watcher ::
    "('fs, 'h) os \<Rightarrow> string \<Rightarrow> path \<Rightarrow> path \<Rightarrow> skipper \<Rightarrow> 'fs \<Rightarrow> 'fs handled" where
  "hd_new_object_watcher os nano root p sk fs =
     (if path_parent p = Some root then Inr (None, sk, fs)
      else
        (case normalize_file nano p of
           Inr (Yes r) \<Rightarrow>
             let frm = path_join (rn_parent r) (rn_from r);
                 dest = path_join (rn_parent r) (rn_to r)
             in (case os_rename os frm dest fs of
                   (False, fs) \<Rightarrow> Inr (None, sk, fs)
                 | (True, fs) \<Rightarrow>
                     and_then (find_bucket_unwrap root p) (\<lambda>bucket.
                     and_then (unwrap (from_bucket bucket (rn_parent r))) (\<lambda>key.
                     and_then (object_new os fs dest (User ''Test'')) (\<lambda>ob.
                     Inr (Some (NewObject bucket key ob), skip_object bucket key (rn_to r) sk, fs)))))
         | Inr (Not _) \<Rightarrow>
             and_then (find_bucket_unwrap root p) (\<lambda>bucket.
             and_then (unwrap (path_parent p)) (\<lambda>parent.
             and_then (unwrap (from_bucket bucket parent)) (\<lambda>key.
             and_then (object_new os fs p (User ''test'')) (\<lambda>ob.
             Inr (Some (NewObject bucket key ob), sk, fs)))))
         | Inl _ \<Rightarrow> Inr (None, sk, fs)
         | _ \<Rightarrow> Inl UnreachableReached))"

section \<open>Renamed directories and files\<close>

definition hd_rename_path ::
    "('fs, 'h) os \<Rightarrow> path \<Rightarrow> path \<Rightarrow> path \<Rightarrow> skipper \<Rightarrow> 'fs \<Rightarrow> 'fs handled" where
  "hd_rename_path os root original_from original_to sk fs =
     (case normalize_path False [] original_to of
        Inr (Not name) \<Rightarrow>
          if path_parent original_to = Some root then
            (let dest = Bucket name in
             case bucket_skipped dest (sk_bucket sk) of
               (True, t) \<Rightarrow> Inr (None, sk\<lparr>sk_bucket := t\<rparr>, fs)
             | (False, t) \<Rightarrow>
                 and_then (file_name_unwrap original_from) (\<lambda>n.
                 Inr (Some (NameBucket (Bucket n) dest), sk\<lparr>sk_bucket := t\<rparr>, fs)))
          else
            and_then (find_bucket_unwrap root original_to) (\<lambda>bucket.
            and_then (unwrap (from_bucket bucket original_to)) (\<lambda>key_to.
            case key_skipped (bucket, key_to) (sk_key sk) of
              (True, t) \<Rightarrow> Inr (None, sk\<lparr>sk_key := t\<rparr>, fs)
            | (False, t) \<Rightarrow>
                and_then (unwrap (from_bucket bucket original_from)) (\<lambda>key_from.
                Inr (Some (NameKey bucket key_from (Segment name)), sk\<lparr>sk_key := t\<rparr>, fs))))
      | Inr (Yes r) \<Rightarrow>
          (case os_rename os (path_join (rn_parent r) (rn_from r)) (path_join (rn_parent r) (rn_to r)) fs of
             (_, fs) \<Rightarrow>
               if rn_parent r = root then
                 and_then (file_name_unwrap original_from) (\<lambda>n.
                 Inr (Some (NameBucket (Bucket n) (Bucket (rn_to r))), skip_bucket (Bucket (rn_to r)) sk, fs))
               else
                 and_then (find_bucket_unwrap root original_to) (\<lambda>bucket.
                 and_then (unwrap (from_bucket bucket original_from)) (\<lambda>original_key.
                 and_then (unwrap (from_bucket bucket original_to)) (\<lambda>key_to.
                 Inr (Some (NameKey bucket original_key (Segment (rn_to r))),
                      skip_key bucket key_to sk, fs)))))
      | Inr NeedRestore \<Rightarrow>
          (case os_rename os original_to original_from fs of (_, fs) \<Rightarrow> Inr (None, sk, fs))
      | Inl _ \<Rightarrow> Inl TodoReached
      | Inr (Fail _) \<Rightarrow> Inr (None, sk, fs))"

definition hd_rename_object ::
    "('fs, 'h) os \<Rightarrow> string \<Rightarrow> path \<Rightarrow> path \<Rightarrow> path \<Rightarrow> skipper \<Rightarrow> 'fs \<Rightarrow> 'fs handled" where
  "hd_rename_object os nano root original_from original_to sk fs =
     and_then (find_bucket_unwrap root original_to) (\<lambda>bucket.
     and_then (unwrap (path_parent original_to)) (\<lambda>dir.
     and_then (unwrap (from_bucket bucket dir)) (\<lambda>key.
     case normalize_file nano original_to of
       Inr (Not name) \<Rightarrow>
         (case object_skipped (bucket, key, name) (sk_object sk) of
            (True, t) \<Rightarrow> Inr (None, sk\<lparr>sk_object := t\<rparr>, fs)
          | (False, t) \<Rightarrow>
              and_then (file_name_unwrap original_from) (\<lambda>old_name.
              Inr (Some (NameObject bucket key old_name name), sk\<lparr>sk_object := t\<rparr>, fs)))
     | Inr (Yes r) \<Rightarrow>
         (case os_rename os (path_join (rn_parent r) (rn_from r)) (path_join (rn_parent r) (rn_to r)) fs of
            (False, fs) \<Rightarrow> Inr (None, sk, fs)
          | (True, fs) \<Rightarrow>
              Inr (Some (NameObject bucket key (rn_from r) (rn_to r)),
                   skip_object bucket key (rn_to r) sk, fs))
     | Inl _ \<Rightarrow> Inr (None, sk, fs)
     | Inr _ \<Rightarrow> Inl UnreachableReached)))"

section \<open>Lemmas\<close>

lemma find_bucket_unwrap_below:
  "n \<noteq> ''..'' \<Longrightarrow> utf8_valid n \<Longrightarrow> find_bucket_unwrap root (root @ n # ks) = Inr (Bucket n)"
  by (simp add: find_bucket_unwrap_def find_bucket_below)

lemma file_name_unwrap_snoc [simp]: "n \<noteq> ''..'' \<Longrightarrow> utf8_valid n \<Longrightarrow> file_name_unwrap (p @ [n]) = Inr n"
  by (simp add: file_name_unwrap_def)

text \<open>The handshake of a rename the service performs itself: the note is there when the echo is looked up.\<close>

lemma object_echo_skipped:
  "fst (object_skipped (b, k, n) (sk_object (skip_object b k n sk)))"
  using object_tracker.skip_once[of "(b, k, n)" "sk_object sk"] by (simp add: skip_object_def)

lemma bucket_echo_skipped: "fst (bucket_skipped b (sk_bucket (skip_bucket b sk)))"
  using bucket_tracker.skip_once[of b "sk_bucket sk"] by (simp add: skip_bucket_def)

lemma key_echo_skipped: "fst (key_skipped (b, k) (sk_key (skip_key b k sk)))"
  using key_tracker.skip_once[of "(b, k)" "sk_key sk"] by (simp add: skip_key_def)

lemma key_echo_other: "k' \<noteq> k \<Longrightarrow> fst (key_skipped (b, k') (sk_key (skip_key b k sk))) = fst (key_skipped (b, k') (sk_key sk))"
  using key_tracker.skipped_other[of "(b, k')" "(b, k)" "sk_key sk"] by (simp add: skip_key_def)

text \<open>
  A path below the root whose directory names are clean, and whose bucket name occurs nowhere earlier
  in the text of the path: the paths \<^verbatim>\<open>Key::from_bucket\<close> is right on.
\<close>

definition clean_dir :: "string \<Rightarrow> bool" where
  "clean_dir n \<longleftrightarrow> n \<noteq> [] \<and> n \<noteq> ''.'' \<and> n \<noteq> ''..'' \<and> (\<forall>c \<in> set n. name_char c)"

definition clean_below :: "path \<Rightarrow> string \<Rightarrow> string list \<Rightarrow> bool" where
  "clean_below root b ks \<longleftrightarrow>
     (\<forall>k \<in> set root. clean_component k) \<and> (\<forall>k \<in> set (b # ks). clean_dir k)
     \<and> (\<forall>x y. path_str (root @ b # ks) = x @ b @ y \<longrightarrow> length (concat (map (\<lambda>c. CHR ''/'' # c) root)) < length x)"

lemma clean_dir_component: "clean_dir n \<Longrightarrow> clean_component n"
  using name_char_ascii by (fastforce simp: clean_dir_def clean_component_def intro: utf8_valid_all_ascii)

lemma clean_below_key:
  assumes "clean_below root b ks"
  shows "from_bucket (Bucket b) (root @ b # ks) = Some (key_of_segments ks)"
    "find_bucket_unwrap root (root @ b # ks) = Inr (Bucket b)"
proof -
  have c: "\<forall>k \<in> set (root @ b # ks). clean_component k"
    using assms clean_dir_component by (auto simp: clean_below_def)
  then show "from_bucket (Bucket b) (root @ b # ks) = Some (key_of_segments ks)"
    using assms by (intro from_bucket_correct) (auto simp: clean_below_def)
  show "find_bucket_unwrap root (root @ b # ks) = Inr (Bucket b)"
    using c by (intro find_bucket_unwrap_below) (auto simp: clean_component_def)
qed

lemma normalize_clean_dir: "clean_dir n \<Longrightarrow> normalize_path new nano (p @ [n]) = Inr (Not n)"
  by (rule normalize_path_clean) (auto simp: clean_dir_def)

lemma parent_snoc_simps [simp]: "path_parent (root @ b # ks @ [n]) = Some (root @ b # ks)"
  using path_simps(2)[of "root @ b # ks" n] by simp

lemma normalize_clean_below:
  "clean_dir n \<Longrightarrow> normalize_path new nano (root @ b # ks @ [n]) = Inr (Not n)"
  using normalize_clean_dir[of n new nano "root @ b # ks"] by simp

lemma below_neq_root [simp]: "root @ b # ks \<noteq> root"
  by (metis append_self_conv list.distinct(1))

lemma new_directory_lemma:
  assumes "clean_below root b ks"
  shows "hd_new_bucket_or_key_watcher os nano root (root @ b # ks) sk fs =
    Inr (Some (if ks = [] then NewBucket (Bucket b) else NewKey (Bucket b) (key_of_segments ks)), sk, fs)"
proof (cases ks rule: rev_cases)
  case Nil
  have "clean_dir b" using assms by (simp add: clean_below_def)
  then show ?thesis
    by (simp add: Nil hd_new_bucket_or_key_watcher_def normalize_clean_dir)
next
  case (snoc ks' n)
  have n: "clean_dir n" using assms by (simp add: clean_below_def snoc)
  note k = clean_below_key[OF assms]
  have "normalize_path True nano (root @ b # ks) = Inr (Not n)"
    using normalize_clean_below[OF n] by (simp add: snoc)
  moreover have "path_parent (root @ b # ks) = Some (root @ b # ks')" by (simp add: snoc)
  ultimately show ?thesis
    using k snoc by (simp add: hd_new_bucket_or_key_watcher_def)
qed

section \<open>Properties\<close>

text \<open>
  A new directory with a clean name becomes the change that names it: a bucket directly under the
  root, a key with the path below its bucket elsewhere; nothing is renamed and nothing is skipped.
\<close>

theorem new_directory_change:
  assumes "clean_below root b ks"
  shows "hd_new_bucket_or_key_watcher os nano root (root @ b # ks) sk fs =
    Inr (Some (if ks = [] then NewBucket (Bucket b) else NewKey (Bucket b) (key_of_segments ks)), sk, fs)"
  using assms by (rule new_directory_lemma)

lemma sample_clean_below: "clean_below [''srv''] ''docs'' [''a'', ''b'']"
proof -
  have far: "\<forall>x y. path_str [''srv'', ''docs'', ''a'', ''b''] = x @ ''docs'' @ y \<longrightarrow> 4 < length x"
    by (auto simp: path_str_def Cons_eq_append_conv)
  have "clean_dir ''srv''" "clean_dir ''docs''" "clean_dir ''a''" "clean_dir ''b''"
    by (simp_all add: clean_dir_def name_char_def byte_def)
  with far show ?thesis by (simp add: clean_below_def clean_dir_component eval_nat_numeral)
qed

text \<open>The operating system of the examples: a set of paths, metadata and reads that fail.\<close>

definition toy_os :: "(path set, unit) os" where
  "toy_os = \<lparr>os_metadata = (\<lambda>_ _. None), os_open = (\<lambda>_ _. Inl ''closed''), os_is_dir = (\<lambda>fs p. p \<in> fs),
     os_rename = (\<lambda>a b fs. if a \<in> fs then (True, insert b (fs - {a})) else (False, fs)),
     os_now_local = (\<lambda>_. Some \<lparr>dt_nanos = 0, dt_offset = 0\<rparr>),
     os_sha256 = \<lparr>dg_new = (), dg_update = (\<lambda>_ _. ()), dg_hex = (\<lambda>_. [])\<rparr>\<rparr>"

theorem new_directory_change_witness:
  "hd_new_bucket_or_key_watcher toy_os [] [''srv''] [''srv'', ''docs'', ''a'', ''b''] skipper_new {} =
     Inr (Some (NewKey (Bucket ''docs'') (Key ''a/b'')), skipper_new, {})"
  using new_directory_change[OF sample_clean_below, of toy_os "[]" skipper_new "{}"]
  by (simp add: key_of_segments_def)

text \<open>
  When the service renames a new directory below a bucket to a clean name, the change it reports
  names a bucket after the directory itself, not the bucket the directory is in.
\<close>

theorem renamed_new_key_wrong_bucket:
  assumes "normalize_path True nano (root @ b # ks @ [n]) = Inr (Yes r)"
    and "hd_new_bucket_or_key_watcher os nano root (root @ b # ks @ [n]) sk fs = Inr (Some ch, sk', fs')"
  shows "\<exists>k. ch = NewKey (Bucket (rn_to r)) k"
proof -
  have "rn_parent r = root @ b # ks" using normalize_path_YesD(1)[OF assms(1)] by simp
  then have "root \<noteq> rn_parent r" by (metis below_neq_root)
  with assms show ?thesis
    by (auto simp: hd_new_bucket_or_key_watcher_def Let_def split: prod.splits bool.splits option.splits if_splits)
qed

lemma toy_normalize:
  "normalize_path True nano [''srv'', ''docs'', ''n-d''] =
     Inr (Yes \<lparr>rn_parent = [''srv'', ''docs''], rn_from = ''n-d'', rn_to = ''n_d''\<rparr>)"
proof -
  have "\<forall>c \<in> set ''n-d''. byte c < 128" by (simp add: byte_def)
  then have "to_string_lossy ''n-d'' = ''n-d''"
    by (intro to_string_lossy_valid utf8_valid_all_ascii)
  then show ?thesis
    by (simp add: normalize_path_def path_file_name_def path_parent_def replace_disallowed_def
        allowed_byte_def name_char_def is_cont_def byte_def trim_start_ch_def Let_def)
qed

theorem renamed_new_key_wrong_bucket_witness:
  "\<exists>k sk' fs'. hd_new_bucket_or_key_watcher toy_os [] [''srv''] [''srv'', ''docs'', ''n-d''] skipper_new
      {[''srv'', ''docs'', ''n-d'']} = Inr (Some (NewKey (Bucket ''n_d'') k), sk', fs')"
proof -
  let ?h = "hd_new_bucket_or_key_watcher toy_os [] [''srv''] [''srv'', ''docs'', ''n-d''] skipper_new
      {[''srv'', ''docs'', ''n-d'']}"
  have "\<forall>c \<in> set ''/srv/docs/n_d''. byte c < 128" by (simp add: byte_def)
  then have "utf8_valid ''/srv/docs/n_d''" by (rule utf8_valid_all_ascii)
  then have "from_bucket (Bucket ''n_d'') [''srv'', ''docs'', ''n_d''] = Some (Key ''.'')"
    by (simp add: from_bucket_def path_to_str_def path_str_def strip_prefix_def)
  then have "\<exists>ch sk' fs'. ?h = Inr (Some ch, sk', fs')"
    by (simp add: hd_new_bucket_or_key_watcher_def toy_normalize toy_os_def path_join_def Let_def)
  then obtain ch sk' fs' where h: "?h = Inr (Some ch, sk', fs')" by blast
  from renamed_new_key_wrong_bucket[where root = "[''srv'']" and b = "''docs''" and ks = "[]" and n = "''n-d''",
      simplified, OF toy_normalize h]
  show ?thesis using h by auto
qed

text \<open>
  The rename the service itself performs on a new file with an unclean name comes back as an
  event, and that event is skipped: it changes nothing, and the note is used up.
\<close>

theorem new_object_echo_skipped:
  assumes norm: "normalize_file nano (root @ b # ks @ [n]) = Inr (Yes r)"
    and new: "hd_new_object_watcher os nano root (root @ b # ks @ [n]) sk fs = Inr (Some ch, sk1, fs1)"
    and clean: "rn_to r \<noteq> nano @ ''.unknown''" "rn_to r \<noteq> ''..''" "b \<noteq> ''..''" "utf8_valid b"
  shows "\<exists>sk2. hd_rename_object os nano' root (root @ b # ks @ [rn_from r]) (root @ b # ks @ [rn_to r]) sk1 fs2
      = Inr (None, sk2, fs2)
    \<and> (\<exists>k ob. ch = NewObject (Bucket b) k ob
         \<and> \<not> fst (object_skipped (Bucket b, k, rn_to r) (sk_object sk2)))"
proof -
  have bucket: "find_bucket_unwrap root (root @ b # ks @ [x]) = Inr (Bucket b)" for x
    using clean(3,4) find_bucket_unwrap_below[of b root "ks @ [x]"] by simp
  have parent: "rn_parent r = root @ b # ks"
    using normalize_file_YesD(1)[OF norm] by simp
  obtain k ob where k: "from_bucket (Bucket b) (root @ b # ks) = Some k"
    and ch: "ch = NewObject (Bucket b) k ob" and sk1: "sk1 = skip_object (Bucket b) k (rn_to r) sk"
    using new norm by (auto simp: hd_new_object_watcher_def bucket parent and_then_eq_Inr Let_def
        split: prod.splits bool.splits if_splits)
  have to: "rn_to r \<noteq> []" "hd (rn_to r) \<noteq> CHR ''-''" "utf8_valid (rn_to r)" "split_once fffd (rn_to r) = None"
    using normalize_file_YesD(3)[OF norm] clean(1) by auto
  have "normalize_file nano' ((root @ b # ks) @ [rn_to r]) = Inr (Not (rn_to r))"
    by (rule normalize_file_clean) (use to clean(2) in auto)
  then have n: "normalize_file nano' (root @ b # ks @ [rn_to r]) = Inr (Not (rn_to r))" by simp
  let ?t = "object_skipped (Bucket b, k, rn_to r) (sk_object sk1)"
  have hit: "fst ?t" using object_echo_skipped sk1 by simp
  have gone: "\<not> fst (object_skipped (Bucket b, k, rn_to r) (snd ?t))"
    using object_tracker.skip_once[of "(Bucket b, k, rn_to r)" "sk_object sk"] by (simp add: sk1 skip_object_def)
  have "hd_rename_object os nano' root (root @ b # ks @ [rn_from r]) (root @ b # ks @ [rn_to r]) sk1 fs2
      = Inr (None, sk1\<lparr>sk_object := snd ?t\<rparr>, fs2)"
    using hit by (cases ?t) (simp add: hd_rename_object_def bucket k n)
  with gone ch show ?thesis by auto
qed

lemma toy_normalize_file:
  "normalize_file nano [''srv'', ''docs'', ''-f''] =
     Inr (Yes \<lparr>rn_parent = [''srv'', ''docs''], rn_from = ''-f'', rn_to = ''f''\<rparr>)"
proof -
  have "\<forall>c \<in> set ''-f''. byte c < 128" by (simp add: byte_def)
  then have "to_string_lossy ''-f'' = ''-f''"
    by (intro to_string_lossy_valid utf8_valid_all_ascii)
  then show ?thesis
    by (simp add: normalize_file_def rename_new_def path_file_name_def path_parent_def trim_start_ch_def
        replace_str_def split_str.simps fffd_def Let_def)
qed

lemma toy_valid: "utf8_valid ''docs''" "utf8_valid ''f''" "utf8_valid ''/srv/docs''"
  by (rule utf8_valid_all_ascii; simp add: byte_def)+

lemma toy_new_object:
  "\<exists>ob. hd_new_object_watcher toy_os [] [''srv''] [''srv'', ''docs'', ''-f''] skipper_new
     {[''srv'', ''docs'', ''-f'']}
   = Inr (Some (NewObject (Bucket ''docs'') (Key ''.'') ob),
       skip_object (Bucket ''docs'') (Key ''.'') ''f'' skipper_new, {[''srv'', ''docs'', ''f'']})"
proof -
  have k: "from_bucket (Bucket ''docs'') [''srv'', ''docs''] = Some (Key ''.'')"
    using toy_valid(3) by (simp add: from_bucket_def path_to_str_def path_str_def strip_prefix_def)
  have b: "find_bucket_unwrap [''srv''] [''srv'', ''docs'', ''-f''] = Inr (Bucket ''docs'')"
    using find_bucket_unwrap_below[of "''docs''" "[''srv'']" "[''-f'']"] toy_valid(1) by simp
  have "os_to_str ''f'' = Some ''f''" using toy_valid(2) by simp
  then have "\<exists>ob. object_new toy_os {[''srv'', ''docs'', ''f'']} [''srv'', ''docs'', ''f''] (User ''Test'') = Inr ob"
    by (simp add: object_new_def toy_os_def get_info_metadata_def object_default_def path_file_name_def
        check_sum_def)
  then obtain ob where ob: "object_new toy_os {[''srv'', ''docs'', ''f'']} [''srv'', ''docs'', ''f''] (User ''Test'') = Inr ob"
    by blast
  have "os_rename toy_os [''srv'', ''docs'', ''-f''] [''srv'', ''docs'', ''f''] {[''srv'', ''docs'', ''-f'']}
      = (True, {[''srv'', ''docs'', ''f'']})"
    by (simp add: toy_os_def)
  then show ?thesis
    using k b ob by (simp add: hd_new_object_watcher_def toy_normalize_file path_parent_def path_join_def Let_def)
qed

theorem new_object_echo_skipped_witness:
  "\<exists>sk1 sk2. hd_rename_object toy_os [] [''srv''] [''srv'', ''docs'', ''-f''] [''srv'', ''docs'', ''f''] sk1 {}
     = Inr (None, sk2, {})"
proof -
  obtain ob where ob: "hd_new_object_watcher toy_os [] [''srv''] [''srv'', ''docs'', ''-f''] skipper_new
     {[''srv'', ''docs'', ''-f'']}
   = Inr (Some (NewObject (Bucket ''docs'') (Key ''.'') ob),
       skip_object (Bucket ''docs'') (Key ''.'') ''f'' skipper_new, {[''srv'', ''docs'', ''f'']})"
    using toy_new_object by blast
  note echo = new_object_echo_skipped[where root = "[''srv'']" and b = "''docs''" and ks = "[]" and n = "''-f''",
        simplified, OF toy_normalize_file ob, of "[]" "{}"]
  have "\<exists>sk2. hd_rename_object toy_os [] [''srv''] [''srv'', ''docs'', ''-f''] [''srv'', ''docs'', ''f'']
      (skip_object (Bucket ''docs'') (Key ''.'') ''f'' skipper_new) {} = Inr (None, sk2, {})"
    using echo toy_valid(1) by auto
  then show ?thesis by blast
qed

text \<open>
  When a renamed file gets an unclean name, the service renames it again and reports the pair of
  the unclean and the clean name, not the name the file had in the tree: with no object of the
  unclean name in the directory the tree keeps showing the old name.
\<close>

theorem unclean_rename_lost:
  assumes "normalize_file nano dest = Inr (Yes r)"
    and "hd_rename_object os nano root original dest sk fs = Inr (Some ch, sk', fs')"
    and "\<forall>b k. get_object m b k (rn_from r) = None"
  shows "\<exists>m'. apply_change ch m = Inr m' \<and> view m' = view m"
proof -
  obtain b k where ch: "ch = NameObject b k (rn_from r) (rn_to r)"
    using assms(1,2)
    by (cases "os_rename os (path_join (rn_parent r) (rn_from r)) (path_join (rn_parent r) (rn_to r)) fs";
        cases "fst (os_rename os (path_join (rn_parent r) (rn_from r)) (path_join (rn_parent r) (rn_to r)) fs)")
      (auto simp: hd_rename_object_def and_then_eq_Inr)
  obtain m' where m': "apply_change ch m = Inr m'"
    using change_panic_iff[of ch m] ch by (cases "apply_change ch m") auto
  have "dir_objects (key_addr b k)
     (map_option (update_first (\<lambda>x. file_name x = rn_from r) (\<lambda>x. x\<lparr>file_name := rn_to r\<rparr>))) (view m) = view m"
  proof (rule dir_objects_id)
    fix n
    assume n: "view m (key_addr b k) = Some n"
    show "map_option (update_first (\<lambda>x. file_name x = rn_from r) (\<lambda>x. x\<lparr>file_name := rn_to r\<rparr>)) (nd_objects n)
        = nd_objects n"
    proof (cases "nd_objects n")
      case (Some obs)
      have "find (\<lambda>ob. file_name ob = rn_from r) obs = None"
        using assms(3)[rule_format, of b k] n Some by (simp add: get_object_view key_addr_def)
      then show ?thesis by (simp add: Some find_None_iff update_first_None)
    qed simp
  qed
  then show ?thesis using change_view[OF m'] m' ch by simp
qed

theorem unclean_rename_lost_witness:
  "\<exists>ch sk' fs' m'. hd_rename_object toy_os [] [''srv''] [''srv'', ''docs'', ''old''] [''srv'', ''docs'', ''-f'']
       skipper_new {[''srv'', ''docs'', ''-f'']} = Inr (Some ch, sk', fs')
     \<and> apply_change ch full_map = Inr m' \<and> view m' = view full_map"
proof -
  have k: "from_bucket (Bucket ''docs'') [''srv'', ''docs''] = Some (Key ''.'')"
    using toy_valid(3) by (simp add: from_bucket_def path_to_str_def path_str_def strip_prefix_def)
  have b: "find_bucket_unwrap [''srv''] [''srv'', ''docs'', ''-f''] = Inr (Bucket ''docs'')"
    using find_bucket_unwrap_below[of "''docs''" "[''srv'']" "[''-f'']"] toy_valid(1) by simp
  have "\<exists>ch sk' fs'. hd_rename_object toy_os [] [''srv''] [''srv'', ''docs'', ''old''] [''srv'', ''docs'', ''-f'']
       skipper_new {[''srv'', ''docs'', ''-f'']} = Inr (Some ch, sk', fs')"
    by (simp add: hd_rename_object_def b path_parent_def k toy_normalize_file path_join_def toy_os_def)
  then obtain ch sk' fs' where h: "hd_rename_object toy_os [] [''srv''] [''srv'', ''docs'', ''old'']
      [''srv'', ''docs'', ''-f''] skipper_new {[''srv'', ''docs'', ''-f'']} = Inr (Some ch, sk', fs')" by blast
  have "\<forall>b k. get_object full_map b k ''-f'' = None"
    by (simp add: get_object_view full_map_view sample_object_def)
  then obtain m' where "apply_change ch full_map = Inr m' \<and> view m' = view full_map"
    using unclean_rename_lost[OF toy_normalize_file[of "[]"] h, of full_map] by auto
  with h show ?thesis by metis
qed

end
