(* ===== verification/Rename_Control.thy ===== *)
theory Rename_Control
  imports Keys
begin

text \<open>
  The pairing of rename events (directory/src/manager/watcher/event_watcher/rename_control.rs). A
  path that was renamed away may come back as the source of a complete rename; if it does not within
  \<open>await\<close> milliseconds the path is reported as removed. The actor keeps a table of the timers it
  started; a timer is a task that sleeps, reports, and sends the actor an \<open>Expire\<close>.

  The actor's mailbox is a list, its timers carry their deadline, and \<open>rc_step\<close> is one step of the
  actor, of one timer, of a sender, or of the clock. After its sleep a timer does its two sends
  without a point where it could be aborted (the channels are unbounded), so firing is one step.
\<close>

datatype rc_msg = From path | Decline path | Expire path

record rename_control =
  rc_await :: nat
  rc_tasks :: "path \<Rightarrow> nat option"
  rc_timers :: "nat \<Rightarrow> (path \<times> nat) option"
  rc_next :: nat
  rc_box :: "rc_msg list"
  rc_clock :: nat

definition rename_control_new :: "nat \<Rightarrow> rename_control" where
  "rename_control_new wait =
     \<lparr>rc_await = wait, rc_tasks = (\<lambda>_. None), rc_timers = (\<lambda>_. None), rc_next = 0, rc_box = [], rc_clock = 0\<rparr>"

fun rc_handle :: "rc_msg \<Rightarrow> rename_control \<Rightarrow> rename_control" where
  "rc_handle (From p) rc =
     rc\<lparr>rc_timers := (rc_timers rc)(rc_next rc \<mapsto> (p, rc_clock rc + rc_await rc)),
        rc_tasks := (rc_tasks rc)(p \<mapsto> rc_next rc), rc_next := Suc (rc_next rc)\<rparr>"
| "rc_handle (Decline p) rc =
     (case rc_tasks rc p of
        Some i \<Rightarrow> rc\<lparr>rc_tasks := (rc_tasks rc)(p := None), rc_timers := (rc_timers rc)(i := None)\<rparr>
      | None \<Rightarrow> rc)"
| "rc_handle (Expire p) rc = rc\<lparr>rc_tasks := (rc_tasks rc)(p := None)\<rparr>"

datatype rc_label = Send rc_msg | Handled rc_msg | Fired path | Tick

inductive rc_step :: "rename_control \<Rightarrow> rc_label \<Rightarrow> rename_control \<Rightarrow> bool" where
  send: "rc_step rc (Send msg) (rc\<lparr>rc_box := rc_box rc @ [msg]\<rparr>)"
| handle: "rc_box rc = msg # rest \<Longrightarrow> rc_step rc (Handled msg) (rc_handle msg (rc\<lparr>rc_box := rest\<rparr>))"
| fire: "rc_timers rc i = Some (p, d) \<Longrightarrow> d \<le> rc_clock rc \<Longrightarrow>
    rc_step rc (Fired p) (rc\<lparr>rc_timers := (rc_timers rc)(i := None), rc_box := rc_box rc @ [Expire p]\<rparr>)"
| tick: "rc_step rc Tick (rc\<lparr>rc_clock := Suc (rc_clock rc)\<rparr>)"

inductive rc_run :: "rename_control \<Rightarrow> rc_label list \<Rightarrow> rename_control \<Rightarrow> bool" where
  nil: "rc_run rc [] rc"
| cons: "rc_step rc l rc1 \<Longrightarrow> rc_run rc1 ls rc2 \<Longrightarrow> rc_run rc (l # ls) rc2"

inductive_cases rc_step_FiredE: "rc_step rc (Fired p) rc'"
inductive_cases rc_run_NilE: "rc_run rc [] rc'"
inductive_cases rc_run_ConsE: "rc_run rc (l # ls) rc'"

section \<open>Invariant\<close>

text \<open>
  Timers are older than the next number, and the table names a timer of its own path as long as that
  timer has not fired.
\<close>

definition rc_inv :: "rename_control \<Rightarrow> bool" where
  "rc_inv rc \<longleftrightarrow>
     (\<forall>i p d. rc_timers rc i = Some (p, d) \<longrightarrow> i < rc_next rc \<and> d \<le> rc_clock rc + rc_await rc)
     \<and> (\<forall>p i. rc_tasks rc p = Some i \<longrightarrow> i < rc_next rc \<and> (\<forall>q d. rc_timers rc i = Some (q, d) \<longrightarrow> q = p))"

lemma rc_inv_new: "rc_inv (rename_control_new w)"
  by (simp add: rc_inv_def rename_control_new_def)

lemma rc_inv_box [simp]: "rc_inv (rc\<lparr>rc_box := b\<rparr>) = rc_inv rc"
  by (simp add: rc_inv_def)

lemma rc_inv_handle: "rc_inv rc \<Longrightarrow> rc_inv (rc_handle msg rc)"
proof (cases msg)
  case (Decline p)
  moreover assume "rc_inv rc"
  ultimately show ?thesis
    by (cases "rc_tasks rc p") (simp_all add: rc_inv_def)
qed (auto simp: rc_inv_def less_Suc_eq)

lemma rc_inv_step: "rc_step rc l rc' \<Longrightarrow> rc_inv rc \<Longrightarrow> rc_inv rc'"
proof (induction rule: rc_step.induct)
  case (handle rc msg rest)
  then show ?case by (intro rc_inv_handle) simp
next
  case (tick rc)
  then show ?case by (fastforce simp: rc_inv_def)
qed (auto simp: rc_inv_def)

lemma rc_inv_run: "rc_run rc ls rc' \<Longrightarrow> rc_inv rc \<Longrightarrow> rc_inv rc'"
  by (induction rule: rc_run.induct) (auto intro: rc_inv_step)

text \<open>A path without a timer and without a pending \<open>From\<close>.\<close>

definition rc_quiet :: "path \<Rightarrow> rename_control \<Rightarrow> bool" where
  "rc_quiet p rc \<longleftrightarrow> (\<forall>i d. rc_timers rc i \<noteq> Some (p, d)) \<and> From p \<notin> set (rc_box rc)"

lemma rc_quiet_step:
  "rc_step rc l rc' \<Longrightarrow> rc_quiet p rc \<Longrightarrow> l \<noteq> Send (From p) \<Longrightarrow> rc_quiet p rc' \<and> l \<noteq> Fired p"
proof (induction rule: rc_step.induct)
  case (handle rc msg rest)
  then show ?case by (cases msg) (auto simp: rc_quiet_def split: option.splits)
qed (auto simp: rc_quiet_def)

lemma rc_quiet_run:
  "rc_run rc ls rc' \<Longrightarrow> rc_quiet p rc \<Longrightarrow> Send (From p) \<notin> set ls \<Longrightarrow> Fired p \<notin> set ls"
proof (induction rule: rc_run.induct)
  case (cons rc l rc1 ls rc2)
  then show ?case using rc_quiet_step[OF cons.hyps(1)] by auto
qed simp

lemma rc_run_snoc: "rc_run rc ls rc1 \<Longrightarrow> rc_step rc1 l rc2 \<Longrightarrow> rc_run rc (ls @ [l]) rc2"
  by (induction rule: rc_run.induct) (auto intro: rc_run.intros)

lemma rc_ticks: "rc_run rc (replicate n Tick) (rc\<lparr>rc_clock := rc_clock rc + n\<rparr>)"
proof (induction n arbitrary: rc)
  case (Suc n)
  show ?case
    using rc_run.cons[OF rc_step.tick Suc.IH[of "rc\<lparr>rc_clock := Suc (rc_clock rc)\<rparr>"]] by simp
qed (simp add: rc_run.nil)

section \<open>Properties\<close>


definition rc_armed :: rename_control where
  "rc_armed = (rc_handle (From [''a'']) (rename_control_new 2000))\<lparr>rc_box := [Decline [''a'']]\<rparr>"



lemma rc_send_handle:
  "rc_box rc = [] \<Longrightarrow> rc_run (rc_handle msg rc) ls rc' \<Longrightarrow> rc_run rc (Send msg # Handled msg # ls) rc'"
proof -
  assume "rc_box rc = []" and run: "rc_run (rc_handle msg rc) ls rc'"
  then have "rc_step (rc\<lparr>rc_box := rc_box rc @ [msg]\<rparr>) (Handled msg)
     (rc_handle msg (rc\<lparr>rc_box := rc_box rc @ [msg], rc_box := []\<rparr>))"
    by (intro rc_step.handle) simp
  moreover have "rc\<lparr>rc_box := rc_box rc @ [msg], rc_box := []\<rparr> = rc" using \<open>rc_box rc = []\<close> by simp
  ultimately show ?thesis
    using run by (metis rc_run.cons rc_step.send)
qed


text \<open>
  The table holds one timer per path: when a path is renamed away twice before the first rename is
  declined, the decline stops the second timer only, and the path is still reported as removed.
\<close>

theorem second_from_still_removed:
  "\<exists>n rc'. rc_run (rename_control_new w)
     ([Send (From p), Handled (From p), Send (From p), Handled (From p), Send (Decline p), Handled (Decline p)]
      @ replicate n Tick @ [Fired p]) rc'"
proof -
  let ?rc = "rc_handle (Decline p) (rc_handle (From p) (rc_handle (From p) (rename_control_new w)))"
  have t: "rc_timers ?rc 0 = Some (p, w)" by (simp add: rename_control_new_def)
  let ?rc' = "?rc\<lparr>rc_clock := rc_clock ?rc + w\<rparr>"
  have "rc_step ?rc' (Fired p) (?rc'\<lparr>rc_timers := (rc_timers ?rc')(0 := None), rc_box := rc_box ?rc' @ [Expire p]\<rparr>)"
    by (rule rc_step.fire[of ?rc' 0 p w]) (use t in simp_all)
  note fired = rc_run_snoc[OF rc_ticks this]
  have box: "rc_box (rc_handle (From p) (rc_handle (From p) (rename_control_new w))) = []"
    "rc_box (rc_handle (From p) (rename_control_new w)) = []" "rc_box (rename_control_new w) = []"
    by (simp_all add: rename_control_new_def)
  show ?thesis
    using rc_send_handle[OF box(3) rc_send_handle[OF box(2) rc_send_handle[OF box(1) fired]]] by auto
qed

end
