(* ===== verification/Local_Storage.thy ===== *)
theory Local_Storage
  imports Bucket_Map
begin

text \<open>
  The record of objects in the database (directory/src/state/local_storage/mod.rs). The MongoDB
  server and its driver are a parameter: \<open>exec\<close>, what a request answers and does to the database
  state. Each method is the request it builds and its treatment of the answer; a request is data, so
  that what the code asks for is visible. The last section states the documented meaning of the
  requests on a list of documents, as named laws a driver may satisfy.
\<close>

section \<open>Documents and requests\<close>

datatype bson =
    BNull
  | BString string
  | BInt int
  | BTime datetime
  | BOid nat
  | BArray "bson list"
  | BDoc "(string \<times> bson) list"

datatype cond = CEq bson | CIn "bson list" | CNin "bson list"

type_synonym query = "(string \<times> cond) list"

datatype update = SetFields "(string \<times> bson) list" | AddToSet "(string \<times> bson) list"

datatype request =
    FindOne query
  | FindAll query
  | InsertOne bson
  | UpdateOne query update
  | UpdateMany query update
  | DeleteOne query
  | DeleteMany query
  | CreateIndex bool "string list"

datatype reply = Found "bson list" | Done nat

datatype mongo_error = WriteError int | OtherError string

type_synonym 'db mongo = "request \<Rightarrow> 'db \<Rightarrow> (mongo_error + reply) \<times> 'db"

text \<open>\<^verbatim>\<open>LsError\<close> and the conversion of the driver's errors into it (error.rs).\<close>

datatype ls_error = DuplicateKey | MongoDb mongo_error

definition ls_error_of :: "mongo_error \<Rightarrow> ls_error" where
  "ls_error_of e =
     (case e of
        WriteError code \<Rightarrow> if code = 11000 then DuplicateKey else MongoDb e
      | _ \<Rightarrow> MongoDb e)"

definition ls_result :: "mongo_error + 'a \<Rightarrow> ls_error + 'a" where
  "ls_result r = (case r of Inl e \<Rightarrow> Inl (ls_error_of e) | Inr v \<Rightarrow> Inr v)"

definition ls_error_display :: "(mongo_error \<Rightarrow> string) \<Rightarrow> ls_error \<Rightarrow> string" where
  "ls_error_display shown e = (case e of DuplicateKey \<Rightarrow> ''Duplicate Key'' | MongoDb er \<Rightarrow> shown er)"

section \<open>Objects as documents\<close>

definition bson_of_option :: "('a \<Rightarrow> bson) \<Rightarrow> 'a option \<Rightarrow> bson" where
  "bson_of_option f x = (case x of None \<Rightarrow> BNull | Some v \<Rightarrow> f v)"

definition bson_of_owner :: "owner_file \<Rightarrow> bson" where
  "bson_of_owner ow =
     (case ow of
        System \<Rightarrow> BDoc [(''type'', BString ''System'')]
      | User u \<Rightarrow> BDoc [(''type'', BString ''User''), (''value'', BString u)])"

definition bson_of_names :: "string list \<Rightarrow> bson" where
  "bson_of_names xs = BArray (map BString xs)"

definition bson_of_object :: "object \<Rightarrow> bson" where
  "bson_of_object ob = BDoc
     [(''size'', BInt (obj_size ob)), (''owner'', bson_of_owner (owner ob)),
      (''file_name'', BString (file_name ob)), (''checksum'', BString (checksum ob)),
      (''seen_by'', bson_of_option bson_of_names (seen_by ob)),
      (''taken_by'', bson_of_option bson_of_names (taken_by ob)),
      (''modified'', bson_of_option BTime (modified ob)),
      (''accessed'', bson_of_option BTime (accessed ob)),
      (''created'', bson_of_option BTime (created ob))]"

text \<open>\<^verbatim>\<open>AsObjectSerialize\<close>.\<close>

definition as_object :: "bucket \<Rightarrow> bkey \<Rightarrow> object \<Rightarrow> bson" where
  "as_object b k ob = BDoc
     [(''bucket'', BString (bucket_name b)), (''key'', BString (key_name k)), (''object'', bson_of_object ob)]"

text \<open>\<^verbatim>\<open>AsObjectDeserialize\<close>: fields by name, unknown ones ignored, absent options are none.\<close>

fun field :: "string \<Rightarrow> bson \<Rightarrow> bson option" where
  "field f (BDoc fs) = map_of fs f"
| "field f _ = None"

fun as_string :: "bson \<Rightarrow> string option" where
  "as_string (BString s) = Some s"
| "as_string _ = None"

fun as_int :: "bson \<Rightarrow> int option" where
  "as_int (BInt i) = Some i"
| "as_int _ = None"

fun as_time :: "bson \<Rightarrow> datetime option" where
  "as_time (BTime t) = Some t"
| "as_time _ = None"

fun as_oid :: "bson \<Rightarrow> nat option" where
  "as_oid (BOid t) = Some t"
| "as_oid _ = None"

fun as_names :: "bson \<Rightarrow> string list option" where
  "as_names (BArray xs) =
     (if list_all (\<lambda>x. as_string x \<noteq> None) xs then Some (map (\<lambda>x. the (as_string x)) xs) else None)"
| "as_names _ = None"

definition required :: "(bson \<Rightarrow> 'a option) \<Rightarrow> string \<Rightarrow> bson \<Rightarrow> 'a option" where
  "required f n d = Option.bind (field n d) f"

definition optional :: "(bson \<Rightarrow> 'a option) \<Rightarrow> string \<Rightarrow> bson \<Rightarrow> 'a option option" where
  "optional f n d =
     (case field n d of
        None \<Rightarrow> Some None
      | Some v \<Rightarrow> if v = BNull then Some None else map_option Some (f v))"

definition owner_of_bson :: "bson \<Rightarrow> owner_file option" where
  "owner_of_bson d =
     (case required as_string ''type'' d of
        None \<Rightarrow> None
      | Some t \<Rightarrow>
          if t = ''System'' then Some System
          else if t = ''User'' then map_option User (required as_string ''value'' d)
          else None)"

definition object_of_bson :: "bson \<Rightarrow> object option" where
  "object_of_bson d =
     Option.bind (required as_int ''size'' d) (\<lambda>sz.
     Option.bind (required owner_of_bson ''owner'' d) (\<lambda>ow.
     Option.bind (required as_string ''file_name'' d) (\<lambda>fn.
     Option.bind (required as_string ''checksum'' d) (\<lambda>cs.
     Option.bind (optional as_names ''seen_by'' d) (\<lambda>sb.
     Option.bind (optional as_names ''taken_by'' d) (\<lambda>tb.
     Option.bind (optional as_time ''modified'' d) (\<lambda>mo.
     Option.bind (optional as_time ''accessed'' d) (\<lambda>ac.
     Option.bind (optional as_time ''created'' d) (\<lambda>cr.
     Some \<lparr>obj_size = sz, owner = ow, file_name = fn, checksum = cs, seen_by = sb, taken_by = tb,
           modified = mo, accessed = ac, created = cr\<rparr>)))))))))"

record as_object_deserialize =
  ao_id :: "nat option"
  ao_bucket :: bucket
  ao_key :: bkey
  ao_object :: object

definition as_object_of_bson :: "bson \<Rightarrow> as_object_deserialize option" where
  "as_object_of_bson d =
     Option.bind (optional as_oid ''_id'' d) (\<lambda>i.
     Option.bind (required as_string ''bucket'' d) (\<lambda>b.
     Option.bind (required as_string ''key'' d) (\<lambda>k.
     Option.bind (required object_of_bson ''object'' d) (\<lambda>ob.
     Some \<lparr>ao_id = i, ao_bucket = Bucket b, ao_key = Key k, ao_object = ob\<rparr>))))"

section \<open>The methods\<close>

record local_storage =
  ls_database :: "string option"

definition collection :: string where
  "collection = ''objects''"

text \<open>Names as values of queries.\<close>

definition bson_of_bucket :: "bucket \<Rightarrow> bson" where
  [simp]: "bson_of_bucket b = BString (bucket_name b)"

definition bson_of_key :: "bkey \<Rightarrow> bson" where
  [simp]: "bson_of_key k = BString (key_name k)"

definition bson_of_segment :: "segment \<Rightarrow> bson" where
  [simp]: "bson_of_segment s = BString (seg_str s)"

definition by_bucket :: "bucket \<Rightarrow> query" where
  "by_bucket b = [(''bucket'', CEq (bson_of_bucket b))]"

definition by_key :: "bucket \<Rightarrow> bkey \<Rightarrow> query" where
  "by_key b k = by_bucket b @ [(''key'', CEq (bson_of_key k))]"

definition by_file :: "bucket \<Rightarrow> bkey \<Rightarrow> string \<Rightarrow> query" where
  "by_file b k name = by_key b k @ [(''object.file_name'', CEq (BString name))]"

text \<open>\<^verbatim>\<open>pool.default_database().unwrap()\<close>, then the request.\<close>

definition ask_db ::
    "'db mongo \<Rightarrow> local_storage \<Rightarrow> request \<Rightarrow> 'db \<Rightarrow> ((mongo_error + reply) \<times> 'db) run" where
  "ask_db exec ls req db = and_then (unwrap (ls_database ls)) (\<lambda>_. Inr (exec req db))"

text \<open>\<^verbatim>\<open>find_one\<close> deserialises its document; a document that does not fit is an error.\<close>

definition first_found :: "mongo_error + reply \<Rightarrow> mongo_error + as_object_deserialize option" where
  "first_found r =
     (case r of
        Inl e \<Rightarrow> Inl e
      | Inr (Found (d # ds)) \<Rightarrow>
          (case as_object_of_bson d of
             None \<Rightarrow> Inl (OtherError ''deserialization'')
           | Some x \<Rightarrow> Inr (Some x))
      | Inr _ \<Rightarrow> Inr None)"

text \<open>\<^verbatim>\<open>diff!\<close>: the fields that changed, with the second object's values.\<close>

definition diff_objects :: "object \<Rightarrow> object \<Rightarrow> (string \<times> bson) list" where
  "diff_objects a b =
     (if changed (file_name a) (file_name b) then [(''object.file_name'', BString (file_name b))] else [])
     @ (if changed (seen_by a) (seen_by b)
        then [(''object.seen_by'', bson_of_option bson_of_names (seen_by b))] else [])
     @ (if changed (taken_by a) (taken_by b)
        then [(''object.taken_by'', bson_of_option bson_of_names (taken_by b))] else [])
     @ (if time_changed (modified a) (modified b)
        then [(''object.modified'', bson_of_option BTime (modified b))] else [])
     @ (if time_changed (accessed a) (accessed b)
        then [(''object.accessed'', bson_of_option BTime (accessed b))] else [])
     @ (if time_changed (created a) (created b)
        then [(''object.created'', bson_of_option BTime (created b))] else [])"

definition sync_object ::
    "'db mongo \<Rightarrow> local_storage \<Rightarrow> bucket \<Rightarrow> bkey \<Rightarrow> object \<Rightarrow> 'db \<Rightarrow> 'db run" where
  "sync_object exec ls b k ob db =
     and_then (ask_db exec ls (FindOne (by_file b k (file_name ob))) db) (\<lambda>(r, db).
       case first_found r of
         Inl _ \<Rightarrow> Inl UnwrapErr
       | Inr None \<Rightarrow> Inl UnwrapNone
       | Inr (Some tmp) \<Rightarrow>
           (case exec (UpdateOne (by_file b k (file_name ob))
                        (SetFields (diff_objects (ao_object tmp) ob))) db of
              (Inl _, db) \<Rightarrow> Inl UnwrapErr
            | (Inr _, db) \<Rightarrow> Inr db))"

definition get_object_filename ::
    "'db mongo \<Rightarrow> local_storage \<Rightarrow> bucket \<Rightarrow> bkey \<Rightarrow> string \<Rightarrow> 'db
     \<Rightarrow> ((ls_error + as_object_deserialize option) \<times> 'db) run" where
  "get_object_filename exec ls b k name db =
     and_then (ask_db exec ls (FindOne (by_file b k name)) db)
       (\<lambda>(r, db). Inr (ls_result (first_found r), db))"

definition get_object_name ::
    "'db mongo \<Rightarrow> local_storage \<Rightarrow> bucket \<Rightarrow> bkey \<Rightarrow> string \<Rightarrow> 'db
     \<Rightarrow> ((ls_error + object option) \<times> 'db) run" where
  "get_object_name exec ls b k name db =
     and_then (ask_db exec ls (FindOne (by_key b k @ [(''object.name'', CEq (BString name))])) db)
       (\<lambda>(r, db). Inr (map_sum id (map_option ao_object) (ls_result (first_found r)), db))"

definition ls_new_object ::
    "'db mongo \<Rightarrow> local_storage \<Rightarrow> bucket \<Rightarrow> bkey \<Rightarrow> object \<Rightarrow> 'db \<Rightarrow> ((ls_error + reply) \<times> 'db) run" where
  "ls_new_object exec ls b k ob db =
     and_then (ask_db exec ls (InsertOne (as_object b k ob)) db) (\<lambda>(r, db). Inr (ls_result r, db))"

definition ls_delete_object ::
    "'db mongo \<Rightarrow> local_storage \<Rightarrow> bucket \<Rightarrow> bkey \<Rightarrow> string \<Rightarrow> 'db \<Rightarrow> 'db run" where
  "ls_delete_object exec ls b k name db =
     and_then (ask_db exec ls (DeleteOne (by_file b k name)) db) (\<lambda>(_, db). Inr db)"

definition ls_seen_by ::
    "'db mongo \<Rightarrow> local_storage \<Rightarrow> bucket \<Rightarrow> bkey \<Rightarrow> object \<Rightarrow> string \<Rightarrow> 'db \<Rightarrow> 'db run" where
  "ls_seen_by exec ls b k ob uid db =
     and_then (ask_db exec ls (UpdateOne (by_file b k (file_name ob))
                                (AddToSet [(''object.seen_by'', BString uid)])) db)
       (\<lambda>(_, db). Inr db)"

definition set_name ::
    "'db mongo \<Rightarrow> local_storage \<Rightarrow> bucket \<Rightarrow> bkey \<Rightarrow> string \<Rightarrow> string \<Rightarrow> 'db
     \<Rightarrow> ((ls_error + reply) \<times> 'db) run" where
  "set_name exec ls b k name new_name db =
     and_then (ask_db exec ls (UpdateOne (by_file b k name)
                                (SetFields [(''object.name'', BString new_name)])) db)
       (\<lambda>(r, db). Inr (ls_result r, db))"

definition set_name_bucket ::
    "'db mongo \<Rightarrow> local_storage \<Rightarrow> bucket \<Rightarrow> bucket \<Rightarrow> 'db \<Rightarrow> ((ls_error + reply) \<times> 'db) run" where
  "set_name_bucket exec ls b new_name db =
     and_then (ask_db exec ls (UpdateMany (by_bucket b)
                                (SetFields [(''bucket'', bson_of_bucket new_name)])) db)
       (\<lambda>(r, db). Inr (ls_result r, db))"

definition set_name_key ::
    "'db mongo \<Rightarrow> local_storage \<Rightarrow> bucket \<Rightarrow> bkey \<Rightarrow> segment \<Rightarrow> 'db \<Rightarrow> ((ls_error + reply) \<times> 'db) run" where
  "set_name_key exec ls b k new_name db =
     and_then (ask_db exec ls (UpdateMany (by_key b k)
                                (SetFields [(''key'', bson_of_segment new_name)])) db)
       (\<lambda>(r, db). Inr (ls_result r, db))"

definition ls_delete_bucket ::
    "'db mongo \<Rightarrow> local_storage \<Rightarrow> bucket \<Rightarrow> 'db \<Rightarrow> ((ls_error + reply) \<times> 'db) run" where
  "ls_delete_bucket exec ls b db =
     and_then (ask_db exec ls (DeleteMany (by_bucket b)) db) (\<lambda>(r, db). Inr (ls_result r, db))"

definition ls_delete_key ::
    "'db mongo \<Rightarrow> local_storage \<Rightarrow> bucket \<Rightarrow> bkey \<Rightarrow> 'db \<Rightarrow> ((ls_error + reply) \<times> 'db) run" where
  "ls_delete_key exec ls b k db =
     and_then (ask_db exec ls (DeleteMany (by_key b k)) db) (\<lambda>(r, db). Inr (ls_result r, db))"

section \<open>Applying a change\<close>

text \<open>
  \<^verbatim>\<open>change_local_storage\<close> (directory/src/manager/utils/mod.rs): errors of the database are
  logged and dropped.
\<close>

definition db_of :: "('a \<times> 'db) run \<Rightarrow> 'db run" where
  "db_of r = and_then r (\<lambda>(_, db). Inr db)"

fun change_local_storage :: "'db mongo \<Rightarrow> local_storage \<Rightarrow> change \<Rightarrow> 'db \<Rightarrow> 'db run" where
  "change_local_storage exec ls (NewObject b k ob) db = db_of (ls_new_object exec ls b k ob db)"
| "change_local_storage exec ls (DeleteObject b k name) db = ls_delete_object exec ls b k name db"
| "change_local_storage exec ls (NameObject b k frm dest) db = db_of (set_name exec ls b k frm dest db)"
| "change_local_storage exec ls (DeleteBucket b) db = db_of (ls_delete_bucket exec ls b db)"
| "change_local_storage exec ls (NameBucket frm dest) db = db_of (set_name_bucket exec ls frm dest db)"
| "change_local_storage exec ls (NameKey b frm dest) db = db_of (set_name_key exec ls b frm dest db)"
| "change_local_storage exec ls (DeleteKey b k) db = db_of (ls_delete_key exec ls b k db)"
| "change_local_storage exec ls (NewKey b k) db = Inr db"
| "change_local_storage exec ls (NewBucket b) db = Inr db"

text \<open>
  \<^verbatim>\<open>sync_object_with_database\<close> (directory/src/bucket/bucket_map.rs): the documents whose
  identifier was not seen in the file system are read, then deleted by identifier.
\<close>

fun all_found :: "bson list \<Rightarrow> as_object_deserialize list option" where
  "all_found [] = Some []"
| "all_found (d # ds) =
     (case as_object_of_bson d of
        None \<Rightarrow> None
      | Some x \<Rightarrow> map_option (\<lambda>xs. x # xs) (all_found ds))"

definition sync_object_with_database ::
    "'db mongo \<Rightarrow> local_storage \<Rightarrow> nat list \<Rightarrow> 'db \<Rightarrow> 'db run" where
  "sync_object_with_database exec ls ids db =
     and_then (ask_db exec ls (FindAll [(''_id'', CNin (map BOid ids))]) db) (\<lambda>(r, db).
       case r of
         Inl _ \<Rightarrow> Inl UnwrapErr
       | Inr answer \<Rightarrow>
           (case all_found (case answer of Found ds \<Rightarrow> ds | Done _ \<Rightarrow> []) of
              None \<Rightarrow> Inl UnwrapErr
            | Some objects \<Rightarrow>
                (case exec (DeleteMany [(''_id'', CIn (map BOid (List.map_filter ao_id objects)))]) db of
                   (Inl _, db) \<Rightarrow> Inl UnwrapErr
                 | (Inr _, db) \<Rightarrow> Inr db)))"

section \<open>Connecting\<close>

record local_storage_build =
  lb_password :: "string option"
  lb_database :: "string option"
  lb_username :: "string option"
  lb_host :: "string option"
  lb_port :: "int option"

definition build_username :: "string \<Rightarrow> local_storage_build \<Rightarrow> local_storage_build" where
  "build_username u b = b\<lparr>lb_username := Some u\<rparr>"

definition build_password :: "string \<Rightarrow> local_storage_build \<Rightarrow> local_storage_build" where
  "build_password p b = b\<lparr>lb_password := Some p\<rparr>"

definition build_host :: "string \<Rightarrow> local_storage_build \<Rightarrow> local_storage_build" where
  "build_host h b = b\<lparr>lb_host := Some h\<rparr>"

definition build_port :: "int \<Rightarrow> local_storage_build \<Rightarrow> local_storage_build" where
  "build_port p b = b\<lparr>lb_port := Some p\<rparr>"

definition build_database :: "string \<Rightarrow> local_storage_build \<Rightarrow> local_storage_build" where
  "build_database d b = b\<lparr>lb_database := Some d\<rparr>"

record client_options =
  co_database :: "string option"
  co_hosts :: "(string \<times> int option) list"
  co_username :: "string option"
  co_password :: "string option"

definition build_local_storage ::
    "(client_options \<Rightarrow> mongo_error + 'db) \<Rightarrow> 'db mongo \<Rightarrow> local_storage_build \<Rightarrow> (local_storage \<times> 'db) run" where
  "build_local_storage connect exec b =
     and_then (unwrap (lb_host b)) (\<lambda>host.
       case connect \<lparr>co_database = lb_database b, co_hosts = [(host, lb_port b)],
                     co_username = lb_username b, co_password = lb_password b\<rparr> of
         Inl _ \<Rightarrow> Inl UnwrapErr
       | Inr db \<Rightarrow>
           let ls = \<lparr>ls_database = lb_database b\<rparr> in
           and_then (ask_db exec ls (CreateIndex True [''key'', ''bucket'', ''object.file_name'']) db)
             (\<lambda>(r, db). case r of Inl _ \<Rightarrow> Inl UnwrapErr | Inr _ \<Rightarrow> Inr (ls, db)))"

section \<open>What the requests mean\<close>

text \<open>
  The documented meaning of the operators the code uses: a dotted path descends into documents,
  \<^verbatim>\<open>$set\<close> replaces or adds the field at a path.
\<close>

fun get_path :: "string list \<Rightarrow> bson \<Rightarrow> bson option" where
  "get_path [] d = Some d"
| "get_path (f # fs) d = Option.bind (field f d) (get_path fs)"

fun put_field :: "string \<Rightarrow> bson \<Rightarrow> (string \<times> bson) list \<Rightarrow> (string \<times> bson) list" where
  "put_field f v [] = [(f, v)]"
| "put_field f v ((g, w) # fs) = (if g = f then (f, v) # fs else (g, w) # put_field f v fs)"

fun fields :: "bson \<Rightarrow> (string \<times> bson) list" where
  "fields (BDoc fs) = fs"
| "fields _ = []"

fun set_path :: "string list \<Rightarrow> bson \<Rightarrow> bson \<Rightarrow> bson" where
  "set_path [] v d = v"
| "set_path (f # fs) v d =
     BDoc (put_field f (set_path fs v (case field f d of None \<Rightarrow> BDoc [] | Some w \<Rightarrow> w)) (fields d))"

definition dotted :: "string \<Rightarrow> string list" where
  "dotted s = split_ch (CHR ''.'') s"

definition set_fields :: "(string \<times> bson) list \<Rightarrow> bson \<Rightarrow> bson" where
  "set_fields fs d = fold (\<lambda>(f, v) d. set_path (dotted f) v d) fs d"

fun cond_holds :: "cond \<Rightarrow> bson option \<Rightarrow> bool" where
  "cond_holds (CEq v) x = (x = Some v)"
| "cond_holds (CIn vs) x = (\<exists>v \<in> set vs. x = Some v)"
| "cond_holds (CNin vs) x = (\<forall>v \<in> set vs. x \<noteq> Some v)"

definition matches :: "query \<Rightarrow> bson \<Rightarrow> bool" where
  "matches q d = list_all (\<lambda>(f, c). cond_holds c (get_path (dotted f) d)) q"

text \<open>
  The laws a driver may satisfy, over the documents \<open>docs db\<close> of the collection: a single update
  changes at most one matching document, a multiple one that succeeds changes all matching ones,
  a multiple deletion that succeeds removes exactly the matching ones, a search that succeeds answers the
  matching ones and changes nothing, and one for a single document answers one that matches.
\<close>

definition update_one_law :: "'db mongo \<Rightarrow> ('db \<Rightarrow> bson list) \<Rightarrow> bool" where
  "update_one_law exec docs \<longleftrightarrow>
     (\<forall>q fs db. docs (snd (exec (UpdateOne q (SetFields fs)) db)) = docs db
        \<or> (\<exists>i < length (docs db). matches q (docs db ! i)
             \<and> docs (snd (exec (UpdateOne q (SetFields fs)) db)) = (docs db)[i := set_fields fs (docs db ! i)]))"

definition update_many_law :: "'db mongo \<Rightarrow> ('db \<Rightarrow> bson list) \<Rightarrow> bool" where
  "update_many_law exec docs \<longleftrightarrow>
     (\<forall>q fs db r db'. exec (UpdateMany q (SetFields fs)) db = (Inr r, db') \<longrightarrow>
        docs db' = map (\<lambda>d. if matches q d then set_fields fs d else d) (docs db))"

definition delete_many_law :: "'db mongo \<Rightarrow> ('db \<Rightarrow> bson list) \<Rightarrow> bool" where
  "delete_many_law exec docs \<longleftrightarrow>
     (\<forall>q db r db'. exec (DeleteMany q) db = (Inr r, db') \<longrightarrow> docs db' = filter (\<lambda>d. \<not> matches q d) (docs db))"

definition find_all_law :: "'db mongo \<Rightarrow> ('db \<Rightarrow> bson list) \<Rightarrow> bool" where
  "find_all_law exec docs \<longleftrightarrow>
     (\<forall>q db r db'. exec (FindAll q) db = (Inr r, db') \<longrightarrow>
        r = Found (filter (matches q) (docs db)) \<and> docs db' = docs db)"

definition find_one_law :: "'db mongo \<Rightarrow> bool" where
  "find_one_law exec \<longleftrightarrow> (\<forall>q db d ds db'. exec (FindOne q) db = (Inr (Found (d # ds)), db') \<longrightarrow> matches q d)"

text \<open>A driver on a plain list of documents, which satisfies all of them.\<close>

fun list_mongo :: "bson list mongo" where
  "list_mongo (FindOne q) ds = (Inr (Found (take 1 (filter (matches q) ds))), ds)"
| "list_mongo (FindAll q) ds = (Inr (Found (filter (matches q) ds)), ds)"
| "list_mongo (InsertOne d) ds = (Inr (Done 1), ds @ [set_path [''_id''] (BOid (length ds)) d])"
| "list_mongo (UpdateOne q (SetFields fs)) ds = (Inr (Done 1), update_first (matches q) (set_fields fs) ds)"
| "list_mongo (UpdateOne q (AddToSet fs)) ds = (Inl (OtherError ''unsupported''), ds)"
| "list_mongo (UpdateMany q (SetFields fs)) ds =
     (Inr (Done 1), map (\<lambda>d. if matches q d then set_fields fs d else d) ds)"
| "list_mongo (UpdateMany q (AddToSet fs)) ds = (Inl (OtherError ''unsupported''), ds)"
| "list_mongo (DeleteOne q) ds =
     (Inr (Done 1), (case position (matches q) ds of None \<Rightarrow> ds | Some i \<Rightarrow> take i ds @ drop (Suc i) ds))"
| "list_mongo (DeleteMany q) ds = (Inr (Done 1), filter (\<lambda>d. \<not> matches q d) ds)"
| "list_mongo (CreateIndex u fs) ds = (Inr (Done 1), ds)"

lemma list_mongo_laws:
  "update_one_law list_mongo (\<lambda>ds. ds)" "update_many_law list_mongo (\<lambda>ds. ds)"
  "delete_many_law list_mongo (\<lambda>ds. ds)" "find_all_law list_mongo (\<lambda>ds. ds)"
proof -
  show "update_one_law list_mongo (\<lambda>ds. ds)"
    unfolding update_one_law_def
  proof (intro allI)
    fix q fs and ds :: "bson list"
    show "snd (list_mongo (UpdateOne q (SetFields fs)) ds) = ds
       \<or> (\<exists>i < length ds. matches q (ds ! i)
            \<and> snd (list_mongo (UpdateOne q (SetFields fs)) ds) = ds[i := set_fields fs (ds ! i)])"
    proof (cases "position (matches q) ds")
      case None
      then show ?thesis by (simp add: update_first_None)
    next
      case (Some i)
      with position_Some[OF Some] show ?thesis by (auto simp: update_first_position)
    qed
  qed
qed (auto simp: update_many_law_def delete_many_law_def find_all_law_def)

lemma list_mongo_find_one: "find_one_law list_mongo"
  unfolding find_one_law_def
proof (intro allI impI)
  fix q :: query and ds :: "bson list" and d es ds'
  assume "list_mongo (FindOne q) ds = (Inr (Found (d # es)), ds')"
  then have "take 1 (filter (matches q) ds) = d # es" by auto
  then have "d \<in> set (take 1 (filter (matches q) ds))" by (simp only: list.set_intros)
  then show "matches q d" by (auto dest: in_set_takeD)
qed

section \<open>Lemmas\<close>

lemma dotted_simps [simp]:
  "dotted ''object.file_name'' = [''object'', ''file_name'']" "dotted ''object.name'' = [''object'', ''name'']"
  "dotted ''key'' = [''key'']" "dotted ''bucket'' = [''bucket'']" "dotted ''_id'' = [''_id'']"
  by (simp_all add: dotted_def)

lemma map_of_put_field [simp]: "map_of (put_field f v fs) g = (if g = f then Some v else map_of fs g)"
  by (induction fs) auto

lemma field_eq: "field f d = map_of (fields d) f"
  by (cases d) auto

lemma field_set_path [simp]:
  "field g (set_path (f # fs) v d) =
     (if g = f then Some (set_path fs v (case field f d of None \<Rightarrow> BDoc [] | Some w \<Rightarrow> w)) else field g d)"
  by (simp add: field_eq)

declare set_path.simps(2) [simp del]

lemma bind_get_path_Nil [simp]: "Option.bind x (get_path []) = x"
  by (cases x) auto

lemma as_names_bson: "as_names (bson_of_names xs) = Some xs"
  by (simp add: bson_of_names_def list_all_iff map_idI)

lemma optional_hit:
  "field n d = Some (bson_of_option f x) \<Longrightarrow> (\<And>v. f v \<noteq> BNull \<and> g (f v) = Some v) \<Longrightarrow> optional g n d = Some x"
  by (cases x) (auto simp: optional_def bson_of_option_def)

lemma owner_roundtrip: "owner_of_bson (bson_of_owner ow) = Some ow"
  by (cases ow) (simp_all add: owner_of_bson_def bson_of_owner_def required_def)

lemma object_roundtrip_lemma: "object_of_bson (bson_of_object ob) = Some ob"
proof -
  let ?d = "bson_of_object ob"
  have f: "field ''size'' ?d = Some (BInt (obj_size ob))" "field ''owner'' ?d = Some (bson_of_owner (owner ob))"
    "field ''file_name'' ?d = Some (BString (file_name ob))" "field ''checksum'' ?d = Some (BString (checksum ob))"
    "field ''seen_by'' ?d = Some (bson_of_option bson_of_names (seen_by ob))"
    "field ''taken_by'' ?d = Some (bson_of_option bson_of_names (taken_by ob))"
    "field ''modified'' ?d = Some (bson_of_option BTime (modified ob))"
    "field ''accessed'' ?d = Some (bson_of_option BTime (accessed ob))"
    "field ''created'' ?d = Some (bson_of_option BTime (created ob))"
    by (simp_all add: bson_of_object_def)
  have names: "bson_of_names v \<noteq> BNull \<and> as_names (bson_of_names v) = Some v" for v
    using as_names_bson by (simp add: bson_of_names_def)
  have times: "BTime v \<noteq> BNull \<and> as_time (BTime v) = Some v" for v by simp
  note opt = optional_hit[OF f(5) names] optional_hit[OF f(6) names] optional_hit[OF f(7) times]
    optional_hit[OF f(8) times] optional_hit[OF f(9) times]
  show ?thesis
    by (simp add: object_of_bson_def opt required_def f owner_roundtrip)
qed

lemma stored_object_back:
  "as_object_of_bson (set_path [''_id''] (BOid n) (as_object b k ob))
   = Some \<lparr>ao_id = Some n, ao_bucket = b, ao_key = k, ao_object = ob\<rparr>"
  by (simp add: as_object_of_bson_def as_object_def optional_def required_def object_roundtrip_lemma)

lemma matches_append [simp]: "matches (q @ q') d \<longleftrightarrow> matches q d \<and> matches q' d"
  by (simp add: matches_def)

lemma matches_simps [simp]:
  "matches (by_bucket b) d \<longleftrightarrow> field ''bucket'' d = Some (BString (bucket_name b))"
  "matches (by_key b k) d \<longleftrightarrow> matches (by_bucket b) d \<and> field ''key'' d = Some (BString (key_name k))"
  "matches (by_file b k name) d \<longleftrightarrow>
     matches (by_key b k) d \<and> get_path [''object'', ''file_name''] d = Some (BString name)"
  by (auto simp: matches_def by_bucket_def by_key_def by_file_def split: bind_splits)

text \<open>The field a stored object's name is read from.\<close>

definition stored_name :: "bson \<Rightarrow> bson option" where
  "stored_name d = get_path [''object'', ''file_name''] d"

lemma set_object_name_keeps:
  assumes "stored_name d = Some v"
  shows "stored_name (set_fields [(''object.name'', w)] d) = stored_name d"
  using assms by (cases "field ''object'' d") (auto simp: set_fields_def stored_name_def)

lemma update_one_stored_names:
  assumes "update_one_law exec docs" "\<And>d. matches q d \<Longrightarrow> stored_name (set_fields fs d) = stored_name d"
  shows "map stored_name (docs (snd (exec (UpdateOne q (SetFields fs)) db))) = map stored_name (docs db)"
proof -
  from assms(1) consider "docs (snd (exec (UpdateOne q (SetFields fs)) db)) = docs db"
    | i where "i < length (docs db)" "matches q (docs db ! i)"
      "docs (snd (exec (UpdateOne q (SetFields fs)) db)) = (docs db)[i := set_fields fs (docs db ! i)]"
    unfolding update_one_law_def by blast
  then show ?thesis
  proof cases
    case 2
    then show ?thesis by (simp add: map_update assms(2)) (metis list_update_id map_update)
  qed simp
qed

lemma all_found_ids:
  "all_found ds = Some xs \<Longrightarrow> \<forall>d \<in> set ds. \<exists>i. field ''_id'' d = Some (BOid i)
    \<Longrightarrow> {i. \<exists>d \<in> set ds. field ''_id'' d = Some (BOid i)} = set (List.map_filter ao_id xs)"
proof (induction ds arbitrary: xs)
  case Nil
  then show ?case by (simp add: List.map_filter_def)
next
  case (Cons d ds)
  from Cons.prems(1) obtain x ys where x: "as_object_of_bson d = Some x" "all_found ds = Some ys" "xs = x # ys"
    by (auto split: option.splits)
  from Cons.prems(2) obtain i where i: "field ''_id'' d = Some (BOid i)" by auto
  then have "ao_id x = Some i"
    using x(1) by (auto simp: as_object_of_bson_def optional_def split: bind_splits)
  then show ?case
    using Cons.IH[OF x(2)] Cons.prems(2) i x(3) by (auto simp: List.map_filter_simps)
qed

section \<open>Properties\<close>


text \<open>
  Whatever the driver answers, the request that a renamed object causes leaves every stored file
  name as it was: it sets another field than the one the searches and the deserialisation read.
\<close>

theorem name_object_not_stored:
  assumes "update_one_law exec docs"
    and "change_local_storage exec ls (NameObject b k frm dest) db = Inr db'"
  shows "map stored_name (docs db') = map stored_name (docs db)"
proof -
  have db': "db' = snd (exec (UpdateOne (by_file b k frm) (SetFields [(''object.name'', BString dest)])) db)"
    using assms(2) by (auto simp: db_of_def set_name_def ask_db_def and_then_eq_Inr split: prod.splits)
  have keeps: "stored_name (set_fields [(''object.name'', BString dest)] d) = stored_name d"
    if "matches (by_file b k frm) d" for d
    using that by (intro set_object_name_keeps[where v = "BString frm"]) (simp add: stored_name_def)
  show ?thesis
    unfolding db' by (rule update_one_stored_names[OF assms(1) keeps])
qed

text \<open>The object found under a file name has that name.\<close>

lemma get_object_filename_named:
  assumes "find_one_law exec" "get_object_filename exec ls b k name db = Inr (Inr (Some x), db')"
  shows "file_name (ao_object x) = name"
proof -
  obtain d ds where d: "exec (FindOne (by_file b k name)) db = (Inr (Found (d # ds)), db')" "as_object_of_bson d = Some x"
    using assms(2) by (auto simp: get_object_filename_def ask_db_def ls_result_def first_found_def and_then_eq_Inr
        split: sum.splits reply.splits list.splits option.splits prod.splits)
  have "matches (by_file b k name) d" using assms(1) d(1) unfolding find_one_law_def by blast
  then have "stored_name d = Some (BString name)"
    by (simp add: matches_def by_file_def by_key_def by_bucket_def stored_name_def)
  then show ?thesis
    using d(2) by (auto simp: as_object_of_bson_def object_of_bson_def required_def stored_name_def split: bind_splits)
qed

definition the_doc :: bson where
  "the_doc = set_path [''_id''] (BOid 0) (as_object (Bucket ''a'') (Key ''x/y'')
     \<lparr>obj_size = 3, owner = System, file_name = ''f'', checksum = [], seen_by = None, taken_by = None,
      modified = None, accessed = None, created = None\<rparr>)"

definition one_doc :: "bson list" where
  "one_doc = [the_doc]"

lemma the_doc_fields:
  "field ''_id'' the_doc = Some (BOid 0)" "field ''bucket'' the_doc = Some (BString ''a'')"
  "field ''key'' the_doc = Some (BString ''x/y'')" "stored_name the_doc = Some (BString ''f'')"
  "as_object_of_bson the_doc \<noteq> None"
  unfolding the_doc_def stored_object_back by (simp_all add: as_object_def stored_name_def bson_of_object_def)

lemma one_doc_names: "map stored_name one_doc = [Some (BString ''f'')]"
  by (simp add: one_doc_def the_doc_fields)

theorem name_object_not_stored_witness:
  "\<exists>db'. change_local_storage list_mongo \<lparr>ls_database = Some ''db''\<rparr>
     (NameObject (Bucket ''a'') (Key ''x/y'') ''f'' ''g'') one_doc = Inr db'
   \<and> map stored_name db' = [Some (BString ''f'')]"
proof -
  have "\<exists>db'. change_local_storage list_mongo \<lparr>ls_database = Some ''db''\<rparr>
     (NameObject (Bucket ''a'') (Key ''x/y'') ''f'' ''g'') one_doc = Inr db'"
    by (simp add: db_of_def set_name_def ask_db_def)
  then show ?thesis
    using name_object_not_stored[OF list_mongo_laws(1)] one_doc_names by metis
qed

text \<open>
  Renaming a directory in the database is not what it is in the tree: its objects get the new
  segment alone as their key, without the path of the parent, and the objects of its subdirectories
  keep the old path.
\<close>

theorem name_key_stored_keys:
  assumes "update_many_law exec docs"
    and "set_name_key exec ls b k dest db = Inr (Inr r, db')"
  shows "docs db' = map (\<lambda>d. if field ''bucket'' d = Some (BString (bucket_name b))
        \<and> field ''key'' d = Some (BString (key_name k))
      then set_path [''key''] (BString (seg_str dest)) d else d) (docs db)"
  using assms unfolding update_many_law_def
  by (auto simp: set_name_key_def ask_db_def and_then_eq_Inr ls_result_def set_fields_def
      intro!: map_cong split: prod.splits sum.splits)

theorem name_key_stored_keys_witness:
  "\<exists>db'. set_name_key list_mongo \<lparr>ls_database = Some ''db''\<rparr> (Bucket ''a'') (Key ''x/y'') (Segment ''z'') one_doc
       = Inr (Inr (Done 1), db')
     \<and> map (field ''key'') db' = [Some (BString ''z'')]"
proof -
  have "\<exists>db'. set_name_key list_mongo \<lparr>ls_database = Some ''db''\<rparr> (Bucket ''a'') (Key ''x/y'') (Segment ''z'') one_doc
       = Inr (Inr (Done 1), db')"
    by (simp add: set_name_key_def ask_db_def ls_result_def)
  then obtain db' where db': "set_name_key list_mongo \<lparr>ls_database = Some ''db''\<rparr> (Bucket ''a'') (Key ''x/y'')
      (Segment ''z'') one_doc = Inr (Inr (Done 1), db')" by blast
  note stored = name_key_stored_keys[OF list_mongo_laws(2) db']
  have "map (field ''key'') db' = [Some (BString ''z'')]"
    unfolding stored by (simp add: one_doc_def the_doc_fields)
  then show ?thesis by (intro exI[of _ db'] conjI db')
qed

text \<open>
  Deleting a directory removes from the database the objects directly in it and nothing below:
  an object of a subdirectory is still stored.
\<close>

theorem delete_key_leaves_nested:
  assumes "delete_many_law exec docs"
    and "ls_delete_key exec ls b (Key k) db = Inr (Inr r, db')"
    and "d \<in> set (docs db)" "field ''key'' d = Some (BString (k @ ''/'' @ rest))"
  shows "d \<in> set (docs db')"
proof -
  have "docs db' = filter (\<lambda>d. \<not> matches (by_key b (Key k)) d) (docs db)"
    using assms(1,2) unfolding delete_many_law_def
    by (auto simp: ls_delete_key_def ask_db_def and_then_eq_Inr ls_result_def
        simp del: matches_simps split: prod.splits sum.splits)
  with assms(3,4) show ?thesis by simp
qed

theorem delete_key_leaves_nested_witness:
  "\<exists>db'. ls_delete_key list_mongo \<lparr>ls_database = Some ''db''\<rparr> (Bucket ''a'') (Key ''x'') one_doc
       = Inr (Inr (Done 1), db') \<and> the_doc \<in> set db'"
proof -
  have key: "field ''key'' the_doc = Some (BString (''x'' @ ''/'' @ ''y''))"
    by (simp add: the_doc_fields)
  have in_doc: "the_doc \<in> set one_doc" by (simp add: one_doc_def)
  have "\<exists>db'. ls_delete_key list_mongo \<lparr>ls_database = Some ''db''\<rparr> (Bucket ''a'') (Key ''x'') one_doc
       = Inr (Inr (Done 1), db')"
    by (simp add: ls_delete_key_def ask_db_def ls_result_def)
  then show ?thesis
    using delete_key_leaves_nested[OF list_mongo_laws(3) _ in_doc key] by blast
qed

text \<open>
  The clean-up after the tree is built leaves exactly the documents whose identifier was seen in
  the file system.
\<close>

theorem sync_database_keeps_seen:
  assumes "find_all_law exec docs" "delete_many_law exec docs"
    and "\<forall>d \<in> set (docs db). \<exists>i. field ''_id'' d = Some (BOid i)"
    and "sync_object_with_database exec ls ids db = Inr db'"
  shows "docs db' = filter (\<lambda>d. \<exists>i \<in> set ids. field ''_id'' d = Some (BOid i)) (docs db)"
proof -
  let ?unseen = "[(''_id'', CNin (map BOid ids))]"
  from assms(4) obtain r db1 objects r2 where
    f: "exec (FindAll ?unseen) db = (Inr r, db1)"
    and objects: "all_found (case r of Found ds \<Rightarrow> ds | Done _ \<Rightarrow> []) = Some objects"
    and del: "exec (DeleteMany [(''_id'', CIn (map BOid (List.map_filter ao_id objects)))]) db1 = (Inr r2, db')"
    by (auto simp: sync_object_with_database_def ask_db_def and_then_eq_Inr
        split: prod.splits sum.splits option.splits)
  have r: "r = Found (filter (matches ?unseen) (docs db))" "docs db1 = docs db"
    using assms(1) f unfolding find_all_law_def by blast+
  have unseen: "matches ?unseen d \<longleftrightarrow> \<not> (\<exists>i \<in> set ids. field ''_id'' d = Some (BOid i))" for d
    by (auto simp: matches_def)
  have ids: "{i. \<exists>d \<in> set (filter (matches ?unseen) (docs db)). field ''_id'' d = Some (BOid i)}
      = set (List.map_filter ao_id objects)"
    using objects r(1) assms(3) by (intro all_found_ids) auto
  have "docs db' = filter (\<lambda>d. \<not> matches [(''_id'', CIn (map BOid (List.map_filter ao_id objects)))] d) (docs db)"
    using assms(2) del r(2) unfolding delete_many_law_def by metis
  also have "\<dots> = filter (\<lambda>d. \<exists>i \<in> set ids. field ''_id'' d = Some (BOid i)) (docs db)"
  proof (rule filter_cong[OF refl])
    fix d
    assume "d \<in> set (docs db)"
    then obtain i where i: "field ''_id'' d = Some (BOid i)" using assms(3) by blast
    have "i \<in> set (List.map_filter ao_id objects) \<longleftrightarrow> i \<notin> set ids"
      unfolding ids[symmetric] using i \<open>d \<in> set (docs db)\<close> by (auto simp: unseen)
    then show "(\<not> matches [(''_id'', CIn (map BOid (List.map_filter ao_id objects)))] d)
        = (\<exists>i \<in> set ids. field ''_id'' d = Some (BOid i))"
      using i by (auto simp: matches_def)
  qed
  finally show ?thesis .
qed

theorem sync_database_keeps_seen_witness:
  "\<exists>db'. sync_object_with_database list_mongo \<lparr>ls_database = Some ''db''\<rparr> [] one_doc = Inr db' \<and> db' = []"
proof -
  obtain x where found: "as_object_of_bson the_doc = Some x" using the_doc_fields(5) by blast
  have "matches [(''_id'', CNin [])] d" for d by (simp add: matches_def)
  with found have "\<exists>db'. sync_object_with_database list_mongo \<lparr>ls_database = Some ''db''\<rparr> [] one_doc = Inr db'"
    by (simp add: sync_object_with_database_def ask_db_def one_doc_def)
  moreover have "\<forall>d \<in> set one_doc. \<exists>i. field ''_id'' d = Some (BOid i)"
    by (simp add: one_doc_def the_doc_fields)
  ultimately show ?thesis
    using sync_database_keeps_seen[OF list_mongo_laws(4,3)] by fastforce
qed

end
