(* ===== verification/Event_Watcher.thy ===== *)
theory Event_Watcher
  imports Watcher_Handlers Rename_Control Local_Storage
begin

text \<open>
  The two actors around the tree: \<^verbatim>\<open>EventWatcher\<close> turns notifications of the operating
  system into changes (directory/src/manager/watcher/event_watcher/mod.rs), \<^verbatim>\<open>Manager\<close> applies
  changes to the database and the tree and answers what a path is (directory/src/manager/mod.rs). What
  an actor sends is data; the answer to a question is a parameter of the asking handler. The last part
  puts both, their mailboxes and the file system together as one step relation.
\<close>

section \<open>The watcher\<close>

datatype event_kind =
    CreateFolder | CreateOther | NameFrom | NameBoth | NameOther
  | RemoveFolder | RemoveFile | RemoveAny | RemoveOther | OtherKind

record event =
  ev_kind :: event_kind
  ev_paths :: "path list"

datatype manager_reply = ReplyNone | IsDir | IsFile

datatype outgoing = TellManager change | TellRename rc_msg | TellSelf event

text \<open>\<^verbatim>\<open>Vec::pop\<close>.\<close>

definition pop :: "'a list \<Rightarrow> ('a \<times> 'a list) option" where
  "pop xs = (if xs = [] then None else Some (last xs, butlast xs))"

definition tell_change :: "'fs handled \<Rightarrow> (outgoing list \<times> skipper \<times> 'fs) run" where
  "tell_change r =
     and_then r (\<lambda>(ch, sk, fs). Inr (case ch of Some c \<Rightarrow> [TellManager c] | None \<Rightarrow> [], sk, fs))"

definition on_create_folder ::
    "('fs, 'h) os \<Rightarrow> string \<Rightarrow> path \<Rightarrow> path list \<Rightarrow> skipper \<Rightarrow> 'fs \<Rightarrow> (outgoing list \<times> skipper \<times> 'fs) run" where
  "on_create_folder os nano root paths sk fs =
     (case pop paths of
        None \<Rightarrow> Inr ([], sk, fs)
      | Some (p, _) \<Rightarrow> tell_change (hd_new_bucket_or_key_watcher os nano root p sk fs))"

definition on_create_other ::
    "('fs, 'h) os \<Rightarrow> string \<Rightarrow> path \<Rightarrow> path list \<Rightarrow> skipper \<Rightarrow> 'fs \<Rightarrow> (outgoing list \<times> skipper \<times> 'fs) run" where
  "on_create_other os nano root paths sk fs =
     (case pop paths of
        None \<Rightarrow> Inr ([], sk, fs)
      | Some (p, _) \<Rightarrow> tell_change (hd_new_object_watcher os nano root p sk fs))"

definition on_name_from :: "path list \<Rightarrow> skipper \<Rightarrow> 'fs \<Rightarrow> (outgoing list \<times> skipper \<times> 'fs) run" where
  "on_name_from paths sk fs =
     and_then (unwrap (pop paths)) (\<lambda>(p, _). Inr ([TellRename (From p)], sk, fs))"

definition on_name_both ::
    "('fs, 'h) os \<Rightarrow> string \<Rightarrow> path \<Rightarrow> path list \<Rightarrow> skipper \<Rightarrow> 'fs \<Rightarrow> (outgoing list \<times> skipper \<times> 'fs) run" where
  "on_name_both os nano root paths sk fs =
     (case Option.bind (pop paths) (\<lambda>(dest, rest). map_option (\<lambda>(frm, _). (dest, frm)) (pop rest)) of
        None \<Rightarrow> Inr ([], sk, fs)
      | Some (dest, frm) \<Rightarrow>
          and_then
            (tell_change
              (if os_is_dir os fs dest then hd_rename_path os root frm dest sk fs
               else hd_rename_object os nano root frm dest sk fs))
            (\<lambda>(out, sk, fs). Inr (TellRename (Decline frm) # out, sk, fs)))"

definition on_remove_folder :: "path \<Rightarrow> path list \<Rightarrow> skipper \<Rightarrow> 'fs \<Rightarrow> (outgoing list \<times> skipper \<times> 'fs) run" where
  "on_remove_folder root paths sk fs =
     (case pop paths of
        None \<Rightarrow> Inr ([], sk, fs)
      | Some (p, _) \<Rightarrow>
          and_then (find_bucket_unwrap root p) (\<lambda>bucket.
            if path_parent p = Some root then Inr ([TellManager (DeleteBucket bucket)], sk, fs)
            else and_then (unwrap (from_bucket bucket p)) (\<lambda>key.
              Inr ([TellManager (DeleteKey bucket key)], sk, fs))))"

definition on_remove_file :: "path \<Rightarrow> path list \<Rightarrow> skipper \<Rightarrow> 'fs \<Rightarrow> (outgoing list \<times> skipper \<times> 'fs) run" where
  "on_remove_file root paths sk fs =
     (case pop paths of
        None \<Rightarrow> Inr ([], sk, fs)
      | Some (p, _) \<Rightarrow>
          and_then (find_bucket_unwrap root p) (\<lambda>bucket.
          and_then (unwrap (from_bucket bucket p)) (\<lambda>key.
          and_then (file_name_unwrap p) (\<lambda>name.
          Inr ([TellManager (DeleteObject bucket key name)], sk, fs)))))"

text \<open>
  \<^verbatim>\<open>ask\<close> panics when the manager gives no answer. The event sent to itself is a fresh
  \<^verbatim>\<open>Event::new\<close>, without paths.
\<close>

definition on_remove_any ::
    "(path \<Rightarrow> manager_reply option) \<Rightarrow> path list \<Rightarrow> skipper \<Rightarrow> 'fs \<Rightarrow> (outgoing list \<times> skipper \<times> 'fs) run" where
  "on_remove_any what_is paths sk fs =
     and_then (unwrap (pop paths)) (\<lambda>(p, _).
       case what_is p of
         None \<Rightarrow> Inl UnwrapErr
       | Some IsDir \<Rightarrow> Inr ([TellSelf \<lparr>ev_kind = RemoveFolder, ev_paths = []\<rparr>], sk, fs)
       | Some IsFile \<Rightarrow> Inr ([TellSelf \<lparr>ev_kind = RemoveFile, ev_paths = []\<rparr>], sk, fs)
       | Some ReplyNone \<Rightarrow> Inr ([], sk, fs))"

definition event_handle ::
    "('fs, 'h) os \<Rightarrow> string \<Rightarrow> path \<Rightarrow> (path \<Rightarrow> manager_reply option) \<Rightarrow> event \<Rightarrow> skipper \<Rightarrow> 'fs
     \<Rightarrow> (outgoing list \<times> skipper \<times> 'fs) run" where
  "event_handle os nano root what_is ev sk fs =
     (case ev_kind ev of
        CreateFolder \<Rightarrow> on_create_folder os nano root (ev_paths ev) sk fs
      | CreateOther \<Rightarrow> on_create_other os nano root (ev_paths ev) sk fs
      | NameFrom \<Rightarrow> on_name_from (ev_paths ev) sk fs
      | NameBoth \<Rightarrow> on_name_both os nano root (ev_paths ev) sk fs
      | RemoveFolder \<Rightarrow> on_remove_folder root (ev_paths ev) sk fs
      | RemoveFile \<Rightarrow> on_remove_file root (ev_paths ev) sk fs
      | RemoveAny \<Rightarrow> on_remove_any what_is (ev_paths ev) sk fs
      | RemoveOther \<Rightarrow> on_remove_any what_is (ev_paths ev) sk fs
      | NameOther \<Rightarrow> Inr ([], sk, fs)
      | OtherKind \<Rightarrow> Inr ([], sk, fs))"

section \<open>The manager\<close>

datatype manager_message = Change change | WhatIs path

definition what_is :: "bucket_map \<Rightarrow> path \<Rightarrow> manager_reply run" where
  "what_is m p =
     (if path_parent p = Some (bm_path m) then Inr IsDir
      else
        and_then (find_bucket_unwrap (bm_path m) p) (\<lambda>bucket.
        and_then (unwrap (from_bucket bucket p)) (\<lambda>key.
        Inr (if get_entry m bucket key \<noteq> None then IsDir else IsFile))))"

text \<open>The database is changed first: a panic of the tree's change leaves it changed.\<close>

fun manager_handle ::
    "'db mongo \<Rightarrow> local_storage \<Rightarrow> manager_message \<Rightarrow> bucket_map \<times> 'db
     \<Rightarrow> (manager_reply \<times> bucket_map) run \<times> 'db" where
  "manager_handle exec ls (Change ch) (m, db) =
     (case change_local_storage exec ls ch db of
        Inl p \<Rightarrow> (Inl p, db)
      | Inr db' \<Rightarrow> (and_then (apply_change ch m) (\<lambda>m'. Inr (ReplyNone, m')), db'))"
| "manager_handle exec ls (WhatIs p) (m, db) =
     (and_then (what_is m p) (\<lambda>r. Inr (r, m)), db)"

section \<open>Both together\<close>

text \<open>
  The state of the service: the tree, the database, the file system, the skipper, the mailboxes of the
  two actors, what was sent to the rename control, and whether their tasks are alive. A message whose
  handling panics ends its task. The operating system sends events at any time and changes the file
  system as it likes; the manager serves its mailbox in order, so that a question of the watcher is
  answered once the changes before it are done. What a watcher that panics did to the file system
  before is left open.
\<close>

record ('fs, 'db) service =
  sv_map :: bucket_map
  sv_db :: 'db
  sv_fs :: 'fs
  sv_skipper :: skipper
  sv_events :: "event list"
  sv_changes :: "change list"
  sv_renames :: "rc_msg list"
  sv_manager_up :: bool
  sv_watcher_up :: bool

fun changes_of :: "outgoing list \<Rightarrow> change list" where
  "changes_of [] = []"
| "changes_of (TellManager c # out) = c # changes_of out"
| "changes_of (_ # out) = changes_of out"

fun renames_of :: "outgoing list \<Rightarrow> rc_msg list" where
  "renames_of [] = []"
| "renames_of (TellRename c # out) = c # renames_of out"
| "renames_of (_ # out) = renames_of out"

fun selves_of :: "outgoing list \<Rightarrow> event list" where
  "selves_of [] = []"
| "selves_of (TellSelf e # out) = e # selves_of out"
| "selves_of (_ # out) = selves_of out"

definition manager_answer :: "('fs, 'db) service \<Rightarrow> path \<Rightarrow> manager_reply option" where
  "manager_answer s p =
     (if sv_manager_up s then (case what_is (sv_map s) p of Inr r \<Rightarrow> Some r | Inl _ \<Rightarrow> None) else None)"

definition asks :: "event \<Rightarrow> bool" where
  "asks ev \<longleftrightarrow> ev_kind ev \<in> {RemoveAny, RemoveOther}"

text \<open>A question the manager panics on ends the manager too.\<close>

definition survives :: "('fs, 'db) service \<Rightarrow> event \<Rightarrow> bool" where
  "survives s ev \<longleftrightarrow>
     sv_manager_up s \<and> (\<forall>p \<in> set (ev_paths ev). asks ev \<longrightarrow> manager_answer s p \<noteq> None)"

inductive service_step ::
    "('fs, 'h) os \<Rightarrow> 'db mongo \<Rightarrow> local_storage \<Rightarrow> ('fs, 'db) service \<Rightarrow> ('fs, 'db) service \<Rightarrow> bool"
  for os exec ls where
  notify: "service_step os exec ls s (s\<lparr>sv_events := sv_events s @ [ev], sv_fs := fs'\<rparr>)"
| watch: "sv_watcher_up s \<Longrightarrow> sv_events s = ev # evs \<Longrightarrow>
    (asks ev \<and> sv_manager_up s \<Longrightarrow> sv_changes s = []) \<Longrightarrow>
    event_handle os nano (bm_path (sv_map s)) (manager_answer s) ev (sv_skipper s) (sv_fs s) = Inr (out, sk, fs) \<Longrightarrow>
    service_step os exec ls s
      (s\<lparr>sv_events := evs @ selves_of out, sv_changes := sv_changes s @ changes_of out,
         sv_renames := sv_renames s @ renames_of out, sv_skipper := sk, sv_fs := fs\<rparr>)"
| watch_panic: "sv_watcher_up s \<Longrightarrow> sv_events s = ev # evs \<Longrightarrow>
    (asks ev \<and> sv_manager_up s \<Longrightarrow> sv_changes s = []) \<Longrightarrow>
    event_handle os nano (bm_path (sv_map s)) (manager_answer s) ev (sv_skipper s) (sv_fs s) = Inl p \<Longrightarrow>
    service_step os exec ls s
      (s\<lparr>sv_events := evs, sv_watcher_up := False, sv_manager_up := survives s ev, sv_fs := fs'\<rparr>)"
| manage: "sv_manager_up s \<Longrightarrow> sv_changes s = ch # chs \<Longrightarrow>
    manager_handle exec ls (Change ch) (sv_map s, sv_db s) = (Inr (r, m), db) \<Longrightarrow>
    service_step os exec ls s (s\<lparr>sv_changes := chs, sv_map := m, sv_db := db\<rparr>)"
| manage_panic: "sv_manager_up s \<Longrightarrow> sv_changes s = ch # chs \<Longrightarrow>
    manager_handle exec ls (Change ch) (sv_map s, sv_db s) = (Inl p, db) \<Longrightarrow>
    service_step os exec ls s (s\<lparr>sv_changes := chs, sv_db := db, sv_manager_up := False\<rparr>)"

inductive service_run ::
    "('fs, 'h) os \<Rightarrow> 'db mongo \<Rightarrow> local_storage \<Rightarrow> ('fs, 'db) service \<Rightarrow> ('fs, 'db) service \<Rightarrow> bool"
  for os exec ls where
  refl: "service_run os exec ls s s"
| step: "service_run os exec ls s s1 \<Longrightarrow> service_step os exec ls s1 s2 \<Longrightarrow> service_run os exec ls s s2"

section \<open>Lemmas\<close>

lemma pop_simps [simp]: "pop [] = None" "pop (xs @ [x]) = Some (x, xs)" "pop [x] = Some (x, [])"
  by (simp_all add: pop_def)

lemma on_remove_any_out:
  assumes "on_remove_any answer ps sk fs = Inr (out, sk', fs')"
  shows "out = [] \<or> out = [TellSelf \<lparr>ev_kind = RemoveFolder, ev_paths = []\<rparr>]
    \<or> out = [TellSelf \<lparr>ev_kind = RemoveFile, ev_paths = []\<rparr>]"
proof -
  obtain p rest where p: "pop ps = Some (p, rest)"
    using assms by (auto simp: on_remove_any_def and_then_eq_Inr)
  then obtain r where "answer p = Some r"
    using assms by (cases "answer p") (auto simp: on_remove_any_def)
  with p assms show ?thesis by (cases r) (auto simp: on_remove_any_def)
qed

text \<open>The tree is changed only by the manager, through \<open>apply_change\<close>.\<close>

lemma service_step_map:
  "service_step os exec ls s s' \<Longrightarrow>
     sv_map s' = sv_map s \<or> (\<exists>ch. sv_manager_up s \<and> apply_change ch (sv_map s) = Inr (sv_map s'))"
proof (induction rule: service_step.induct)
  case (manage s ch chs r m db)
  then have "apply_change ch (sv_map s) = Inr m"
    by (auto simp: and_then_eq_Inr split: sum.splits)
  with manage.hyps(1) show ?case by auto
qed auto

lemma service_run_invariant:
  assumes "service_run os exec ls s s'"
    and "\<And>m ch m'. P m \<Longrightarrow> apply_change ch m = Inr m' \<Longrightarrow> P m'" "P (sv_map s)"
  shows "P (sv_map s')"
  using assms(1,3)
proof (induction rule: service_run.induct)
  case (step s1 s2)
  then show ?case using service_step_map[OF step.hyps(2)] assms(2) by metis
qed simp

lemma service_step_manager_down:
  "service_step os exec ls s s' \<Longrightarrow> \<not> sv_manager_up s \<Longrightarrow> \<not> sv_manager_up s' \<and> sv_map s' = sv_map s \<and> sv_db s' = sv_db s"
  by (induction rule: service_step.induct) (auto simp: survives_def)

lemma service_run_manager_down:
  "service_run os exec ls s s' \<Longrightarrow> \<not> sv_manager_up s \<Longrightarrow> \<not> sv_manager_up s' \<and> sv_map s' = sv_map s \<and> sv_db s' = sv_db s"
  by (induction rule: service_run.induct) (auto dest: service_step_manager_down)

lemma service_run_trans:
  "service_run os exec ls s1 s2 \<Longrightarrow> service_run os exec ls s s1 \<Longrightarrow> service_run os exec ls s s2"
  by (induction rule: service_run.induct) (auto intro: service_run.step)

lemma service_run_one: "service_step os exec ls s s1 \<Longrightarrow> service_run os exec ls s s1"
  by (rule service_run.step[OF service_run.refl])

section \<open>Properties\<close>

text \<open>
  C6. In every state the service reaches, whatever the operating system reports and however the two
  actors take turns, the tree keeps its invariant and its root.
\<close>

theorem service_keeps_tree_inv:
  assumes "service_run os exec ls s s'" "bm_inv (sv_map s)"
  shows "bm_inv (sv_map s') \<and> bm_path (sv_map s') = bm_path (sv_map s)"
  by (rule service_run_invariant[where P = "\<lambda>m. bm_inv m \<and> bm_path m = bm_path (sv_map s)", OF assms(1)])
    (use assms(2) change_inv_lemma change_frame in auto)

text \<open>
  After a panic of the manager the tree and the database no longer follow the file system: no
  later event changes either.
\<close>

theorem manager_panic_freezes:
  assumes "service_run os exec ls s s'" "\<not> sv_manager_up s"
  shows "\<not> sv_manager_up s' \<and> sv_map s' = sv_map s \<and> sv_db s' = sv_db s"
  by (rule service_run_manager_down[OF assms])

text \<open>
  Whatever the manager answers, a path reported as removed without its kind (the report that
  follows a rename out of the root) causes no change: the event the watcher sends itself has no path,
  and handling that event does nothing.
\<close>

theorem remove_any_never_deletes:
  assumes "ev_kind ev = RemoveAny \<or> ev_kind ev = RemoveOther"
    and "event_handle os nano root answer ev sk fs = Inr (out, sk', fs')" "e \<in> set (selves_of out)"
  shows "changes_of out = [] \<and> event_handle os nano' root answer' e sk2 fs2 = Inr ([], sk2, fs2)"
proof -
  have "on_remove_any answer (ev_paths ev) sk fs = Inr (out, sk', fs')"
    using assms(1,2) by (auto simp: event_handle_def)
  from on_remove_any_out[OF this] assms(3) show ?thesis
    by (auto simp: event_handle_def on_remove_folder_def on_remove_file_def)
qed

text \<open>
  C8. A file removed from a directory whose path is clean is reported with a key that includes the
  file's own name: with no directory of that path in the tree, the change removes nothing from it.
\<close>

theorem remove_file_keeps_object:
  assumes "clean_below root b (ks @ [n])"
    and "view m (Bucket b, map Segment (ks @ [n])) = None"
  shows "event_handle os nano root answer \<lparr>ev_kind = RemoveFile, ev_paths = [root @ b # ks @ [n]]\<rparr> sk fs
      = Inr ([TellManager (DeleteObject (Bucket b) (key_of_segments (ks @ [n])) n)], sk, fs)
    \<and> (\<exists>m'. apply_change (DeleteObject (Bucket b) (key_of_segments (ks @ [n])) n) m = Inr m' \<and> view m' = view m)"
proof -
  note k = clean_below_key[OF assms(1)]
  have clean: "\<forall>x \<in> set (ks @ [n]). clean_component x"
    using assms(1) clean_dir_component by (auto simp: clean_below_def)
  have "file_name_unwrap (root @ b # ks @ [n]) = Inr n"
    using file_name_unwrap_snoc[of n "root @ b # ks"] clean by (simp add: clean_component_def)
  then have ev: "event_handle os nano root answer \<lparr>ev_kind = RemoveFile, ev_paths = [root @ b # ks @ [n]]\<rparr> sk fs
      = Inr ([TellManager (DeleteObject (Bucket b) (key_of_segments (ks @ [n])) n)], sk, fs)"
    using k by (simp add: event_handle_def on_remove_file_def)
  let ?ch = "DeleteObject (Bucket b) (key_of_segments (ks @ [n])) n"
  have "key_segs (key_of_segments (ks @ [n])) = map Segment (ks @ [n])"
    using key_iter_of_segments[OF _ clean] by (simp add: key_segs_def)
  then have "view m (key_addr (Bucket b) (key_of_segments (ks @ [n]))) = None"
    using assms(2) by (simp add: key_addr_def)
  moreover obtain m' where "apply_change ?ch m = Inr m'"
    using change_panic_iff[of ?ch m] by (cases "apply_change ?ch m") auto
  ultimately show ?thesis
    using ev change_view[of ?ch m m'] by (simp add: dir_objects_def)
qed

theorem remove_file_keeps_object_witness:
  "event_handle toy_os [] [''srv''] (\<lambda>_. None)
      \<lparr>ev_kind = RemoveFile, ev_paths = [[''srv'', ''docs'', ''a'', ''b'']]\<rparr> skipper_new {}
    = Inr ([TellManager (DeleteObject (Bucket ''docs'') (Key ''a/b'') ''b'')], skipper_new, {})"
proof -
  have "view full_map (Bucket ''docs'', map Segment ([''a''] @ [''b''])) = None" by (simp add: full_map_view)
  then show ?thesis
    using remove_file_keeps_object[of "[''srv'']" "''docs''" "[''a'']" "''b''" full_map toy_os "[]"
        "\<lambda>_. None" skipper_new "{}"]
      sample_clean_below by (simp add: key_of_segments_def)
qed

theorem remove_any_never_deletes_witness:
  "event_handle toy_os [] [''srv''] (\<lambda>_. None) \<lparr>ev_kind = RemoveFolder, ev_paths = []\<rparr> skipper_new {}
     = Inr ([], skipper_new, {})"
proof -
  have "event_handle toy_os [] [''srv''] (\<lambda>_. Some IsDir) \<lparr>ev_kind = RemoveAny, ev_paths = [[''a'']]\<rparr> skipper_new {}
     = Inr ([TellSelf \<lparr>ev_kind = RemoveFolder, ev_paths = []\<rparr>], skipper_new, {})"
    by (simp add: event_handle_def on_remove_any_def)
  from remove_any_never_deletes[OF _ this] show ?thesis by simp
qed

lemma clean_below_parent:
  assumes "clean_below root b (ks @ [k])"
  shows "clean_below root b ks"
proof -
  have "length (concat (map (\<lambda>c. CHR ''/'' # c) root)) < length x" if "path_str (root @ b # ks) = x @ b @ y" for x y
  proof -
    have "path_str (root @ b # ks @ [k]) = x @ b @ (y @ CHR ''/'' # k)"
      using path_str_snoc[of "root @ b # ks" k] that by simp
    then show ?thesis using assms unfolding clean_below_def by blast
  qed
  then show ?thesis using assms by (auto simp: clean_below_def)
qed

lemma new_directory_handled:
  assumes "clean_below root b ks"
  shows "event_handle os nano root answer \<lparr>ev_kind = CreateFolder, ev_paths = [root @ b # ks]\<rparr> sk fs =
    Inr ([TellManager (if ks = [] then NewBucket (Bucket b) else NewKey (Bucket b) (key_of_segments ks))], sk, fs)"
  by (simp add: event_handle_def on_create_folder_def tell_change_def new_directory_lemma[OF assms])

text \<open>One new directory, from its report to the manager: the two steps that end in a change or a panic.\<close>

lemma service_run_new_directory:
  assumes "clean_below (bm_path (sv_map s)) b ks" "sv_events s = []" "sv_changes s = []"
    and "sv_watcher_up s" "sv_manager_up s"
    and "ch = (if ks = [] then NewBucket (Bucket b) else NewKey (Bucket b) (key_of_segments ks))"
  shows "apply_change ch (sv_map s) = Inr m \<Longrightarrow> service_run os exec ls s (s\<lparr>sv_map := m\<rparr>)"
    "apply_change ch (sv_map s) = Inl p \<Longrightarrow> service_run os exec ls s (s\<lparr>sv_manager_up := False\<rparr>)"
proof -
  let ?ev = "\<lparr>ev_kind = CreateFolder, ev_paths = [bm_path (sv_map s) @ b # ks]\<rparr>"
  let ?s1 = "s\<lparr>sv_events := sv_events s @ [?ev], sv_fs := sv_fs s\<rparr>"
  let ?s2 = "?s1\<lparr>sv_events := [] @ selves_of [TellManager ch],
     sv_changes := sv_changes ?s1 @ changes_of [TellManager ch],
     sv_renames := sv_renames ?s1 @ renames_of [TellManager ch], sv_skipper := sv_skipper ?s1, sv_fs := sv_fs ?s1\<rparr>"
  have s1: "service_step os exec ls s ?s1" by (rule service_step.notify)
  have s2: "service_step os exec ls ?s1 ?s2"
    by (rule service_step.watch[where ev = ?ev and evs = "[]" and nano = "[]"])
      (use assms(2-5) in \<open>simp_all add: asks_def assms(6) new_directory_handled[OF assms(1)]
        del: append.simps\<close>)
  have run: "service_run os exec ls s ?s2"
    by (rule service_run.step[OF service_run_one[OF s1] s2])
  have db: "change_local_storage exec ls ch db = Inr db" for db using assms(6) by auto
  show "service_run os exec ls s (s\<lparr>sv_map := m\<rparr>)" if ok: "apply_change ch (sv_map s) = Inr m"
  proof -
    have "service_step os exec ls ?s2 (?s2\<lparr>sv_changes := [], sv_map := m, sv_db := sv_db s\<rparr>)"
      by (rule service_step.manage[where ch = ch and chs = "[]"]) (use assms ok db in simp_all)
    moreover have "?s2\<lparr>sv_changes := [], sv_map := m, sv_db := sv_db s\<rparr> = s\<lparr>sv_map := m\<rparr>"
      using assms(2,3) by simp
    ultimately show ?thesis using service_run.step[OF run] by metis
  qed
  show "service_run os exec ls s (s\<lparr>sv_manager_up := False\<rparr>)" if bad: "apply_change ch (sv_map s) = Inl p"
  proof -
    have "service_step os exec ls ?s2 (?s2\<lparr>sv_changes := [], sv_db := sv_db s, sv_manager_up := False\<rparr>)"
      by (rule service_step.manage_panic[where ch = ch and chs = "[]"]) (use assms bad db in simp_all)
    moreover have "?s2\<lparr>sv_changes := [], sv_db := sv_db s, sv_manager_up := False\<rparr> = s\<lparr>sv_manager_up := False\<rparr>"
      using assms(2,3) by simp
    ultimately show ?thesis using service_run.step[OF run] by metis
  qed
qed


definition no_database :: local_storage where
  "no_database = \<lparr>ls_database = None\<rparr>"

definition sample_service :: "(path set, bson list) service" where
  "sample_service = \<lparr>sv_map = \<lparr>bm_path = [''srv''], bm_tree = [], bm_broker = 0, next_broker = 1\<rparr>,
     sv_db = [], sv_fs = {}, sv_skipper = skipper_new, sv_events = [], sv_changes = [], sv_renames = [],
     sv_manager_up = True, sv_watcher_up = True\<rparr>"

lemma sample_service_inv: "bm_inv (sv_map sample_service)"
  by (simp add: sample_service_def bm_inv_def tree_wf_def brokers_ok_def view_def lookup_def)


definition stopped_service :: "(path set, bson list) service" where
  "stopped_service = sample_service\<lparr>sv_manager_up := False\<rparr>"

theorem manager_panic_freezes_witness:
  "\<exists>s'. service_run toy_os list_mongo no_database stopped_service s' \<and> sv_events s' \<noteq> [] \<and> sv_map s' = sv_map sample_service"
proof -
  let ?s = "stopped_service\<lparr>sv_events := sv_events stopped_service @ [\<lparr>ev_kind = OtherKind, ev_paths = []\<rparr>], sv_fs := {[''a'']}\<rparr>"
  have run: "service_run toy_os list_mongo no_database stopped_service ?s"
    by (rule service_run_one[OF service_step.notify])
  have "sv_map ?s = sv_map sample_service"
    using manager_panic_freezes[OF run] by (simp add: stopped_service_def)
  then show ?thesis by (intro exI[of _ ?s] conjI run) simp_all
qed

theorem service_keeps_tree_inv_witness:
  "\<exists>s'. service_run toy_os list_mongo no_database sample_service s' \<and> get_buckets (sv_map s') = [Bucket ''docs'']
     \<and> bm_inv (sv_map s')"
proof -
  have "clean_below [''srv''] ''docs'' []"
    using clean_below_parent[of "[''srv'']" "''docs''" "[]" "''a''"]
      clean_below_parent[of "[''srv'']" "''docs''" "[''a'']" "''b''"] sample_clean_below by simp
  then have clean: "clean_below (bm_path (sv_map sample_service)) ''docs'' []" by (simp add: sample_service_def)
  let ?m = "\<lparr>bm_path = [''srv''], bm_tree = [(Bucket ''docs'', default_entry (Suc 0))], bm_broker = 0,
     next_broker = Suc (Suc 0)\<rparr>"
  have ap: "apply_change (NewBucket (Bucket ''docs'')) (sv_map sample_service) = Inr ?m"
    by (simp add: sample_service_def change_new_bucket_def entry_or_default_def bt_insert_def)
  have run: "service_run toy_os list_mongo no_database sample_service (sample_service\<lparr>sv_map := ?m\<rparr>)"
    by (rule service_run_new_directory(1)[OF clean _ _ _ _ _ ap]) (simp_all add: sample_service_def)
  from service_keeps_tree_inv[OF run sample_service_inv]
  have "bm_inv (sv_map (sample_service\<lparr>sv_map := ?m\<rparr>))" by blast
  then show ?thesis
    using run by (intro exI[of _ "sample_service\<lparr>sv_map := ?m\<rparr>"] conjI) (simp_all add: get_buckets_def)
qed

end
