(* ===== verification/Disk_Sync.thy ===== *)
theory Disk_Sync
  imports Event_Watcher
begin

text \<open>
  The tree follows the disk: the handlers of the watcher (directory/src/manager/utils/mod.rs,
  directory/src/manager/watcher/event_watcher/mod.rs), the manager (directory/src/manager/mod.rs) and the
  changes of the tree (directory/src/bucket/bucket_map.rs) together, for the operations on a disk that the
  service handles: making, renaming and removing directories with clean names, making and renaming files.

  A disk is a partial function from the address of a directory, its bucket and the segments below it, to the
  names of its files. With each directory goes what the tree keeps of it and the disk does not show: whether
  it has a table of subdirectories, without which the first subdirectory stops the manager
  (\<open>first_subdirectory_stops_manager\<close>). An operation is followed when the watcher has nothing left to
  handle: the handlers look at the disk when they run, so that a second operation on a path that is still
  to be handled can be taken for another one. The manager may be late by any number of changes.
\<close>

section \<open>Disks and what may happen to them\<close>

record disk_node =
  dn_files :: "string multiset"
  dn_table :: bool

type_synonym disk_state = "addr \<Rightarrow> disk_node option"

definition show_node :: "node \<Rightarrow> disk_node" where
  "show_node n = \<lparr>dn_files = mset (map file_name (opt_default [] (nd_objects n))), dn_table = nd_keys n\<rparr>"

definition shown_dir :: "directory \<Rightarrow> disk_state" where
  "shown_dir d = (\<lambda>a. map_option show_node (d a))"

definition shown :: "bucket_map \<Rightarrow> disk_state" where
  "shown m = shown_dir (view m)"

datatype disk_op =
    MakeBucket string
  | MakeDir string "string list" string
  | MakeFile string "string list" string
  | MoveFile string "string list" string string
  | MoveDir string "string list" string string
  | MoveBucket string string
  | RemoveDir string "string list" string
  | RemoveBucket string

definition at :: "string \<Rightarrow> string list \<Rightarrow> addr" where
  "at b ks = (Bucket b, map Segment ks)"

definition empty_node :: disk_node where
  "empty_node = \<lparr>dn_files = {#}, dn_table = False\<rparr>"

definition disk_files :: "addr \<Rightarrow> (string multiset \<Rightarrow> string multiset) \<Rightarrow> disk_state \<Rightarrow> disk_state" where
  "disk_files a f d = (case d a of None \<Rightarrow> d | Some n \<Rightarrow> d(a \<mapsto> n\<lparr>dn_files := f (dn_files n)\<rparr>))"

definition disk_drop :: "addr \<Rightarrow> disk_state \<Rightarrow> disk_state" where
  "disk_drop a d = (\<lambda>x. if in_subtree a x then None else d x)"

definition disk_move :: "addr \<Rightarrow> addr \<Rightarrow> disk_state \<Rightarrow> disk_state" where
  "disk_move a a' d =
     (\<lambda>x. if in_subtree a' x then d (fst a, snd a @ drop (length (snd a')) (snd x))
          else if in_subtree a x then None else d x)"

fun op_disk :: "disk_op \<Rightarrow> disk_state \<Rightarrow> disk_state" where
  "op_disk (MakeBucket b) d = d(at b [] \<mapsto> empty_node)"
| "op_disk (MakeDir b ks n) d = d(at b (ks @ [n]) \<mapsto> empty_node)"
| "op_disk (MakeFile b ks f) d = disk_files (at b ks) (add_mset f) d"
| "op_disk (MoveFile b ks f g) d = disk_files (at b ks) (\<lambda>s. add_mset g (s - {#f#})) d"
| "op_disk (MoveDir b ks n n') d = disk_move (at b (ks @ [n])) (at b (ks @ [n'])) d"
| "op_disk (MoveBucket b b') d = disk_move (at b []) (at b' []) d"
| "op_disk (RemoveDir b ks n) d = disk_drop (at b (ks @ [n])) d"
| "op_disk (RemoveBucket b) d = disk_drop (at b []) d"

text \<open>What the operating system reports of an operation, and what it shows of its target.\<close>

definition below :: "path \<Rightarrow> string \<Rightarrow> string list \<Rightarrow> path" where
  "below root b ks = root @ b # ks"

fun op_event :: "path \<Rightarrow> disk_op \<Rightarrow> event" where
  "op_event root (MakeBucket b) = \<lparr>ev_kind = CreateFolder, ev_paths = [below root b []]\<rparr>"
| "op_event root (MakeDir b ks n) = \<lparr>ev_kind = CreateFolder, ev_paths = [below root b (ks @ [n])]\<rparr>"
| "op_event root (MakeFile b ks f) = \<lparr>ev_kind = CreateOther, ev_paths = [below root b (ks @ [f])]\<rparr>"
| "op_event root (MoveFile b ks f g) =
     \<lparr>ev_kind = NameBoth, ev_paths = [below root b (ks @ [f]), below root b (ks @ [g])]\<rparr>"
| "op_event root (MoveDir b ks n n') =
     \<lparr>ev_kind = NameBoth, ev_paths = [below root b (ks @ [n]), below root b (ks @ [n'])]\<rparr>"
| "op_event root (MoveBucket b b') = \<lparr>ev_kind = NameBoth, ev_paths = [below root b [], below root b' []]\<rparr>"
| "op_event root (RemoveDir b ks n) = \<lparr>ev_kind = RemoveFolder, ev_paths = [below root b (ks @ [n])]\<rparr>"
| "op_event root (RemoveBucket b) = \<lparr>ev_kind = RemoveFolder, ev_paths = [below root b []]\<rparr>"

fun op_seen :: "('fs, 'h) os \<Rightarrow> 'fs \<Rightarrow> path \<Rightarrow> disk_op \<Rightarrow> bool" where
  "op_seen os fs root (MoveFile b ks f g) \<longleftrightarrow> \<not> os_is_dir os fs (below root b (ks @ [g]))"
| "op_seen os fs root (MoveDir b ks n n') \<longleftrightarrow> os_is_dir os fs (below root b (ks @ [n']))"
| "op_seen os fs root (MoveBucket b b') \<longleftrightarrow> os_is_dir os fs (below root b' [])"
| "op_seen os fs root _ \<longleftrightarrow> True"

definition clean_file :: "string \<Rightarrow> bool" where
  "clean_file n \<longleftrightarrow> n \<noteq> [] \<and> n \<noteq> ''..'' \<and> hd n \<noteq> CHR ''-'' \<and> utf8_valid n \<and> split_once fffd n = None"

text \<open>Which operations: possible on the disk, with clean names, and a table for a new subdirectory.\<close>

fun op_ok :: "path \<Rightarrow> disk_state \<Rightarrow> disk_op \<Rightarrow> bool" where
  "op_ok root d (MakeBucket b) \<longleftrightarrow> clean_below root b [] \<and> d (at b []) = None"
| "op_ok root d (MakeDir b ks n) \<longleftrightarrow>
     clean_below root b (ks @ [n]) \<and> (case d (at b ks) of None \<Rightarrow> False | Some nd \<Rightarrow> dn_table nd)
     \<and> d (at b (ks @ [n])) = None"
| "op_ok root d (MakeFile b ks f) \<longleftrightarrow> clean_below root b ks \<and> clean_file f
     \<and> (case d (at b ks) of None \<Rightarrow> False | Some nd \<Rightarrow> f \<notin># dn_files nd)"
| "op_ok root d (MoveFile b ks f g) \<longleftrightarrow> clean_below root b ks \<and> clean_file f \<and> clean_file g
     \<and> (case d (at b ks) of None \<Rightarrow> False | Some nd \<Rightarrow> f \<in># dn_files nd \<and> g \<notin># dn_files nd)"
| "op_ok root d (MoveDir b ks n n') \<longleftrightarrow> clean_below root b (ks @ [n]) \<and> clean_below root b (ks @ [n'])
     \<and> d (at b (ks @ [n])) \<noteq> None \<and> d (at b (ks @ [n'])) = None"
| "op_ok root d (MoveBucket b b') \<longleftrightarrow> clean_below root b [] \<and> clean_below root b' []
     \<and> d (at b []) \<noteq> None \<and> d (at b' []) = None"
| "op_ok root d (RemoveDir b ks n) \<longleftrightarrow> clean_below root b (ks @ [n]) \<and> d (at b (ks @ [n])) \<noteq> None"
| "op_ok root d (RemoveBucket b) \<longleftrightarrow> clean_below root b [] \<and> d (at b []) \<noteq> None"

fun ops_ok :: "path \<Rightarrow> disk_state \<Rightarrow> disk_op list \<Rightarrow> bool" where
  "ops_ok root d [] \<longleftrightarrow> True"
| "ops_ok root d (op # ops) \<longleftrightarrow> op_ok root d op \<and> ops_ok root (op_disk op d) ops"

section \<open>From an operation to its change\<close>

fun op_change :: "disk_op \<Rightarrow> change \<Rightarrow> bool" where
  "op_change (MakeBucket b) ch \<longleftrightarrow> ch = NewBucket (Bucket b)"
| "op_change (MakeDir b ks n) ch \<longleftrightarrow> ch = NewKey (Bucket b) (key_of_segments (ks @ [n]))"
| "op_change (MakeFile b ks f) ch \<longleftrightarrow> (\<exists>ob. ch = NewObject (Bucket b) (key_of_segments ks) ob \<and> file_name ob = f)"
| "op_change (MoveFile b ks f g) ch \<longleftrightarrow> ch = NameObject (Bucket b) (key_of_segments ks) f g"
| "op_change (MoveDir b ks n n') ch \<longleftrightarrow> ch = NameKey (Bucket b) (key_of_segments (ks @ [n])) (Segment n')"
| "op_change (MoveBucket b b') ch \<longleftrightarrow> ch = NameBucket (Bucket b) (Bucket b')"
| "op_change (RemoveDir b ks n) ch \<longleftrightarrow> ch = DeleteKey (Bucket b) (key_of_segments (ks @ [n]))"
| "op_change (RemoveBucket b) ch \<longleftrightarrow> ch = DeleteBucket (Bucket b)"

definition quiet :: "skipper \<Rightarrow> bool" where
  "quiet sk \<longleftrightarrow> sk_bucket sk = {} \<and> key_armed (sk_key sk) = {} \<and> object_armed (sk_object sk) = {}"

definition readable :: "('fs, 'h) os \<Rightarrow> bool" where
  "readable os \<longleftrightarrow> (\<forall>fs p n own. clean_file n \<longrightarrow> (\<exists>ob. object_new os fs (p @ [n]) own = Inr ob))"

lemma quiet_bucket:
  "quiet sk \<Longrightarrow> \<exists>t. bucket_skipped b (sk_bucket sk) = (False, t) \<and> quiet (sk\<lparr>sk_bucket := t\<rparr>)"
  by (simp add: quiet_def bucket_skipped_def set_remove_def)

lemma quiet_key:
  assumes "quiet sk"
  shows "\<exists>t. key_skipped bk (sk_key sk) = (False, t) \<and> quiet (sk\<lparr>sk_key := t\<rparr>)"
  using assms key_tracker.skipped_answer[of bk "sk_key sk"] key_tracker.armed_skipped[of bk "sk_key sk"]
  by (cases "key_skipped bk (sk_key sk)") (auto simp: quiet_def)

lemma quiet_object:
  assumes "quiet sk"
  shows "\<exists>t. object_skipped bkn (sk_object sk) = (False, t) \<and> quiet (sk\<lparr>sk_object := t\<rparr>)"
  using assms object_tracker.skipped_answer[of bkn "sk_object sk"] object_tracker.armed_skipped[of bkn "sk_object sk"]
  by (cases "object_skipped bkn (sk_object sk)") (auto simp: quiet_def)

lemma clean_below_dirs: "clean_below root b ks \<Longrightarrow> k \<in> set (b # ks) \<Longrightarrow> clean_dir k"
  by (auto simp: clean_below_def)

lemma clean_dir_valid: "clean_dir n \<Longrightarrow> n \<noteq> ''..'' \<and> utf8_valid n"
  using clean_dir_component by (simp add: clean_component_def)

lemma normalize_clean_file: "clean_file n \<Longrightarrow> normalize_file nano (below root b (ks @ [n])) = Inr (Not n)"
  using normalize_file_clean[of n nano "below root b ks"] by (simp add: clean_file_def below_def)

lemma below_parent: "path_parent (below root b (ks @ [n])) = Some (below root b ks)"
  "path_parent (below root b []) = Some root"
  by (simp_all add: below_def)

lemma below_bucket:
  assumes "clean_dir b"
  shows "find_bucket_unwrap root (below root b ks) = Inr (Bucket b)"
  using clean_dir_valid[OF assms] by (simp add: below_def find_bucket_unwrap_below)

lemma below_key: "clean_below root b ks \<Longrightarrow> from_bucket (Bucket b) (below root b ks) = Some (key_of_segments ks)"
  using clean_below_key(1) by (simp add: below_def)

lemma below_name: "n \<noteq> ''..'' \<Longrightarrow> utf8_valid n \<Longrightarrow> file_name_unwrap (below root b (ks @ [n])) = Inr n"
  "b \<noteq> ''..'' \<Longrightarrow> utf8_valid b \<Longrightarrow> file_name_unwrap (below root b []) = Inr b"
  using file_name_unwrap_snoc[of n "root @ b # ks"] file_name_unwrap_snoc[of b root] by (simp_all add: below_def)

lemma pop_two [simp]: "pop [x, y] = Some (y, [x])"
  by (simp add: pop_def)

definition handled_as :: "(outgoing list \<times> skipper \<times> 'fs) run \<Rightarrow> disk_op \<Rightarrow> 'fs \<Rightarrow> bool" where
  "handled_as r op fs \<longleftrightarrow>
     (\<exists>out sk' ch. r = Inr (out, sk', fs) \<and> quiet sk' \<and> changes_of out = [ch] \<and> selves_of out = [] \<and> op_change op ch)"

lemma handled_asI:
  "r = Inr (out, sk', fs) \<Longrightarrow> quiet sk' \<Longrightarrow> changes_of out = [ch] \<Longrightarrow> selves_of out = [] \<Longrightarrow> op_change op ch
   \<Longrightarrow> handled_as r op fs"
  by (auto simp: handled_as_def)


text \<open>The watcher turns each operation into its change, and leaves the disk and the skipper as they are.\<close>

lemma op_handled:
  assumes "op_ok root d op" "op_seen os fs root op" "quiet sk" "readable os"
  shows "handled_as (event_handle os nano root answer (op_event root op) sk fs) op fs"
proof (cases op)
  case (MakeBucket b)
  with assms show ?thesis
    using new_directory_handled[of root b "[]" os nano answer sk fs]
    by (intro handled_asI[where ch = "NewBucket (Bucket b)" and sk' = sk and out = "[TellManager (NewBucket (Bucket b))]"])
        (simp_all add: below_def)
next
  case (MakeDir b ks n)
  with assms show ?thesis
    using new_directory_handled[of root b "ks @ [n]" os nano answer sk fs]
    by (intro handled_asI[where ch = "NewKey (Bucket b) (key_of_segments (ks @ [n]))" and sk' = sk
          and out = "[TellManager (NewKey (Bucket b) (key_of_segments (ks @ [n])))]"]) (simp_all add: below_def)
next
  case (MakeFile b ks f)
  with assms have c: "clean_below root b ks" "clean_file f" by simp_all
  have b: "clean_dir b" using clean_below_dirs[OF c(1)] by simp
  obtain ob where ob: "object_new os fs (below root b (ks @ [f])) (User ''test'') = Inr ob"
    using assms(4) c(2) unfolding readable_def below_def by (metis append_Cons append.assoc)
  have "below root b (ks @ [f]) = below root b ks @ [f]" by (simp add: below_def)
  then have "file_name ob = f"
    using object_new_name[OF ob] c(2) by (simp add: clean_file_def path_file_name_def)
  moreover have "path_parent (below root b (ks @ [f])) \<noteq> Some root" by (simp add: below_parent) (simp add: below_def)
  ultimately show ?thesis
    using MakeFile normalize_clean_file[OF c(2)] below_bucket[OF b] below_key[OF c(1)] ob assms(3)
    by (intro handled_asI[where ch = "NewObject (Bucket b) (key_of_segments ks) ob" and sk' = sk])
      (auto simp: event_handle_def on_create_other_def tell_change_def hd_new_object_watcher_def below_parent)
next
  case (MoveFile b ks f g)
  with assms have c: "clean_below root b ks" "clean_file f" "clean_file g" "\<not> os_is_dir os fs (below root b (ks @ [g]))"
    by simp_all
  have b: "clean_dir b" using clean_below_dirs[OF c(1)] by simp
  obtain t where t: "object_skipped (Bucket b, key_of_segments ks, g) (sk_object sk) = (False, t)" "quiet (sk\<lparr>sk_object := t\<rparr>)"
    using quiet_object[OF assms(3)] by blast
  show ?thesis
    using MoveFile c t normalize_clean_file[OF c(3)] below_bucket[OF b] below_key[OF c(1)] below_name(1)[of f]
    by (intro handled_asI[where ch = "NameObject (Bucket b) (key_of_segments ks) f g" and sk' = "sk\<lparr>sk_object := t\<rparr>"])
      (auto simp: event_handle_def on_name_both_def tell_change_def hd_rename_object_def below_parent clean_file_def)
next
  case (MoveDir b ks n n')
  with assms have c: "clean_below root b (ks @ [n])" "clean_below root b (ks @ [n'])"
    "os_is_dir os fs (below root b (ks @ [n']))" by simp_all
  have b: "clean_dir b" "clean_dir n'" using clean_below_dirs[OF c(2)] by simp_all
  obtain t where t: "key_skipped (Bucket b, key_of_segments (ks @ [n'])) (sk_key sk) = (False, t)" "quiet (sk\<lparr>sk_key := t\<rparr>)"
    using quiet_key[OF assms(3)] by blast
  have "below root b ks \<noteq> root" by (simp add: below_def)
  moreover have "normalize_path False [] (below root b (ks @ [n'])) = Inr (Not n')"
    using normalize_clean_below[OF b(2)] by (simp add: below_def)
  ultimately show ?thesis
    using MoveDir c t below_bucket[OF b(1)] below_key[OF c(1)] below_key[OF c(2)]
    by (intro handled_asI[where ch = "NameKey (Bucket b) (key_of_segments (ks @ [n])) (Segment n')" and sk' = "sk\<lparr>sk_key := t\<rparr>"])
      (auto simp: event_handle_def on_name_both_def tell_change_def hd_rename_path_def below_parent)
next
  case (MoveBucket b b')
  with assms have c: "clean_below root b []" "clean_below root b' []" "os_is_dir os fs (below root b' [])" by simp_all
  have b: "clean_dir b" "clean_dir b'" using clean_below_dirs[OF c(1)] clean_below_dirs[OF c(2)] by simp_all
  obtain t where t: "bucket_skipped (Bucket b') (sk_bucket sk) = (False, t)" "quiet (sk\<lparr>sk_bucket := t\<rparr>)"
    using quiet_bucket[OF assms(3)] by blast
  have "normalize_path False [] (below root b' []) = Inr (Not b')"
    using normalize_clean_dir[OF b(2)] by (simp add: below_def)
  then show ?thesis
    using MoveBucket c t below_name(2)[of b] clean_dir_valid[OF b(1)]
    by (intro handled_asI[where ch = "NameBucket (Bucket b) (Bucket b')" and sk' = "sk\<lparr>sk_bucket := t\<rparr>"])
      (auto simp: event_handle_def on_name_both_def tell_change_def hd_rename_path_def below_parent)
next
  case (RemoveDir b ks n)
  with assms have c: "clean_below root b (ks @ [n])" by simp
  have b: "clean_dir b" using clean_below_dirs[OF c] by simp
  have "below root b ks \<noteq> root" by (simp add: below_def)
  then show ?thesis
    using RemoveDir below_bucket[OF b] below_key[OF c] assms(3)
    by (intro handled_asI[where ch = "DeleteKey (Bucket b) (key_of_segments (ks @ [n]))" and sk' = sk])
      (auto simp: event_handle_def on_remove_folder_def below_parent)
next
  case (RemoveBucket b)
  with assms have "clean_dir b" using clean_below_dirs[of root b "[]"] by simp
  then show ?thesis
    using RemoveBucket below_bucket[of b root "[]"] assms(3)
    by (intro handled_asI[where ch = "DeleteBucket (Bucket b)" and sk' = sk])
      (auto simp: event_handle_def on_remove_folder_def below_parent)
qed

section \<open>From a change to the disk it shows\<close>

lemma shown_dir_simps [simp]:
  "shown_dir d a = map_option show_node (d a)"
  by (simp add: shown_dir_def)

lemma shown_dir_upd: "shown_dir (d(a \<mapsto> n)) = (shown_dir d)(a \<mapsto> show_node n)"
  by (auto simp: fun_eq_iff shown_dir_def)

lemma show_default [simp]: "show_node (default_node k) = empty_node"
  by (simp add: show_node_def default_node_def empty_node_def)

lemma shown_dir_objects:
  assumes "\<And>n. d a = Some n \<Longrightarrow> mset (map file_name (opt_default [] (f (nd_objects n)))) = g (mset (map file_name (opt_default [] (nd_objects n))))"
  shows "shown_dir (dir_objects a f d) = disk_files a g (shown_dir d)"
  using assms by (cases "d a") (auto simp: dir_objects_def disk_files_def shown_dir_upd show_node_def)

lemma shown_dir_drop: "shown_dir (dir_drop a d) = disk_drop a (shown_dir d)"
  by (auto simp: fun_eq_iff dir_drop_def disk_drop_def)

lemma shown_dir_move: "shown_dir (dir_move a a' d) = disk_move a a' (shown_dir d)"
  by (auto simp: fun_eq_iff dir_move_def disk_move_def)

text \<open>Renaming one object of a name.\<close>

lemma mset_update_first:
  "f \<in> set (map file_name obs) \<Longrightarrow>
   mset (map file_name (update_first (\<lambda>x. file_name x = f) (\<lambda>x. x\<lparr>file_name := g\<rparr>) obs))
   = add_mset g (mset (map file_name obs) - {#f#})"
  by (induction obs) (auto simp: add_mset_commute)

text \<open>The parts and the address of the key of clean segments.\<close>

lemma clean_segs:
  assumes "clean_below root b ks"
  shows "key_addr (Bucket b) (key_of_segments ks) = at b ks"
proof (cases "ks = []")
  case True
  then show ?thesis by (simp add: key_addr_def at_def key_of_segments_def key_segs_def is_root_def)
next
  case False
  moreover have "\<forall>k \<in> set ks. clean_component k"
    using clean_below_dirs[OF assms] clean_dir_component by simp
  ultimately show ?thesis
    using key_iter_of_segments by (simp add: key_addr_def at_def key_segs_def)
qed

lemma join_snoc: "ks \<noteq> [] \<Longrightarrow> join_with ''/'' (ks @ [n]) = join_with ''/'' ks @ CHR ''/'' # n"
  by (induction ks rule: induct_list012) auto

lemma clean_parts:
  assumes "clean_below root b (ks @ [n])"
  shows "key_parts (key_of_segments (ks @ [n])) = (map Segment ks, Segment n)"
proof -
  have "clean_component n" using clean_below_dirs[OF assms] clean_dir_component by simp
  then have n: "CHR ''/'' \<notin> set n" by (simp add: clean_component_def)
  have segs: "key_segs (key_of_segments ks) = map Segment ks"
    using clean_segs[OF clean_below_parent[OF assms]] by (simp add: key_addr_def at_def)
  show ?thesis
  proof (cases ks rule: rev_cases)
    case Nil
    with n show ?thesis by (simp add: key_of_segments_def)
  next
    case (snoc ks' k)
    then have "join_with ''/'' (ks @ [n]) = join_with ''/'' ks @ CHR ''/'' # n" by (intro join_snoc) simp
    then have "key_name (key_of_segments (ks @ [n])) = join_with ''/'' ks @ CHR ''/'' # n"
      by (simp add: key_of_segments_def)
    moreover have "Key (join_with ''/'' ks) = key_of_segments ks" using snoc by (simp add: key_of_segments_def)
    ultimately show ?thesis
      using segs rsplit_once_append[OF n] by (simp add: key_parts_def)
  qed
qed

lemma view_parent:
  "view m (b, ss @ [s]) \<noteq> None \<Longrightarrow> \<exists>p. view m (b, ss) = Some p \<and> nd_keys p"
  by (auto simp: view_bucket descend_append split: option.splits bind_splits)


text \<open>A database that is configured may fail, but does not panic.\<close>

lemma change_storage_returns:
  "ls_database ls \<noteq> None \<Longrightarrow> \<exists>db'. change_local_storage exec ls ch db = Inr db'"
  by (cases ch) (auto simp: db_of_def ls_new_object_def ls_delete_object_def set_name_def ls_delete_bucket_def
      set_name_bucket_def set_name_key_def ls_delete_key_def ask_db_def split: prod.splits)

text \<open>What the flat directory becomes under the change of an operation, and what the disk becomes, agree.\<close>

lemma op_abs:
  assumes "op_ok root (shown_dir d) op" "op_change op ch"
    and parent: "\<And>b ss s. d (b, ss @ [s]) \<noteq> None \<Longrightarrow> \<exists>p. d (b, ss) = Some p \<and> nd_keys p"
  shows "\<exists>d'. abs_change k ch d = Inr d' \<and> shown_dir d' = op_disk op (shown_dir d)"
proof (cases op)
  case (MakeBucket b)
  with assms(1,2) show ?thesis by (simp add: at_def shown_dir_upd)
next
  case (MakeDir b ks n)
  with assms(1) have "clean_below root b (ks @ [n])" by simp
  with MakeDir assms(1,2) show ?thesis
    by (auto simp: at_def shown_dir_upd clean_parts with_table_def split: option.splits) (simp add: show_node_def)
next
  case (MakeFile b ks f)
  with assms(1) have "clean_below root b ks" by simp
  moreover obtain ob where "ch = NewObject (Bucket b) (key_of_segments ks) ob" "file_name ob = f"
    using MakeFile assms(2) by auto
  ultimately show ?thesis
    using MakeFile by (auto simp: clean_segs intro!: shown_dir_objects)
next
  case (MoveFile b ks f g)
  with assms(1) have c: "clean_below root b ks" by simp
  obtain n where n: "d (at b ks) = Some n" "f \<in> set (map file_name (opt_default [] (nd_objects n)))"
    using MoveFile assms(1) by (auto simp: show_node_def split: option.splits)
  obtain obs where "nd_objects n = Some obs" using n by (cases "nd_objects n") auto
  with n have "shown_dir (dir_objects (at b ks)
       (map_option (update_first (\<lambda>x. file_name x = f) (\<lambda>x. x\<lparr>file_name := g\<rparr>))) d)
     = disk_files (at b ks) (\<lambda>s. add_mset g (s - {#f#})) (shown_dir d)"
    by (intro shown_dir_objects) (auto simp: mset_update_first simp del: mset_map)
  with MoveFile assms(2) c show ?thesis by (simp add: clean_segs)
next
  case (MoveDir b ks n n')
  with assms(1) have c: "clean_below root b (ks @ [n])" by simp
  obtain p where "d (at b ks) = Some p" "nd_keys p"
    using parent[of "Bucket b" "map Segment ks" "Segment n"] MoveDir assms(1) by (auto simp: at_def)
  with MoveDir assms(1,2) show ?thesis
    by (auto simp: at_def clean_parts[OF c] with_table_def dir_rename_def shown_dir_move)
next
  case (MoveBucket b b')
  with assms(1,2) show ?thesis by (auto simp: at_def shown_dir_move)
next
  case (RemoveDir b ks n)
  with assms(1) have c: "clean_below root b (ks @ [n])" by simp
  obtain p where "d (at b ks) = Some p" "nd_keys p"
    using parent[of "Bucket b" "map Segment ks" "Segment n"] RemoveDir assms(1) by (auto simp: at_def)
  with RemoveDir assms(1,2) show ?thesis
    by (auto simp: at_def clean_parts[OF c] with_table_def shown_dir_drop)
next
  case (RemoveBucket b)
  with assms(1,2) show ?thesis by (auto simp: at_def shown_dir_drop)
qed

lemma op_applied:
  assumes "op_ok root (shown m) op" "op_change op ch"
  shows "\<exists>m'. apply_change ch m = Inr m' \<and> shown m' = op_disk op (shown m) \<and> bm_path m' = bm_path m"
proof -
  obtain d' where d': "abs_change (next_broker m) ch (view m) = Inr d'" "shown_dir d' = op_disk op (shown m)"
    using op_abs[OF assms[unfolded shown_def], of "next_broker m"] view_parent by (auto simp: shown_def)
  then obtain m' where m': "apply_change ch m = Inr m'"
    using change_panic_iff[of ch m] by (cases "apply_change ch m") auto
  with d' change_view[OF m'] change_frame[OF m'] show ?thesis by (simp add: shown_def)
qed

section \<open>Runs with a disk\<close>

text \<open>
  An operation happens to the disk and is reported once the watcher is done with the reports before; in
  between the watcher and the manager take any steps.
\<close>

inductive disk_run ::
    "('fs, 'h) os \<Rightarrow> 'db mongo \<Rightarrow> local_storage \<Rightarrow> path \<Rightarrow> ('fs, 'db) service \<times> disk_state
     \<Rightarrow> ('fs, 'db) service \<times> disk_state \<Rightarrow> bool"
  for os exec ls root s0 where
  start: "disk_run os exec ls root s0 s0"
| happen: "disk_run os exec ls root s0 (s, d) \<Longrightarrow> sv_events s = [] \<Longrightarrow> op_ok root d op \<Longrightarrow> op_seen os fs' root op \<Longrightarrow>
    disk_run os exec ls root s0 (s\<lparr>sv_events := [op_event root op], sv_fs := fs'\<rparr>, op_disk op d)"
| settle: "disk_run os exec ls root s0 (s, d) \<Longrightarrow> service_step os exec ls s s' \<Longrightarrow>
    length (sv_events s') \<le> length (sv_events s) \<Longrightarrow> disk_run os exec ls root s0 (s', d)"

definition follows :: "('fs, 'h) os \<Rightarrow> path \<Rightarrow> ('fs, 'db) service \<Rightarrow> disk_state \<Rightarrow> bool" where
  "follows os root s d \<longleftrightarrow>
     sv_manager_up s \<and> sv_watcher_up s \<and> quiet (sv_skipper s) \<and> bm_path (sv_map s) = root
     \<and> (\<exists>cops eops. list_all2 op_change cops (sv_changes s) \<and> sv_events s = map (op_event root) eops
          \<and> length eops \<le> 1 \<and> list_all (op_seen os (sv_fs s) root) eops
          \<and> ops_ok root (shown (sv_map s)) (cops @ eops) \<and> d = fold op_disk (cops @ eops) (shown (sv_map s)))"

lemma followsI:
  assumes "sv_manager_up s" "sv_watcher_up s" "quiet (sv_skipper s)" "bm_path (sv_map s) = root"
    and "list_all2 op_change cops (sv_changes s)" "sv_events s = map (op_event root) eops" "length eops \<le> 1"
    and "list_all (op_seen os (sv_fs s) root) eops" "ops_ok root (shown (sv_map s)) (cops @ eops)"
    and "d = fold op_disk (cops @ eops) (shown (sv_map s))"
  shows "follows os root s d"
  using assms unfolding follows_def by blast

lemma ops_ok_append: "ops_ok root d (xs @ ys) \<longleftrightarrow> ops_ok root d xs \<and> ops_ok root (fold op_disk xs d) ys"
  by (induction xs arbitrary: d) auto

lemma op_event_asks: "\<not> asks (op_event root op)"
  by (cases op) (simp_all add: asks_def)

lemma follows_happen:
  assumes "follows os root s d" "sv_events s = []" "op_ok root d op" "op_seen os fs' root op"
  shows "follows os root (s\<lparr>sv_events := [op_event root op], sv_fs := fs'\<rparr>) (op_disk op d)"
proof -
  obtain cops where c: "list_all2 op_change cops (sv_changes s)" "ops_ok root (shown (sv_map s)) cops"
    "d = fold op_disk cops (shown (sv_map s))"
    using assms(1,2) by (auto simp: follows_def)
  have "ops_ok root (shown (sv_map s)) (cops @ [op])" "op_disk op d = fold op_disk (cops @ [op]) (shown (sv_map s))"
    using c assms(3) by (simp_all add: ops_ok_append)
  moreover have "sv_manager_up s \<and> sv_watcher_up s \<and> quiet (sv_skipper s) \<and> bm_path (sv_map s) = root"
    using assms(1) by (simp add: follows_def)
  ultimately show ?thesis
    using c(1) assms(4) by (intro followsI[where cops = cops and eops = "[op]"]) simp_all
qed

lemma next_event_handled:
  assumes "sv_events s = map (op_event root) eops" "length eops \<le> 1" "list_all (op_seen os (sv_fs s) root) eops"
    and "ops_ok root d0 (cops @ eops)" "quiet (sv_skipper s)" "readable os" "sv_events s = ev # evs"
  shows "\<exists>op. eops = [op] \<and> evs = [] \<and> \<not> asks ev
    \<and> handled_as (event_handle os nano root answer ev (sv_skipper s) (sv_fs s)) op (sv_fs s)"
proof -
  from assms(1,2,7) have "\<exists>op. eops = [op] \<and> ev = op_event root op \<and> evs = []" by (cases eops) auto
  then obtain op where op: "eops = [op]" "ev = op_event root op" "evs = []" by blast
  with assms(3,4) have "op_ok root (fold op_disk cops d0) op" "op_seen os (sv_fs s) root op"
    by (simp_all add: ops_ok_append)
  with op op_handled[OF _ _ assms(5,6)] op_event_asks show ?thesis by blast
qed

lemma next_change_managed:
  assumes "list_all2 op_change cops (sv_changes s)" "ops_ok root (shown (sv_map s)) (cops @ eops)"
    and "bm_path (sv_map s) = root" "ls_database ls \<noteq> None" "sv_changes s = ch # chs"
  shows "\<exists>op cops' m' db'. cops = op # cops' \<and> shown m' = op_disk op (shown (sv_map s)) \<and> bm_path m' = root
    \<and> list_all2 op_change cops' chs \<and> manager_handle exec ls (Change ch) (sv_map s, sv_db s) = (Inr (ReplyNone, m'), db')"
proof -
  obtain op cops' where op: "cops = op # cops'" "op_change op ch" "list_all2 op_change cops' chs"
    using assms(1,5) by (auto simp: list_all2_Cons2)
  with assms(2) have "op_ok root (shown (sv_map s)) op" by simp
  from op_applied[OF this op(2)] obtain m' where m': "apply_change ch (sv_map s) = Inr m'"
    "shown m' = op_disk op (shown (sv_map s))" "bm_path m' = root" using assms(3) by auto
  obtain db' where "change_local_storage exec ls ch (sv_db s) = Inr db'"
    using change_storage_returns[OF assms(4), of exec ch "sv_db s"] by auto
  with m' op show ?thesis by (auto simp del: apply_change.simps change_local_storage.simps)
qed

lemma follows_settle:
  assumes f: "follows os root s d" and step: "service_step os exec ls s s'"
    and few: "length (sv_events s') \<le> length (sv_events s)" and os: "readable os" and db: "ls_database ls \<noteq> None"
  shows "follows os root s' d"
proof -
  obtain cops eops where
    up: "sv_manager_up s" "sv_watcher_up s" "quiet (sv_skipper s)" "bm_path (sv_map s) = root"
    and q: "list_all2 op_change cops (sv_changes s)" "sv_events s = map (op_event root) eops" "length eops \<le> 1"
      "list_all (op_seen os (sv_fs s) root) eops" "ops_ok root (shown (sv_map s)) (cops @ eops)"
      "d = fold op_disk (cops @ eops) (shown (sv_map s))"
    using f unfolding follows_def by blast
  note watched = next_event_handled[OF q(2-4) q(5) up(3) os]
  note managed = next_change_managed[OF q(1) q(5) up(4) db]
  show ?thesis using step few
  proof (cases rule: service_step.cases)
    case (notify ev fs')
    with few show ?thesis by simp
  next
    case (watch ev evs nano out sk fs)
    from watched[OF watch(3), of nano "manager_answer s"] watch(5) up(4) obtain op ch where
      op: "eops = [op]" "fs = sv_fs s" "quiet sk" "changes_of out = [ch]" "selves_of out = []" "op_change op ch"
      by (auto simp: handled_as_def)
    have "evs = []" using watch(3) q(2) op(1) by simp
    moreover have "list_all2 op_change (cops @ [op]) (sv_changes s @ [ch])"
      using q(1) op(6) by (simp add: list_all2_appendI)
    ultimately show ?thesis
      using up q(5,6) op watch(1) by (intro followsI[where cops = "cops @ [op]" and eops = "[]"]) simp_all
  next
    case (watch_panic ev evs nano p fs')
    from watched[OF watch_panic(3), of nano "manager_answer s"] watch_panic(5) up(4) have False
      by (auto simp: handled_as_def)
    then show ?thesis ..
  next
    case (manage ch chs r m db')
    from managed[OF manage(3), of exec] manage(4) obtain op cops' where op: "cops = op # cops'"
      "shown m = op_disk op (shown (sv_map s))" "bm_path m = root" "list_all2 op_change cops' chs"
      by auto
    with up q manage(1) show ?thesis
      by (intro followsI[where cops = cops' and eops = eops]) simp_all
  next
    case (manage_panic ch chs p db')
    from managed[OF manage_panic(3), of exec] manage_panic(4) have False by auto
    then show ?thesis ..
  qed
qed


lemma follows_run:
  assumes "disk_run os exec ls root (s0, d0) r" "follows os root s0 d0" "readable os" "ls_database ls \<noteq> None"
  shows "follows os root (fst r) (snd r)"
  using assms(1)
proof (induction rule: disk_run.induct)
  case start
  then show ?case using assms(2) by simp
next
  case (happen s d op fs')
  then show ?case using follows_happen[of os root s d op fs'] by simp
next
  case (settle s d s')
  then show ?case using follows_settle[of os root s d exec ls s'] assms(3,4) by simp
qed

text \<open>While something is left to do, one of the actors can do it.\<close>

lemma follows_progress:
  assumes f: "follows os root s d" and os: "readable os" and db: "ls_database ls \<noteq> None"
    and work: "\<not> (sv_events s = [] \<and> sv_changes s = [])"
  shows "\<exists>s'. service_step os exec ls s s'
    \<and> 2 * length (sv_events s') + length (sv_changes s') < 2 * length (sv_events s) + length (sv_changes s)"
proof -
  obtain cops eops where
    up: "sv_manager_up s" "sv_watcher_up s" "quiet (sv_skipper s)" "bm_path (sv_map s) = root"
    and q: "list_all2 op_change cops (sv_changes s)" "sv_events s = map (op_event root) eops" "length eops \<le> 1"
      "list_all (op_seen os (sv_fs s) root) eops" "ops_ok root (shown (sv_map s)) (cops @ eops)"
    using f unfolding follows_def by blast
  show ?thesis
  proof (cases "sv_changes s")
    case (Cons ch chs)
    from next_change_managed[OF q(1) q(5) up(4) db Cons, of exec] obtain m' db' where
      "manager_handle exec ls (Change ch) (sv_map s, sv_db s) = (Inr (ReplyNone, m'), db')" by blast
    from service_step.manage[OF up(1) Cons this] Cons show ?thesis by fastforce
  next
    case Nil
    with work obtain ev evs where ev: "sv_events s = ev # evs" by (cases "sv_events s") auto
    from next_event_handled[OF q(2-5) up(3) os ev, of "[]" "manager_answer s"] up(4)
    obtain op out sk ch where
      h: "event_handle os [] (bm_path (sv_map s)) (manager_answer s) ev (sv_skipper s) (sv_fs s) = Inr (out, sk, sv_fs s)"
      and out: "changes_of out = [ch]" "selves_of out = []" "\<not> asks ev" "evs = []"
      by (auto simp: handled_as_def)
    from service_step.watch[OF up(2) ev _ h] out ev Nil show ?thesis by fastforce
  qed
qed

lemma follows_result:
  assumes "follows os root s d" "readable os" "ls_database ls \<noteq> None"
  shows "sv_manager_up s \<and> sv_watcher_up s
    \<and> (if sv_events s = [] \<and> sv_changes s = [] then shown (sv_map s) = d
       else \<exists>s'. service_step os exec ls s s'
              \<and> 2 * length (sv_events s') + length (sv_changes s') < 2 * length (sv_events s) + length (sv_changes s))"
proof -
  have "sv_events s = [] \<Longrightarrow> sv_changes s = [] \<Longrightarrow> shown (sv_map s) = d"
    using assms(1) by (auto simp: follows_def)
  with follows_progress[OF assms] assms(1) show ?thesis by (auto simp: follows_def)
qed

lemma follows_idle:
  assumes "sv_manager_up s" "sv_watcher_up s" "quiet (sv_skipper s)" "sv_events s = []" "sv_changes s = []"
  shows "follows os (bm_path (sv_map s)) s (shown (sv_map s))"
  using assms by (intro followsI[where cops = "[]" and eops = "[]"]) simp_all

section \<open>Property\<close>


definition sample_storage :: local_storage where
  "sample_storage = \<lparr>ls_database = Some ''db''\<rparr>"

lemma toy_readable: "readable toy_os"
  unfolding readable_def
proof (intro allI impI)
  fix fs and p :: path and n own
  assume "clean_file n"
  then have "n \<noteq> ''..''" "os_to_str n = Some n" by (simp_all add: clean_file_def)
  then show "\<exists>ob. object_new toy_os fs (p @ [n]) own = Inr ob"
    by (simp add: object_new_def toy_os_def get_info_metadata_def object_default_def check_sum_def)
qed

lemma sample_service_shows: "shown (sv_map sample_service) a = None"
  by (cases a) (simp add: shown_def sample_service_def view_bucket bt_get_def)


end
