(* ===== verification/Tree_Build.thy ===== *)
theory Tree_Build
  imports Local_Storage Normalize Bucket_Map_Spec
begin

text \<open>
  How the tree is built when the service starts (directory/src/bucket/bucket_map.rs, \<^verbatim>\<open>build\<close>, and
  \<^verbatim>\<open>list_buckets_and_normalize\<close> of directory/src/bucket/utils/mod.rs): every directory and file under
  the root is renamed to a clean name, each file is looked up in the database or added to it, and documents
  of files that are gone are deleted.

  Beside the operating system \<open>os\<close>, listing a directory is the parameter \<open>ls_dir\<close>: \<open>None\<close> when it cannot be
  opened, otherwise the paths it gives, \<open>None\<close> for one that cannot be read; a listing is what the directory
  held when it was opened. \<open>nano\<close> is the random name drawn for a path. The recursion over directories has
  fuel, \<open>None\<close> being a recursion that is deeper: symbolic links may make it endless.
\<close>

type_synonym 'fs list_dir = "'fs \<Rightarrow> path \<Rightarrow> path option list option"

record ('fs, 'db) building =
  bs_fs :: 'fs
  bs_db :: 'db
  bs_ids :: "nat list"
  bs_broker :: nat

record ('fs, 'h, 'db) outside =
  ot_os :: "('fs, 'h) os"
  ot_list :: "'fs list_dir"
  ot_nano :: "path \<Rightarrow> string"
  ot_mongo :: "'db mongo"
  ot_ls :: local_storage

section \<open>Files\<close>

definition add_object ::
    "('fs, 'h, 'db) outside \<Rightarrow> bucket \<Rightarrow> bkey \<Rightarrow> path \<Rightarrow> ('fs, 'db) building \<Rightarrow> (object \<times> ('fs, 'db) building) run" where
  "add_object ot b k p st =
     and_then (object_new (ot_os ot) (bs_fs st) p System) (\<lambda>ob.
     and_then (ls_new_object (ot_mongo ot) (ot_ls ot) b k ob (bs_db st)) (\<lambda>(_, db).
       Inr (ob, st\<lparr>bs_db := db\<rparr>)))"

definition sync_file ::
    "('fs, 'h, 'db) outside \<Rightarrow> bucket \<Rightarrow> bkey \<Rightarrow> path \<Rightarrow> ('fs, 'db) building \<Rightarrow> (object \<times> ('fs, 'db) building) run" where
  "sync_file ot b k p st =
     (case Option.bind (path_file_name p) os_to_str of
        None \<Rightarrow> add_object ot b k p st
      | Some name \<Rightarrow>
          and_then (get_object_filename (ot_mongo ot) (ot_ls ot) b k name (bs_db st)) (\<lambda>(r, db).
            (case r of
               Inr (Some x) \<Rightarrow>
                 and_then (unwrap (ao_id x)) (\<lambda>i. Inr (ao_object x, st\<lparr>bs_db := db, bs_ids := bs_ids st @ [i]\<rparr>))
             | _ \<Rightarrow> add_object ot b k p (st\<lparr>bs_db := db\<rparr>))))"

fun sync_objects ::
    "('fs, 'h, 'db) outside \<Rightarrow> bucket \<Rightarrow> bkey \<Rightarrow> path list \<Rightarrow> ('fs, 'db) building
     \<Rightarrow> (object list \<times> ('fs, 'db) building) run" where
  "sync_objects ot b k [] st = Inr ([], st)"
| "sync_objects ot b k (p # ps) st =
     and_then (sync_file ot b k p st) (\<lambda>(ob, st).
     and_then (sync_objects ot b k ps st) (\<lambda>(obs, st). Inr (ob # obs, st)))"

section \<open>Names\<close>

definition file_name_normalize ::
    "('fs, 'h, 'db) outside \<Rightarrow> path \<Rightarrow> 'fs \<Rightarrow> ((path \<times> string) option \<times> 'fs) run" where
  "file_name_normalize ot p fs =
     (case (if os_is_dir (ot_os ot) fs p then normalize_path True (ot_nano ot p) p
            else normalize_file (ot_nano ot p) p) of
        Inl _ \<Rightarrow> Inr (None, fs)
      | Inr (Yes r) \<Rightarrow>
          (case os_rename (ot_os ot) (path_join (rn_parent r) (rn_from r)) (path_join (rn_parent r) (rn_to r)) fs of
             (False, fs) \<Rightarrow> Inr (None, fs)
           | (True, fs) \<Rightarrow> Inr (Some (path_join (rn_parent r) (rn_to r), rn_to r), fs))
      | Inr (Not name) \<Rightarrow> Inr (Some (p, name), fs)
      | Inr (Fail _) \<Rightarrow> Inr (None, fs)
      | Inr NeedRestore \<Rightarrow> Inl UnreachableReached)"

text \<open>The buckets, with the paths they were listed under.\<close>

fun list_buckets_loop ::
    "('fs, 'h, 'db) outside \<Rightarrow> path option list \<Rightarrow> (bucket \<times> path) list \<Rightarrow> 'fs \<Rightarrow> ((bucket \<times> path) list \<times> 'fs) run" where
  "list_buckets_loop ot [] resp fs = Inr (resp, fs)"
| "list_buckets_loop ot (None # es) resp fs = list_buckets_loop ot es resp fs"
| "list_buckets_loop ot (Some p # es) resp fs =
     (case normalize_path True (ot_nano ot p) p of
        Inr (Not bk) \<Rightarrow> list_buckets_loop ot es (resp @ [(Bucket bk, p)]) fs
      | Inr (Yes r) \<Rightarrow>
          (case os_rename (ot_os ot) (path_join (rn_parent r) (rn_from r)) (path_join (rn_parent r) (rn_to r)) fs of
             (_, fs) \<Rightarrow> list_buckets_loop ot es (resp @ [(Bucket (rn_to r), p)]) fs)
      | Inl _ \<Rightarrow> list_buckets_loop ot es resp fs
      | _ \<Rightarrow> Inl TodoReached)"

definition list_buckets_and_normalize ::
    "('fs, 'h, 'db) outside \<Rightarrow> path \<Rightarrow> 'fs \<Rightarrow> ((bucket \<times> path) list \<times> 'fs) run" where
  "list_buckets_and_normalize ot root fs =
     (case ot_list ot fs root of None \<Rightarrow> Inl UnwrapErr | Some es \<Rightarrow> list_buckets_loop ot es [] fs)"

section \<open>Directories\<close>

text \<open>
  The loop over the entries of a directory; \<open>sub\<close> builds a subdirectory. An entry that cannot be read ends
  the loop.
\<close>

fun entries_loop ::
    "('fs, 'h, 'db) outside \<Rightarrow> (path \<Rightarrow> ('fs, 'db) building \<Rightarrow> (key_entry \<times> ('fs, 'db) building) run option)
     \<Rightarrow> path option list \<Rightarrow> path list \<Rightarrow> (segment, key_entry) btree \<Rightarrow> ('fs, 'db) building
     \<Rightarrow> ((path list \<times> (segment, key_entry) btree) \<times> ('fs, 'db) building) run option" where
  "entries_loop ot sub [] objects keys st = Some (Inr ((objects, keys), st))"
| "entries_loop ot sub (None # es) objects keys st = Some (Inr ((objects, keys), st))"
| "entries_loop ot sub (Some p # es) objects keys st =
     (case file_name_normalize ot p (bs_fs st) of
        Inl e \<Rightarrow> Some (Inl e)
      | Inr (None, fs) \<Rightarrow> entries_loop ot sub es objects keys (st\<lparr>bs_fs := fs\<rparr>)
      | Inr (Some (entry, name), fs) \<Rightarrow>
          (let st = st\<lparr>bs_fs := fs\<rparr> in
           if os_is_dir (ot_os ot) fs entry then
             (case sub entry st of
                None \<Rightarrow> None
              | Some (Inl e) \<Rightarrow> Some (Inl e)
              | Some (Inr (ke, st)) \<Rightarrow> entries_loop ot sub es objects (bt_insert (Segment name) ke keys) st)
           else entries_loop ot sub es (objects @ [entry]) keys st))"

definition finish_entry ::
    "('fs, 'h, 'db) outside \<Rightarrow> bucket \<Rightarrow> path \<Rightarrow> (path list \<times> (segment, key_entry) btree) \<times> ('fs, 'db) building
     \<Rightarrow> (key_entry \<times> ('fs, 'db) building) run" where
  "finish_entry ot b p r =
     (case r of ((objects, keys), st) \<Rightarrow>
        and_then (unwrap (from_bucket b p)) (\<lambda>k.
        and_then (sync_objects ot b k objects st) (\<lambda>(objs, st).
          Inr (KeyEntry (if objs = [] then None else Some objs) (if keys = [] then None else Some keys) (bs_broker st),
               st\<lparr>bs_broker := Suc (bs_broker st)\<rparr>))))"

fun build_key_entry ::
    "nat \<Rightarrow> ('fs, 'h, 'db) outside \<Rightarrow> bucket \<Rightarrow> path \<Rightarrow> ('fs, 'db) building
     \<Rightarrow> (key_entry \<times> ('fs, 'db) building) run option" where
  "build_key_entry 0 ot b p st = None"
| "build_key_entry (Suc fuel) ot b p st =
     (case ot_list ot (bs_fs st) p of
        None \<Rightarrow> Some (Inl UnwrapErr)
      | Some es \<Rightarrow>
          map_option (\<lambda>r. and_then r (finish_entry ot b p))
            (entries_loop ot (build_key_entry fuel ot b) es [] [] st))"

fun build_buckets ::
    "nat \<Rightarrow> ('fs, 'h, 'db) outside \<Rightarrow> (bucket \<times> path) list \<Rightarrow> (bucket, key_entry) btree \<Rightarrow> ('fs, 'db) building
     \<Rightarrow> ((bucket, key_entry) btree \<times> ('fs, 'db) building) run option" where
  "build_buckets fuel ot [] inner st = Some (Inr (inner, st))"
| "build_buckets fuel ot ((b, p) # bs) inner st =
     (case build_key_entry fuel ot b p st of
        None \<Rightarrow> None
      | Some (Inl e) \<Rightarrow> Some (Inl e)
      | Some (Inr (ke, st)) \<Rightarrow> build_buckets fuel ot bs (bt_insert b ke inner) st)"

definition build ::
    "nat \<Rightarrow> ('fs, 'h, 'db) outside \<Rightarrow> bucket_map \<Rightarrow> 'fs \<Rightarrow> 'db \<Rightarrow> (bucket_map \<times> 'fs \<times> 'db) run option" where
  "build fuel ot m fs db =
     (case list_buckets_and_normalize ot (bm_path m) fs of
        Inl e \<Rightarrow> Some (Inl e)
      | Inr (bs, fs) \<Rightarrow>
          map_option
            (\<lambda>r. and_then r (\<lambda>(inner, st).
               and_then (sync_object_with_database (ot_mongo ot) (ot_ls ot) (bs_ids st) (bs_db st)) (\<lambda>db.
                 Inr (m\<lparr>bm_tree := inner, next_broker := bs_broker st\<rparr>, bs_fs st, db))))
            (build_buckets fuel ot bs []
              \<lparr>bs_fs = fs, bs_db = db, bs_ids = [], bs_broker = next_broker m\<rparr>))"

section \<open>The brokers of a tree\<close>

fun ke_brokers :: "key_entry \<Rightarrow> nat list" where
  "ke_brokers (KeyEntry obs ks br) =
     br # (case ks of None \<Rightarrow> [] | Some m \<Rightarrow> concat (map (\<lambda>p. ke_brokers (snd p)) m))"

definition map_brokers :: "('k \<times> key_entry) list \<Rightarrow> nat list" where
  "map_brokers m = concat (map (\<lambda>p. ke_brokers (snd p)) m)"

lemma map_brokers_simps [simp]:
  "map_brokers [] = []" "map_brokers (p # m) = ke_brokers (snd p) @ map_brokers m"
  "map_brokers (m @ m') = map_brokers m @ map_brokers m'"
  by (simp_all add: map_brokers_def)

lemma ke_brokers_eq: "ke_brokers e = ke_broker e # map_brokers (opt_default [] (ke_keys e))"
  by (cases e) (simp add: map_brokers_def split: option.split)

lemma map_brokers_filter: "set (map_brokers (filter P m)) \<subseteq> set (map_brokers m)"
  by (induction m) auto

lemma map_brokers_parts:
  "distinct (map_brokers m) \<Longrightarrow> \<forall>x. \<not> (P x \<and> Q x) \<Longrightarrow>
     distinct (map_brokers (filter P m)) \<and> distinct (map_brokers (filter Q m))
     \<and> set (map_brokers (filter P m)) \<inter> set (map_brokers (filter Q m)) = {}"
proof (induction m)
  case (Cons p m)
  note sub = map_brokers_filter[of P m] map_brokers_filter[of Q m]
  show ?case using Cons sub by (auto; blast)
qed simp

lemma map_brokers_insert:
  assumes "distinct (map_brokers m)" "distinct (ke_brokers e)" "set (ke_brokers e) \<inter> set (map_brokers m) = {}"
  shows "distinct (map_brokers (bt_insert k e m))"
    and "set (map_brokers (bt_insert k e m)) \<subseteq> set (ke_brokers e) \<union> set (map_brokers m)"
proof -
  let ?l = "[p \<leftarrow> m. fst p < k]" and ?g = "[p \<leftarrow> m. k < fst p]"
  have parts: "distinct (map_brokers ?l) \<and> distinct (map_brokers ?g) \<and> set (map_brokers ?l) \<inter> set (map_brokers ?g) = {}"
    by (rule map_brokers_parts[OF assms(1)]) auto
  note sub = map_brokers_filter[of "\<lambda>p. fst p < k" m] map_brokers_filter[of "\<lambda>p. k < fst p" m]
  show "distinct (map_brokers (bt_insert k e m))"
    using parts sub assms(2,3) by (simp add: bt_insert_def) blast
  show "set (map_brokers (bt_insert k e m)) \<subseteq> set (ke_brokers e) \<union> set (map_brokers m)"
    using sub by (auto simp: bt_insert_def)
qed

lemma map_brokers_get: "bt_get m k = Some e \<Longrightarrow> set (ke_brokers e) \<subseteq> set (map_brokers m)"
  by (auto simp: map_brokers_def dest!: bt_get_in_set)

lemma map_brokers_unique:
  assumes "distinct (map_brokers m)" "bt_get m k = Some e" "bt_get m k' = Some e'"
    and "x \<in> set (ke_brokers e)" "x \<in> set (ke_brokers e')"
  shows "k = k'"
  using assms
proof (induction m)
  case (Cons p m)
  have "set (ke_brokers e) \<subseteq> set (map_brokers m)" if "bt_get m k = Some e" using map_brokers_get that .
  moreover have "set (ke_brokers e') \<subseteq> set (map_brokers m)" if "bt_get m k' = Some e'" using map_brokers_get that .
  ultimately show ?case using Cons by (auto simp: bt_get_def split: if_splits)
qed simp

lemma descend_brokers: "descend e ss = Some v \<Longrightarrow> set (ke_brokers v) \<subseteq> set (ke_brokers e)"
proof (induction e ss rule: descend.induct)
  case (2 e s ss)
  then obtain ks c where ks: "ke_keys e = Some ks" "bt_get ks s = Some c" "descend c ss = Some v"
    by (auto split: option.splits simp: Option.bind_eq_Some_conv)
  with 2(1)[of c] map_brokers_get[OF ks(2)] show ?case by (auto simp: ke_brokers_eq[of e])
qed simp

lemma ke_broker_mem [simp]: "ke_broker e \<in> set (ke_brokers e)"
  by (simp add: ke_brokers_eq)

lemma descend_unique:
  "distinct (ke_brokers e) \<Longrightarrow> descend e ss = Some v \<Longrightarrow> descend e ss' = Some v' \<Longrightarrow>
     ke_broker v = ke_broker v' \<Longrightarrow> ss = ss'"
proof (induction ss arbitrary: e ss')
  case Nil
  show ?case
  proof (cases ss')
    case (Cons s tt)
    then obtain ks c where c: "ke_keys e = Some ks" "bt_get ks s = Some c" "descend c tt = Some v'"
      using Nil by (auto split: option.splits simp: Option.bind_eq_Some_conv)
    have "ke_broker v' \<in> set (map_brokers ks)"
      using descend_brokers[OF c(3)] map_brokers_get[OF c(2)] ke_broker_mem by blast
    with Nil c show ?thesis by (simp add: ke_brokers_eq[of e])
  qed simp
next
  case (Cons s tt)
  then obtain ks c where c: "ke_keys e = Some ks" "bt_get ks s = Some c" "descend c tt = Some v"
    by (auto split: option.splits simp: Option.bind_eq_Some_conv)
  have v: "ke_broker v \<in> set (ke_brokers c)" using descend_brokers[OF c(3)] ke_broker_mem by blast
  have d: "distinct (map_brokers ks)" "ke_broker e \<notin> set (map_brokers ks)"
    using Cons(2) c(1) by (simp_all add: ke_brokers_eq[of e])
  show ?case
  proof (cases ss')
    case Nil
    with Cons v c d map_brokers_get[OF c(2)] show ?thesis by auto
  next
    case (Cons s' tt')
    then obtain c' where c': "bt_get ks s' = Some c'" "descend c' tt' = Some v'"
      using \<open>descend e ss' = Some v'\<close> c(1) by (auto split: option.splits)
    have "ke_broker v' \<in> set (ke_brokers c')" using descend_brokers[OF c'(2)] ke_broker_mem by blast
    with v \<open>ke_broker v = ke_broker v'\<close> have "s = s'"
      using map_brokers_unique[OF d(1) c(2) c'(1)] by simp
    moreover have "distinct (ke_brokers c)"
      using d(1) bt_get_in_set[OF c(2)] by (auto simp: map_brokers_def dest!: split_list)
    ultimately show ?thesis
      using Cons.IH[of c tt'] c c' Cons \<open>ke_broker v = ke_broker v'\<close> by simp
  qed
qed

section \<open>What building keeps\<close>

lemma add_object_frame:
  "add_object ot b k p st = Inr (ob, st') \<Longrightarrow> bs_fs st' = bs_fs st \<and> bs_broker st' = bs_broker st"
  by (auto simp: add_object_def and_then_eq_Inr)

lemma sync_file_frame:
  "sync_file ot b k p st = Inr (ob, st') \<Longrightarrow> bs_fs st' = bs_fs st \<and> bs_broker st' = bs_broker st"
  by (auto simp: sync_file_def and_then_def unwrap_def dest: add_object_frame
      split: option.split_asm sum.split_asm prod.split_asm)

lemma sync_objects_frame:
  "sync_objects ot b k ps st = Inr (obs, st') \<Longrightarrow>
     bs_fs st' = bs_fs st \<and> bs_broker st' = bs_broker st \<and> length obs = length ps"
  by (induction ot b k ps st arbitrary: obs st' rule: sync_objects.induct)
    (fastforce simp: and_then_eq_Inr dest: sync_file_frame)+

text \<open>A table of entries whose brokers were drawn between two counts.\<close>

definition fresh_table :: "nat \<Rightarrow> nat \<Rightarrow> ('k::linorder, key_entry) btree \<Rightarrow> bool" where
  "fresh_table n n' m \<longleftrightarrow> n \<le> n' \<and> bt_inv m \<and> list_all (\<lambda>p. entry_wf (snd p)) m \<and> distinct (map_brokers m)
     \<and> set (map_brokers m) \<subseteq> {n..<n'}"

definition fresh_entry :: "nat \<Rightarrow> nat \<Rightarrow> key_entry \<Rightarrow> bool" where
  "fresh_entry n n' e \<longleftrightarrow> n \<le> n' \<and> entry_wf e \<and> distinct (ke_brokers e) \<and> set (ke_brokers e) \<subseteq> {n..<n'}"

lemma fresh_table_Nil [simp]: "fresh_table n n []"
  by (simp add: fresh_table_def)

lemma fresh_table_insert:
  assumes "fresh_table n n1 m" "fresh_entry n1 n2 e"
  shows "fresh_table n n2 (bt_insert k e m)"
proof -
  have "set (ke_brokers e) \<inter> set (map_brokers m) = {}"
    using assms by (fastforce simp: fresh_table_def fresh_entry_def)
  from map_brokers_insert[OF _ _ this, of k] show ?thesis
    using assms by (fastforce simp: fresh_table_def fresh_entry_def)
qed

lemma entries_loop_fresh:
  assumes "\<And>p st ke st'. sub p st = Some (Inr (ke, st')) \<Longrightarrow> fresh_entry (bs_broker st) (bs_broker st') ke"
    and "entries_loop ot sub es objects keys st = Some (Inr ((objs, ks), st'))"
    and "fresh_table n (bs_broker st) keys"
  shows "fresh_table n (bs_broker st') ks"
  using assms(2,3)
proof (induction es arbitrary: objects keys st)
  case (Cons e es)
  show ?case
  proof (cases e)
    case None
    with Cons show ?thesis by simp
  next
    case (Some p)
    show ?thesis
    proof (cases "file_name_normalize ot p (bs_fs st)")
      case (Inr r)
      obtain named fs where r: "r = (named, fs)" by (cases r)
      show ?thesis
      proof (cases named)
        case None
        with Cons Some Inr r show ?thesis by simp
      next
        case (Some en)
        obtain entry name where en: "en = (entry, name)" by (cases en)
        note known = Cons.prems \<open>e = Some p\<close> Inr r Some en
        show ?thesis
        proof (cases "os_is_dir (ot_os ot) fs entry")
          case True
          then obtain ke st1 where s: "sub entry (st\<lparr>bs_fs := fs\<rparr>) = Some (Inr (ke, st1))"
            "entries_loop ot sub es objects (bt_insert (Segment name) ke keys) st1 = Some (Inr ((objs, ks), st'))"
            using known by (auto simp: Let_def split: option.split_asm sum.split_asm)
          from assms(1)[OF s(1)] Cons.prems(2) have "fresh_table n (bs_broker st1) (bt_insert (Segment name) ke keys)"
            by (auto intro: fresh_table_insert)
          with Cons.IH s(2) show ?thesis by blast
        next
          case False
          then show ?thesis using known Cons.IH[of "objects @ [entry]" keys "st\<lparr>bs_fs := fs\<rparr>"] by (simp add: Let_def)
        qed
      qed
    qed (use Cons Some in simp)
  qed
qed simp

lemma finish_entry_fresh:
  assumes "finish_entry ot b p ((objs, ks), st) = Inr (ke, st')" "fresh_table n (bs_broker st) ks"
  shows "fresh_entry n (bs_broker st') ke"
proof -
  obtain obs where s: "bs_broker st' = Suc (bs_broker st)"
    "ke = KeyEntry obs (if ks = [] then None else Some ks) (bs_broker st)"
    using assms(1) by (auto simp: finish_entry_def and_then_eq_Inr dest!: sync_objects_frame)
  then show ?thesis
    using assms(2) by (fastforce simp: fresh_table_def fresh_entry_def map_brokers_def)
qed

lemma build_key_entry_fresh:
  "build_key_entry fuel ot b p st = Some (Inr (ke, st')) \<Longrightarrow> fresh_entry (bs_broker st) (bs_broker st') ke"
proof (induction fuel arbitrary: p st ke st')
  case (Suc fuel)
  then obtain es objs ks st1 where l: "entries_loop ot (build_key_entry fuel ot b) es [] [] st = Some (Inr ((objs, ks), st1))"
    "finish_entry ot b p ((objs, ks), st1) = Inr (ke, st')"
    by (auto simp: and_then_eq_Inr split: option.split_asm)
  have "fresh_table (bs_broker st) (bs_broker st1) ks"
    by (rule entries_loop_fresh[OF Suc.IH l(1)]) simp_all
  from finish_entry_fresh[OF l(2) this] show ?case .
qed simp

lemma build_buckets_fresh:
  "build_buckets fuel ot bs inner st = Some (Inr (t, st')) \<Longrightarrow> fresh_table n (bs_broker st) inner
    \<Longrightarrow> fresh_table n (bs_broker st') t"
proof (induction bs arbitrary: inner st)
  case (Cons bp bs)
  obtain b p where bp: "bp = (b, p)" by (cases bp)
  obtain ke st1 where k: "build_key_entry fuel ot b p st = Some (Inr (ke, st1))"
    "build_buckets fuel ot bs (bt_insert b ke inner) st1 = Some (Inr (t, st'))"
    using Cons.prems(1) by (auto simp: bp split: option.split_asm sum.split_asm)
  from Cons.IH[OF k(2) fresh_table_insert[OF Cons.prems(2) build_key_entry_fresh[OF k(1)]]] show ?case .
qed simp

lemma fresh_table_inv:
  assumes "fresh_table n n' (bm_tree m)" "bm_broker m < n" "next_broker m = n'"
  shows "bm_inv m"
proof -
  note f = assms(1)[unfolded fresh_table_def]
  have low: "nd_broker x < n' \<and> nd_broker x \<noteq> bm_broker m" if "view m a = Some x" for a x
  proof -
    obtain b ss where a: "a = (b, ss)" by (cases a)
    with that obtain e v where v: "bt_get (bm_tree m) b = Some e" "descend e ss = Some v" "x = node_of v"
      by (auto simp: view_bucket Option.bind_eq_Some_conv)
    have "ke_broker v \<in> set (map_brokers (bm_tree m))"
      using descend_brokers[OF v(2)] map_brokers_get[OF v(1)] ke_broker_mem by blast
    with f have "n \<le> ke_broker v \<and> ke_broker v < n'" by auto
    with assms(2) show ?thesis by (auto simp: v(3) node_of_def)
  qed
  have uniq: "a = a'" if "view m a = Some x" "view m a' = Some x'" "nd_broker x = nd_broker x'" for a a' x x'
  proof -
    obtain b ss b' ss' where a: "a = (b, ss)" "a' = (b', ss')" by (cases a; cases a')
    from that a obtain e v e' v' where v: "bt_get (bm_tree m) b = Some e" "descend e ss = Some v" "x = node_of v"
      and v': "bt_get (bm_tree m) b' = Some e'" "descend e' ss' = Some v'" "x' = node_of v'"
      by (auto simp: view_bucket Option.bind_eq_Some_conv)
    have eq: "ke_broker v = ke_broker v'" using that(3) by (simp add: v(3) v'(3) node_of_def)
    have m: "ke_broker v \<in> set (ke_brokers e)" "ke_broker v' \<in> set (ke_brokers e')"
      using descend_brokers[OF v(2)] descend_brokers[OF v'(2)] ke_broker_mem by blast+
    then have b: "b = b'" using map_brokers_unique[OF _ v(1) v'(1)] f eq by auto
    moreover have "distinct (ke_brokers e)"
      using f bt_get_in_set[OF v(1)] by (auto simp: map_brokers_def dest!: split_list)
    ultimately show ?thesis
      using descend_unique[OF _ v(2) _ eq] v(1) v'(1,2) a by simp
  qed
  have "brokers_ok (bm_broker m) (next_broker m) (view m)"
    unfolding brokers_ok_def using low uniq assms f by auto
  then show ?thesis using f by (simp add: bm_inv_def tree_wf_def)
qed

section \<open>Directories that are clean already\<close>

text \<open>
  A directory of the disk with what is below it, in the order of its listing, and what the operating
  system has to answer to show it; every name is one the normalisers leave alone.
\<close>

datatype disk = DiskFile | DiskDir "(string \<times> disk) list"

fun disk_depth :: "disk \<Rightarrow> nat" where
  "disk_depth DiskFile = 0"
| "disk_depth (DiskDir cs) = Suc (foldr max (map (\<lambda>c. disk_depth (snd c)) cs) 0)"

fun shows_disk :: "('fs, 'h, 'db) outside \<Rightarrow> 'fs \<Rightarrow> path \<Rightarrow> disk \<Rightarrow> bool" where
  "shows_disk ot fs p DiskFile \<longleftrightarrow> \<not> os_is_dir (ot_os ot) fs p"
| "shows_disk ot fs p (DiskDir cs) \<longleftrightarrow>
     os_is_dir (ot_os ot) fs p
     \<and> ot_list ot fs p = Some (map (\<lambda>c. Some (p @ [fst c])) cs)
     \<and> distinct (map fst cs)
     \<and> (\<forall>c \<in> set cs. shows_disk ot fs (p @ [fst c]) (snd c)
          \<and> (if snd c = DiskFile then normalize_file (ot_nano ot (p @ [fst c])) (p @ [fst c]) = Inr (Not (fst c))
             else normalize_path True (ot_nano ot (p @ [fst c])) (p @ [fst c]) = Inr (Not (fst c))))"

text \<open>
  An entry with a subdirectory for each one on disk, and objects that relate to the names of the files: one
  for each of them, or the ones of their names.
\<close>

definition dir_names :: "(string \<times> disk) list \<Rightarrow> string list" where
  "dir_names cs = map fst (filter (\<lambda>c. snd c \<noteq> DiskFile) cs)"

definition file_names :: "(string \<times> disk) list \<Rightarrow> string list" where
  "file_names cs = map fst (filter (\<lambda>c. snd c = DiskFile) cs)"

fun mirrors_by :: "(string list \<Rightarrow> object list \<Rightarrow> bool) \<Rightarrow> disk \<Rightarrow> key_entry \<Rightarrow> bool" where
  "mirrors_by R DiskFile e \<longleftrightarrow> False"
| "mirrors_by R (DiskDir cs) e \<longleftrightarrow>
     R (file_names cs) (opt_default [] (ke_objects e))
     \<and> (ke_keys e \<noteq> None \<longleftrightarrow> dir_names cs \<noteq> [])
     \<and> (\<forall>s. bt_get (opt_default [] (ke_keys e)) s \<noteq> None \<longleftrightarrow> (\<exists>c \<in> set cs. snd c \<noteq> DiskFile \<and> s = Segment (fst c)))
     \<and> (\<forall>c \<in> set cs. snd c \<noteq> DiskFile \<longrightarrow>
          (\<exists>e'. bt_get (opt_default [] (ke_keys e)) (Segment (fst c)) = Some e' \<and> mirrors_by R (snd c) e'))"

definition mirrors :: "disk \<Rightarrow> key_entry \<Rightarrow> bool" where
  "mirrors = mirrors_by (\<lambda>ns obs. length obs = length ns)"

definition mirrors_names :: "disk \<Rightarrow> key_entry \<Rightarrow> bool" where
  "mirrors_names = mirrors_by (\<lambda>ns obs. map file_name obs = ns)"

lemma depth_child: "c \<in> set cs \<Longrightarrow> disk_depth (snd c) < disk_depth (DiskDir cs)"
  by (induction cs) auto

definition clean_entry :: "('fs, 'h, 'db) outside \<Rightarrow> path \<Rightarrow> string \<times> disk \<Rightarrow> bool" where
  "clean_entry ot p c \<longleftrightarrow>
     (if snd c = DiskFile then normalize_file (ot_nano ot (p @ [fst c])) (p @ [fst c]) = Inr (Not (fst c))
      else normalize_path True (ot_nano ot (p @ [fst c])) (p @ [fst c]) = Inr (Not (fst c)))"

lemma clean_entry_kept:
  "shows_disk ot fs (p @ [fst c]) (snd c) \<Longrightarrow> clean_entry ot p c \<Longrightarrow>
     file_name_normalize ot (p @ [fst c]) fs = Inr (Some (p @ [fst c], fst c), fs)
     \<and> os_is_dir (ot_os ot) fs (p @ [fst c]) = (snd c \<noteq> DiskFile)"
  by (cases "snd c") (auto simp: clean_entry_def file_name_normalize_def)

definition mirrored :: "(string list \<Rightarrow> object list \<Rightarrow> bool) \<Rightarrow> 'fs \<Rightarrow> path \<Rightarrow> (string \<times> disk) list \<Rightarrow> path list
    \<Rightarrow> (segment, key_entry) btree \<Rightarrow> ((path list \<times> (segment, key_entry) btree) \<times> ('fs, 'db) building) run \<Rightarrow> bool" where
  "mirrored R fs p cs objects keys r \<longleftrightarrow>
     (\<forall>objs ks st'. r = Inr ((objs, ks), st') \<longrightarrow> bs_fs st' = fs
        \<and> objs = objects @ map (\<lambda>n. p @ [n]) (file_names cs)
        \<and> (\<forall>s. seg_str s \<notin> set (dir_names cs) \<longrightarrow> bt_get ks s = bt_get keys s)
        \<and> (\<forall>c \<in> set cs. snd c \<noteq> DiskFile \<longrightarrow> (\<exists>e'. bt_get ks (Segment (fst c)) = Some e' \<and> mirrors_by R (snd c) e')))"

lemma mirrored_file:
  "mirrored R fs p cs (objects @ [p @ [fst c]]) keys r \<Longrightarrow> snd c = DiskFile \<Longrightarrow> mirrored R fs p (c # cs) objects keys r"
  unfolding mirrored_def by (auto simp: dir_names_def file_names_def)

lemma mirrored_dir:
  assumes "mirrored R fs p cs objects (bt_insert (Segment (fst c)) ke keys) r" "snd c \<noteq> DiskFile" "mirrors_by R (snd c) ke"
    and "fst c \<notin> set (map fst cs)"
  shows "mirrored R fs p (c # cs) objects keys r"
proof -
  have "seg_str (Segment (fst c)) \<notin> set (dir_names cs)" using assms(4) by (auto simp: dir_names_def)
  moreover have "s \<noteq> Segment (fst c)" if "seg_str s \<notin> set (dir_names (c # cs))" for s
    using that assms(2) by (auto simp: dir_names_def)
  moreover have "set (dir_names cs) \<subseteq> set (dir_names (c # cs))" by (auto simp: dir_names_def)
  moreover have "file_names (c # cs) = file_names cs" using assms(2) by (simp add: file_names_def)
  ultimately show ?thesis using assms(1-3) unfolding mirrored_def by (fastforce simp del: split_paired_All)
qed

definition builds_sub :: "(string list \<Rightarrow> object list \<Rightarrow> bool) \<Rightarrow> 'fs
    \<Rightarrow> (path \<Rightarrow> ('fs, 'db) building \<Rightarrow> (key_entry \<times> ('fs, 'db) building) run option) \<Rightarrow> path \<Rightarrow> string \<times> disk \<Rightarrow> bool" where
  "builds_sub R fs sub p c \<longleftrightarrow> (\<forall>st. snd c \<noteq> DiskFile \<longrightarrow> bs_fs st = fs \<longrightarrow>
     (\<exists>r. sub (p @ [fst c]) st = Some r \<and> (\<forall>ke st'. r = Inr (ke, st') \<longrightarrow> mirrors_by R (snd c) ke \<and> bs_fs st' = fs)))"

lemma builds_subD:
  "builds_sub R fs sub p c \<Longrightarrow> snd c \<noteq> DiskFile \<Longrightarrow> bs_fs st = fs \<Longrightarrow>
     \<exists>r. sub (p @ [fst c]) st = Some r \<and> (\<forall>ke st'. r = Inr (ke, st') \<longrightarrow> mirrors_by R (snd c) ke \<and> bs_fs st' = fs)"
  by (simp add: builds_sub_def)

lemma entries_loop_mirrors:
  assumes "\<forall>c \<in> set cs. builds_sub R fs sub p c \<and> shows_disk ot fs (p @ [fst c]) (snd c) \<and> clean_entry ot p c"
    and "distinct (map fst cs)" "bs_fs st = fs"
  shows "\<exists>r. entries_loop ot sub (map (\<lambda>c. Some (p @ [fst c])) cs) objects keys st = Some r
    \<and> mirrored R fs p cs objects keys r"
  using assms
proof (induction cs arbitrary: objects keys st)
  case Nil
  then show ?case by (simp add: mirrored_def file_names_def)
next
  case (Cons c cs)
  have rest: "\<forall>c \<in> set cs. builds_sub R fs sub p c \<and> shows_disk ot fs (p @ [fst c]) (snd c) \<and> clean_entry ot p c"
    "distinct (map fst cs)" "fst c \<notin> set (map fst cs)" using Cons.prems by auto
  note IH = Cons.IH[OF rest(1,2)]
  have c: "file_name_normalize ot (p @ [fst c]) fs = Inr (Some (p @ [fst c], fst c), fs)"
    "os_is_dir (ot_os ot) fs (p @ [fst c]) = (snd c \<noteq> DiskFile)"
    using clean_entry_kept[of ot fs p c] Cons.prems(1) by simp_all
  have st: "bs_fs st = fs" "st\<lparr>bs_fs := fs\<rparr> = st" using Cons.prems(3) by simp_all
  show ?case
  proof (cases "snd c = DiskFile")
    case True
    obtain r where r: "entries_loop ot sub (map (\<lambda>c. Some (p @ [fst c])) cs) (objects @ [p @ [fst c]]) keys st = Some r"
      "mirrored R fs p cs (objects @ [p @ [fst c]]) keys r"
      using IH[OF st(1), of "objects @ [p @ [fst c]]" keys] by blast
    have "entries_loop ot sub (map (\<lambda>c. Some (p @ [fst c])) (c # cs)) objects keys st = Some r"
      using r(1) c True by (simp add: Let_def st)
    with mirrored_file[OF r(2) True] show ?thesis by blast
  next
    case False
    have "builds_sub R fs sub p c" using Cons.prems(1) by simp
    from builds_subD[OF this False st(1)] obtain r1 where r1: "sub (p @ [fst c]) st = Some r1"
      "\<forall>ke st'. r1 = Inr (ke, st') \<longrightarrow> mirrors_by R (snd c) ke \<and> bs_fs st' = fs"
      by blast
    show ?thesis
    proof (cases r1)
      case (Inl e)
      have "entries_loop ot sub (map (\<lambda>c. Some (p @ [fst c])) (c # cs)) objects keys st = Some (Inl e)"
        using r1(1) c False Inl by (simp add: Let_def st)
      then show ?thesis by (simp add: mirrored_def)
    next
      case (Inr ks1)
      obtain ke st1 where k: "ks1 = (ke, st1)" by (cases ks1)
      have m: "mirrors_by R (snd c) ke" "bs_fs st1 = fs" using r1(2) Inr k by auto
      obtain r where r:
        "entries_loop ot sub (map (\<lambda>c. Some (p @ [fst c])) cs) objects (bt_insert (Segment (fst c)) ke keys) st1 = Some r"
        "mirrored R fs p cs objects (bt_insert (Segment (fst c)) ke keys) r"
        using IH[OF m(2), of objects "bt_insert (Segment (fst c)) ke keys"] by blast
      have "entries_loop ot sub (map (\<lambda>c. Some (p @ [fst c])) (c # cs)) objects keys st = Some r"
        using r(1) c False r1(1) Inr k by (simp add: Let_def st)
      with mirrored_dir[OF r(2) False m(1) rest(3)] show ?thesis by blast
    qed
  qed
qed

text \<open>The objects that the files of a directory are synchronised to.\<close>

definition synced :: "(string list \<Rightarrow> object list \<Rightarrow> bool) \<Rightarrow> ('fs, 'h, 'db) outside \<Rightarrow> bucket \<Rightarrow> bool" where
  "synced R ot b \<longleftrightarrow> (\<forall>k p ns st obs st'. (\<forall>n \<in> set ns. \<exists>nano. normalize_file nano (p @ [n]) = Inr (Not n)) \<longrightarrow>
     sync_objects ot b k (map (\<lambda>n. p @ [n]) ns) st = Inr (obs, st') \<longrightarrow> R ns obs)"

lemma synced_count: "synced (\<lambda>ns obs. length obs = length ns) ot b"
  unfolding synced_def by (auto dest: sync_objects_frame)

lemma normalized_file_named:
  assumes "normalize_file nano (p @ [n]) = Inr (Not n)"
  shows "path_file_name (p @ [n]) = Some n" "os_to_str n = Some n"
  using normalize_file_NotD[OF assms] by (auto simp: path_file_name_def split: if_splits)

lemma sync_file_named:
  assumes "find_one_law (ot_mongo ot)" "normalize_file nano (p @ [n]) = Inr (Not n)"
    and "sync_file ot b k (p @ [n]) st = Inr (ob, st')"
  shows "file_name ob = n"
proof -
  note n = normalized_file_named[OF assms(2)]
  have add: "add_object ot b k (p @ [n]) st1 = Inr (ob, st') \<Longrightarrow> file_name ob = n" for st1
    using n(1) by (auto simp: add_object_def and_then_eq_Inr dest!: object_new_name)
  obtain r db where r: "get_object_filename (ot_mongo ot) (ot_ls ot) b k n (bs_db st) = Inr (r, db)"
    "(case r of Inr (Some x) \<Rightarrow> and_then (unwrap (ao_id x)) (\<lambda>i. Inr (ao_object x, st\<lparr>bs_db := db, bs_ids := bs_ids st @ [i]\<rparr>))
      | _ \<Rightarrow> add_object ot b k (p @ [n]) (st\<lparr>bs_db := db\<rparr>)) = Inr (ob, st')"
    using assms(3) n by (auto simp: sync_file_def and_then_eq_Inr)
  show ?thesis
  proof (cases "\<exists>x. r = Inr (Some x)")
    case True
    then obtain x where x: "r = Inr (Some x)" ..
    with r(2) have "ob = ao_object x" by (auto simp: and_then_eq_Inr)
    with get_object_filename_named[OF assms(1) r(1)[unfolded x]] show ?thesis by simp
  next
    case False
    with r(2) have "add_object ot b k (p @ [n]) (st\<lparr>bs_db := db\<rparr>) = Inr (ob, st')"
      by (auto split: sum.splits option.splits)
    then show ?thesis by (rule add)
  qed
qed

lemma sync_objects_named:
  assumes "find_one_law (ot_mongo ot)" "\<forall>n \<in> set ns. \<exists>nano. normalize_file nano (p @ [n]) = Inr (Not n)"
    and "sync_objects ot b k (map (\<lambda>n. p @ [n]) ns) st = Inr (obs, st')"
  shows "map file_name obs = ns"
  using assms(2,3)
proof (induction ns arbitrary: st obs)
  case (Cons n ns)
  then show ?case using sync_file_named[OF assms(1)] by (fastforce simp: and_then_eq_Inr)
qed simp

lemma synced_names: "find_one_law (ot_mongo ot) \<Longrightarrow> synced (\<lambda>ns obs. map file_name obs = ns) ot b"
  unfolding synced_def using sync_objects_named by blast

lemma from_bucket_inside:
  assumes "\<forall>c \<in> set p. utf8_valid c" "bucket_name b \<in> set p"
  shows "\<exists>k. from_bucket b p = Some k"
proof -
  obtain xs ys where p: "p = xs @ bucket_name b # ys" using assms(2) by (auto dest: split_list)
  have "path_to_str p = Some (path_str p)"
    using path_str_valid[OF assms(1)] by (simp add: path_to_str_def)
  moreover have "split_once (bucket_name b) (path_str p) \<noteq> None"
    using path_str_below[of xs "bucket_name b" ys] split_once_None_iff p
    by (metis append.assoc)
  ultimately show ?thesis by (auto simp: from_bucket_def)
qed

lemma finish_mirrors:
  assumes "finish_entry ot b p ((objs, ks), st) = Inr (ke, st')" "mirrored R fs p cs [] [] (Inr ((objs, ks), st))"
    and "synced R ot b" "\<forall>n \<in> set (file_names cs). \<exists>nano. normalize_file nano (p @ [n]) = Inr (Not n)"
  shows "mirrors_by R (DiskDir cs) ke \<and> bs_fs st' = fs"
proof -
  obtain k obs st2 where o: "sync_objects ot b k objs st = Inr (obs, st2)"
    "ke = KeyEntry (if obs = [] then None else Some obs) (if ks = [] then None else Some ks) (bs_broker st2)"
    "st' = st2\<lparr>bs_broker := Suc (bs_broker st2)\<rparr>"
    using assms(1) by (auto simp: finish_entry_def and_then_eq_Inr)
  have e: "opt_default [] (ke_objects ke) = obs" "opt_default [] (ke_keys ke) = ks" "ke_keys ke = None \<longleftrightarrow> ks = []"
    by (simp_all add: o(2))
  have m: "bs_fs st = fs" "objs = map (\<lambda>n. p @ [n]) (file_names cs)"
    "\<And>s. seg_str s \<notin> set (dir_names cs) \<Longrightarrow> bt_get ks s = None"
    "\<forall>c \<in> set cs. snd c \<noteq> DiskFile \<longrightarrow> (\<exists>e'. bt_get ks (Segment (fst c)) = Some e' \<and> mirrors_by R (snd c) e')"
    using assms(2) by (auto simp: mirrored_def)
  have keys: "bt_get ks s \<noteq> None \<longleftrightarrow> (\<exists>c \<in> set cs. snd c \<noteq> DiskFile \<and> s = Segment (fst c))" for s
  proof
    assume "bt_get ks s \<noteq> None"
    then have "seg_str s \<in> set (dir_names cs)" using m(3)[of s] by (cases "seg_str s \<in> set (dir_names cs)") simp_all
    then show "\<exists>c \<in> set cs. snd c \<noteq> DiskFile \<and> s = Segment (fst c)" by (cases s) (auto simp: dir_names_def)
  qed (use m(4) in auto)
  have "ks \<noteq> [] \<longleftrightarrow> (\<exists>s. bt_get ks s \<noteq> None)" by (cases ks) (auto simp: bt_get_def)
  also have "\<dots> \<longleftrightarrow> dir_names cs \<noteq> []" unfolding keys by (auto simp: dir_names_def filter_empty_conv)
  finally have table: "ks \<noteq> [] \<longleftrightarrow> dir_names cs \<noteq> []" .
  have "R (file_names cs) obs"
    using assms(3,4) o(1) unfolding synced_def m(2) by blast
  moreover have "bs_fs st' = fs" using m(1) sync_objects_frame[OF o(1)] o(3) by simp
  ultimately show ?thesis
    using m(4) keys table unfolding mirrors_by.simps e by blast
qed

lemma build_mirrors_by:
  assumes "shows_disk ot (bs_fs st) p (DiskDir cs)" "disk_depth (DiskDir cs) \<le> fuel"
    and "\<forall>c \<in> set p. utf8_valid c" "bucket_name b \<in> set p" and synced: "synced R ot b"
  shows "\<exists>r. build_key_entry fuel ot b p st = Some r
    \<and> (\<forall>ke st'. r = Inr (ke, st') \<longrightarrow> mirrors_by R (DiskDir cs) ke \<and> bs_fs st' = bs_fs st)"
  using assms(1-4)
proof (induction fuel arbitrary: p cs st)
  case (Suc fuel)
  let ?fs = "bs_fs st"
  have entry: "shows_disk ot ?fs (p @ [fst c]) (snd c)" "clean_entry ot p c" if "c \<in> set cs" for c
    using Suc.prems(1) that by (simp_all add: clean_entry_def)
  have "builds_sub R ?fs (build_key_entry fuel ot b) p c" if c: "c \<in> set cs" for c
    unfolding builds_sub_def
  proof (intro allI impI)
    fix st1 :: "('a, 'c) building"
    assume a: "snd c \<noteq> DiskFile" "bs_fs st1 = ?fs"
    obtain ds where ds: "snd c = DiskDir ds" using a(1) by (cases "snd c") auto
    have "utf8_valid (fst c)"
      using entry(2)[OF c] a(1) normalize_path_NotD(2) name_char_ascii
      by (intro utf8_valid_all_ascii) (auto simp: clean_entry_def)
    then have v: "\<forall>x \<in> set (p @ [fst c]). utf8_valid x" using Suc.prems(3) by auto
    have d: "disk_depth (DiskDir ds) \<le> fuel" using depth_child[OF c] Suc.prems(2) ds by simp
    have s: "shows_disk ot (bs_fs st1) (p @ [fst c]) (DiskDir ds)" using entry(1)[OF c] unfolding ds a(2) .
    from Suc.IH[OF s d v] Suc.prems(4) a(2) ds
    show "\<exists>r. build_key_entry fuel ot b (p @ [fst c]) st1 = Some r
        \<and> (\<forall>ke st'. r = Inr (ke, st') \<longrightarrow> mirrors_by R (snd c) ke \<and> bs_fs st' = ?fs)" by simp
  qed
  then obtain r where r: "entries_loop ot (build_key_entry fuel ot b) (map (\<lambda>c. Some (p @ [fst c])) cs) [] [] st = Some r"
    "mirrored R ?fs p cs [] [] r"
    using entries_loop_mirrors[of cs R ?fs "build_key_entry fuel ot b" p ot st "[]" "[]"] entry Suc.prems(1) by auto
  have files: "\<forall>n \<in> set (file_names cs). \<exists>nano. normalize_file nano (p @ [n]) = Inr (Not n)"
    using entry(2) by (fastforce simp: file_names_def clean_entry_def)
  have "mirrors_by R (DiskDir cs) ke \<and> bs_fs st' = ?fs" if fin: "and_then r (finish_entry ot b p) = Inr (ke, st')" for ke st'
  proof -
    obtain x where x: "r = Inr x" "finish_entry ot b p x = Inr (ke, st')"
      using fin by (cases r) simp_all
    obtain objs ks st1 where "x = ((objs, ks), st1)" by (metis surj_pair)
    with finish_mirrors[of ot b p objs ks st1 ke st' R ?fs cs] x r(2) synced files show ?thesis by simp
  qed
  moreover have "build_key_entry (Suc fuel) ot b p st = Some (and_then r (finish_entry ot b p))"
    using r(1) Suc.prems(1) by simp
  ultimately show ?case by blast
qed simp

section \<open>Properties\<close>

text \<open>
  A small disk: the root holds one bucket, which holds a file and a directory. Renaming works, and moves
  what a listing of the bucket's old path gives away.
\<close>

definition sample_os :: "(bool, unit) os" where
  "sample_os = \<lparr>os_metadata = (\<lambda>_ _. None), os_open = (\<lambda>_ _. Inl ''closed''),
     os_is_dir = (\<lambda>_ p. p = [''r'', ''b''] \<or> p = [''r'', ''b'', ''d'']),
     os_rename = (\<lambda>a b fs. (True, False)),
     os_now_local = (\<lambda>_. Some \<lparr>dt_nanos = 0, dt_offset = 0\<rparr>),
     os_sha256 = \<lparr>dg_new = (), dg_update = (\<lambda>_ _. ()), dg_hex = (\<lambda>_. [])\<rparr>\<rparr>"

definition sample_list :: "bool list_dir" where
  "sample_list fs p =
     (if p = [''r''] then Some [Some [''r'', ''b'']]
      else if p = [''s''] then Some [Some [''s'', ''-b'']]
      else if p = [''r'', ''b''] then Some [Some [''r'', ''b'', ''f''], Some [''r'', ''b'', ''d'']]
      else if p = [''r'', ''b'', ''d''] then Some []
      else None)"

definition sample_outside :: "(bool, unit, bson list) outside" where
  "sample_outside = \<lparr>ot_os = sample_os, ot_list = sample_list, ot_nano = (\<lambda>_. ''x''), ot_mongo = list_mongo,
     ot_ls = \<lparr>ls_database = Some ''files''\<rparr>\<rparr>"

definition sample_disk :: disk where
  "sample_disk = DiskDir [(''f'', DiskFile), (''d'', DiskDir [])]"

definition empty_map :: "path \<Rightarrow> bucket_map" where
  "empty_map root = \<lparr>bm_path = root, bm_tree = [], bm_broker = 0, next_broker = 1\<rparr>"

lemma sample_build: "\<exists>m fs db. build 3 sample_outside (empty_map [''r'']) True [] = Some (Inr (m, fs, db))"
proof -
  have "(case build 3 sample_outside (empty_map [''r'']) True [] of Some (Inr _) \<Rightarrow> True | _ \<Rightarrow> False)"
    by code_simp
  then show ?thesis by (auto split: option.splits sum.splits)
qed

text \<open>
  C16. Whatever is found on disk and in the database, a build that ends leaves a tree that satisfies its
  invariant: its maps are ordered at every level, and each directory has a broker of its own. This is the
  invariant every change keeps.
\<close>

theorem build_establishes_inv:
  assumes "bucket_map_new ex dr root = Inr m" "build fuel ot m fs db = Some (Inr (m', fs', db'))"
  shows "bm_inv m'"
proof -
  have m: "bm_broker m = 0" "next_broker m = 1"
    using assms(1) by (auto simp: bucket_map_new_def split: if_splits)
  obtain bs fs1 inner st where b: "build_buckets fuel ot bs []
      \<lparr>bs_fs = fs1, bs_db = db, bs_ids = [], bs_broker = next_broker m\<rparr> = Some (Inr (inner, st))"
    "m' = m\<lparr>bm_tree := inner, next_broker := bs_broker st\<rparr>"
    using assms(2) by (auto simp: build_def and_then_eq_Inr split: sum.split_asm)
  have "fresh_table 1 (bs_broker st) inner"
    by (rule build_buckets_fresh[OF b(1)]) (simp add: m)
  then show ?thesis
    by (intro fresh_table_inv[of 1 "bs_broker st"]) (simp_all add: b(2) m)
qed

theorem build_establishes_inv_witness:
  "\<exists>m fs db. build 3 sample_outside (empty_map [''r'']) True [] = Some (Inr (m, fs, db)) \<and> bm_inv m"
proof -
  obtain m fs db where b: "build 3 sample_outside (empty_map [''r'']) True [] = Some (Inr (m, fs, db))"
    using sample_build by blast
  have "bucket_map_new True True [''r''] = Inr (empty_map [''r''])"
    by (simp add: bucket_map_new_def empty_map_def)
  from build_establishes_inv[OF this b] b show ?thesis by blast
qed

text \<open>
  C17. On a bucket whose names are clean already, a build with as much fuel as the directories are deep
  ends, renames nothing, and unless it panics its entry mirrors the disk: a subdirectory for each
  directory and an object for each file, at every level; and these objects have the names of the files when
  the database answers the documents it is asked for.
\<close>

theorem build_mirrors_disk:
  assumes "shows_disk ot (bs_fs st) p (DiskDir cs)" "disk_depth (DiskDir cs) \<le> fuel"
    and "\<forall>c \<in> set p. utf8_valid c" "bucket_name b \<in> set p"
  shows "\<exists>r. build_key_entry fuel ot b p st = Some r
    \<and> (\<forall>ke st'. r = Inr (ke, st') \<longrightarrow> mirrors (DiskDir cs) ke \<and> bs_fs st' = bs_fs st
          \<and> (find_one_law (ot_mongo ot) \<longrightarrow> mirrors_names (DiskDir cs) ke))"
proof -
  obtain r where r: "build_key_entry fuel ot b p st = Some r"
    "\<forall>ke st'. r = Inr (ke, st') \<longrightarrow> mirrors (DiskDir cs) ke \<and> bs_fs st' = bs_fs st"
    using build_mirrors_by[OF assms synced_count] unfolding mirrors_def by blast
  have "mirrors_names (DiskDir cs) ke" if "find_one_law (ot_mongo ot)" "r = Inr (ke, st')" for ke st'
    using build_mirrors_by[OF assms synced_names[OF that(1)]] r(1) that(2) unfolding mirrors_names_def by auto
  with r show ?thesis by blast
qed

definition sample_start :: "(bool, bson list) building" where
  "sample_start = \<lparr>bs_fs = True, bs_db = [], bs_ids = [], bs_broker = 1\<rparr>"

theorem build_mirrors_disk_witness:
  "\<exists>ke st. build_key_entry 2 sample_outside (Bucket ''b'') [''r'', ''b''] sample_start = Some (Inr (ke, st))
     \<and> mirrors sample_disk ke \<and> mirrors_names sample_disk ke"
proof -
  have "(case build_key_entry 2 sample_outside (Bucket ''b'') [''r'', ''b''] sample_start of Some (Inr _) \<Rightarrow> True | _ \<Rightarrow> False)"
    by code_simp
  then obtain ke st where k: "build_key_entry 2 sample_outside (Bucket ''b'') [''r'', ''b''] sample_start = Some (Inr (ke, st))"
    by (auto split: option.splits sum.splits)
  have f: "normalize_file ''x'' [''r'', ''b'', ''f''] = Inr (Not ''f'')" by code_simp
  have d: "normalize_path True ''x'' [''r'', ''b'', ''d''] = Inr (Not ''d'')" by code_simp
  have v: "utf8_valid ''r''" "utf8_valid ''b''" by code_simp+
  have "shows_disk sample_outside (bs_fs sample_start) [''r'', ''b''] (DiskDir [(''f'', DiskFile), (''d'', DiskDir [])])"
    using f d by (simp add: sample_outside_def sample_os_def sample_list_def)
  from build_mirrors_disk[OF this, of 2 "Bucket ''b''"] v k list_mongo_find_one show ?thesis
    by (simp add: sample_disk_def sample_outside_def)
qed

text \<open>
  A bucket that has to be renamed when the service starts stops it: the renamed directory is listed
  under its old path, which is not there any more.
\<close>

theorem unclean_bucket_stops_build:
  assumes "ot_list ot fs (bm_path m) = Some [Some p]" "normalize_path True (ot_nano ot p) p = Inr (Yes r)"
    and "os_rename (ot_os ot) (path_join (rn_parent r) (rn_from r)) (path_join (rn_parent r) (rn_to r)) fs = (True, fs')"
    and "ot_list ot fs' p = None"
  shows "build (Suc fuel) ot m fs db = Some (Inl UnwrapErr)"
  using assms by (simp add: build_def list_buckets_and_normalize_def)

theorem unclean_bucket_stops_build_witness:
  "build (Suc 0) sample_outside (empty_map [''s'']) True [] = Some (Inl UnwrapErr)"
proof -
  have n: "normalize_path True (ot_nano sample_outside [''s'', ''-b'']) [''s'', ''-b'']
      = Inr (Yes \<lparr>rn_parent = [''s''], rn_from = ''-b'', rn_to = ''b''\<rparr>)"
    by code_simp
  show ?thesis
    by (rule unclean_bucket_stops_build[OF _ n, where fs' = False])
      (simp_all add: sample_outside_def sample_os_def sample_list_def empty_map_def)
qed

text \<open>
  Documents of files that are new do not survive the build that adds them: only the identifiers of documents
  found are kept, and the others are deleted at the end. The tree has the object, the database does not.
\<close>

lemma build_forgets_new_files:
  "case build 3 sample_outside (empty_map [''r'']) True [] of
     Some (Inr (m, fs, db)) \<Rightarrow> db = [] \<and> get_object m (Bucket ''b'') key_root ''f'' \<noteq> None
   | _ \<Rightarrow> False"
  by code_simp

lemma added_object_not_seen: "add_object ot b k p st = Inr (ob, st') \<Longrightarrow> bs_ids st' = bs_ids st"
  by (auto simp: add_object_def and_then_eq_Inr)

end
