(* ===== verification/Ip_Addr.thy ===== *)
theory Ip_Addr
  imports Prelude "HOL-Library.Word"
begin

text \<open>
  How the Rust standard library reads an \<^verbatim>\<open>IpAddr\<close> from text (\<^verbatim>\<open>core::net::parser\<close>): an
  IPv4 address of four decimal numbers, or else an IPv6 address with at most one \<open>::\<close> and possibly an
  IPv4 address in its last two groups; nothing may follow. Readers give the value and the rest.
\<close>

datatype ip_addr = V4 "8 word list" | V6 "16 word list"

definition to_digit :: "nat \<Rightarrow> char \<Rightarrow> nat option" where
  "to_digit radix c =
     (let n = of_char c :: nat;
          d = (if 48 \<le> n \<and> n \<le> 57 then n - 48
               else if 97 \<le> n \<and> n \<le> 122 then n - 87
               else if 65 \<le> n \<and> n \<le> 90 then n - 55 else radix)
      in if d < radix then Some d else None)"

text \<open>Reads digits as long as there are some; more than the bound is an error.\<close>

fun read_digits :: "nat \<Rightarrow> nat \<Rightarrow> nat \<Rightarrow> nat \<Rightarrow> string \<Rightarrow> (nat \<times> nat \<times> string) option" where
  "read_digits radix bnd acc n [] = Some (acc, n, [])"
| "read_digits radix bnd acc n (c # s) =
     (case to_digit radix c of
        None \<Rightarrow> Some (acc, n, c # s)
      | Some d \<Rightarrow> if bnd < Suc n then None else read_digits radix bnd (acc * radix + d) (Suc n) s)"

definition read_number :: "nat \<Rightarrow> nat \<Rightarrow> nat \<Rightarrow> bool \<Rightarrow> string \<Rightarrow> (nat \<times> string) option" where
  "read_number radix bnd limit zero_prefix s =
     (case read_digits radix bnd 0 0 s of
        None \<Rightarrow> None
      | Some (v, n, rest) \<Rightarrow>
          if n = 0 \<or> \<not> zero_prefix \<and> take 1 s = ''0'' \<and> 1 < n \<or> limit \<le> v then None else Some (v, rest))"

definition read_char :: "char \<Rightarrow> string \<Rightarrow> string option" where
  "read_char c s = (case s of [] \<Rightarrow> None | x # xs \<Rightarrow> if x = c then Some xs else None)"

definition read_octet :: "string \<Rightarrow> (nat \<times> string) option" where
  "read_octet s = read_number 10 3 256 False s"

text \<open>A separator is read before every element but the first.\<close>

definition read_separated :: "char \<Rightarrow> bool \<Rightarrow> (string \<Rightarrow> ('a \<times> string) option) \<Rightarrow> string \<Rightarrow> ('a \<times> string) option" where
  "read_separated c first rd s = (if first then rd s else Option.bind (read_char c s) rd)"

fun read_octets :: "nat \<Rightarrow> bool \<Rightarrow> string \<Rightarrow> (8 word list \<times> string) option" where
  "read_octets 0 first s = Some ([], s)"
| "read_octets (Suc k) first s =
     (case read_separated CHR ''.'' first read_octet s of
        None \<Rightarrow> None
      | Some (v, s') \<Rightarrow> map_option (\<lambda>(os, r). (of_nat v # os, r)) (read_octets k False s'))"

definition read_ipv4 :: "string \<Rightarrow> (8 word list \<times> string) option" where
  "read_ipv4 s = read_octets 4 True s"

definition group_of_octets :: "8 word \<Rightarrow> 8 word \<Rightarrow> 16 word" where
  "group_of_octets a b = of_nat (unat a * 256 + unat b)"

text \<open>An IPv4 address ends the groups and is tried where two groups are left.\<close>

fun read_groups :: "nat \<Rightarrow> bool \<Rightarrow> string \<Rightarrow> 16 word list \<times> bool \<times> string" where
  "read_groups 0 first s = ([], False, s)"
| "read_groups (Suc k) first s =
     (case (if 0 < k then read_separated CHR '':'' first read_ipv4 s else None) of
        Some (os, r) \<Rightarrow> ([group_of_octets (os ! 0) (os ! 1), group_of_octets (os ! 2) (os ! 3)], True, r)
      | None \<Rightarrow>
          (case read_separated CHR '':'' first (read_number 16 4 65536 True) s of
             None \<Rightarrow> ([], False, s)
           | Some (g, s') \<Rightarrow> (case read_groups k False s' of (gs, v4, r) \<Rightarrow> (of_nat g # gs, v4, r))))"

definition read_ipv6 :: "string \<Rightarrow> (16 word list \<times> string) option" where
  "read_ipv6 s =
     (case read_groups 8 True s of (front, v4, s1) \<Rightarrow>
        if length front = 8 then Some (front, s1)
        else if v4 then None
        else
          (case Option.bind (read_char CHR '':'' s1) (read_char CHR '':'') of
             None \<Rightarrow> None
           | Some s2 \<Rightarrow>
               (case read_groups (7 - length front) True s2 of (back, _, s3) \<Rightarrow>
                  Some (front @ replicate (8 - length front - length back) 0 @ back, s3))))"

definition parse_ip :: "string \<Rightarrow> ip_addr option" where
  "parse_ip s =
     (case (case read_ipv4 s of
              Some (os, r) \<Rightarrow> Some (V4 os, r)
            | None \<Rightarrow> map_option (\<lambda>(gs, r). (V6 gs, r)) (read_ipv6 s)) of
        Some (ip, []) \<Rightarrow> Some ip
      | _ \<Rightarrow> None)"

text \<open>How an IPv4 address prints.\<close>

definition show_ipv4 :: "8 word list \<Rightarrow> string" where
  "show_ipv4 os = join_with ''.'' (map (\<lambda>b. show_nat (unat b)) os)"

text \<open>
  How an IPv6 address prints: a mapped IPv4 address as such, otherwise the first of the longest runs of two
  or more zero groups as \<open>::\<close>.
\<close>

definition hex_digit :: "nat \<Rightarrow> char" where
  "hex_digit d = (if d < 10 then digit d else char_of (87 + d))"

fun show_hex :: "nat \<Rightarrow> string" where
  "show_hex n = (if n < 16 then [hex_digit n] else show_hex (n div 16) @ [hex_digit (n mod 16)])"

declare show_hex.simps [simp del]

definition show_groups :: "16 word list \<Rightarrow> string" where
  "show_groups gs = join_with '':'' (map (\<lambda>g. show_hex (unat g)) gs)"

definition zero_run :: "16 word list \<Rightarrow> nat \<times> nat" where
  "zero_run gs =
     foldl (\<lambda>(st, n) i. let r = length (takeWhile (\<lambda>g. g = 0) (drop i gs)) in if n < r then (i, r) else (st, n))
       (0, 0) [0..<length gs]"

definition show_ipv6 :: "16 word list \<Rightarrow> string" where
  "show_ipv6 gs =
     (if take 6 gs = [0, 0, 0, 0, 0, 0xffff]
      then ''::ffff:'' @ show_ipv4 (concat (map (\<lambda>g. [of_nat (unat g div 256), of_nat (unat g mod 256)]) (drop 6 gs)))
      else
        (case zero_run gs of (st, n) \<Rightarrow>
           if 1 < n then show_groups (take st gs) @ ''::'' @ show_groups (drop (st + n) gs) else show_groups gs))"

fun show_ip :: "ip_addr \<Rightarrow> string" where
  "show_ip (V4 os) = show_ipv4 os"
| "show_ip (V6 gs) = show_ipv6 gs"

section \<open>Reading back a printed address\<close>

lemma to_digit_digit [simp]: "d < 10 \<Longrightarrow> to_digit 10 (digit d) = Some d"
  by (simp add: to_digit_def of_char_digit)

definition stops :: "string \<Rightarrow> bool" where
  "stops s \<longleftrightarrow> (case s of [] \<Rightarrow> True | c # _ \<Rightarrow> to_digit 10 c = None)"

lemma read_digits_stop: "stops s \<Longrightarrow> read_digits 10 bnd acc n s = Some (acc, n, s)"
  by (cases s) (auto simp: stops_def)

lemma digit_0: "digit 0 = CHR ''0''"
  by code_simp

lemma digit_zero: "d < 10 \<Longrightarrow> digit d = CHR ''0'' \<longleftrightarrow> d = 0"
proof
  assume "d < 10" "digit d = CHR ''0''"
  then have "(of_char (digit d) :: nat) = of_char (CHR ''0'')" by simp
  then show "d = 0" using \<open>d < 10\<close> by (simp add: of_char_digit)
qed (simp add: digit_0)

lemma octet_digits:
  assumes "c < 10" "stops s"
  shows "read_octet (digit c # s) = Some (c, s)"
    "b < 10 \<Longrightarrow> 0 < b \<Longrightarrow> read_octet (digit b # digit c # s) = Some (b * 10 + c, s)"
    "a < 10 \<Longrightarrow> 0 < a \<Longrightarrow> b < 10 \<Longrightarrow> (a * 10 + b) * 10 + c < 256
     \<Longrightarrow> read_octet (digit a # digit b # digit c # s) = Some ((a * 10 + b) * 10 + c, s)"
  using assms by (simp_all add: read_octet_def read_number_def read_digits_stop digit_zero)

lemma read_octet_show:
  assumes "n < 256" "stops s"
  shows "read_octet (show_nat n @ s) = Some (n, s)"
proof -
  consider "n < 10" | "10 \<le> n" "n < 100" | "100 \<le> n" by linarith
  then show ?thesis
  proof cases
    case 1
    then show ?thesis using assms by (simp add: show_nat.simps[of n] octet_digits)
  next
    case 2
    then have "n div 10 < 10" "0 < n div 10" by auto
    then show ?thesis
      using 2 assms octet_digits(2)[of "n mod 10" s "n div 10"]
      by (simp add: show_nat.simps[of n] show_nat.simps[of "n div 10"] mult.commute)
  next
    case 3
    then have d: "n div 10 < 100" "10 \<le> n div 10" "n div 10 div 10 < 10" "0 < n div 10 div 10"
      using assms(1) by auto
    have "show_nat n = [digit (n div 10 div 10), digit (n div 10 mod 10), digit (n mod 10)]"
      using d 3 by (simp add: show_nat.simps[of n] show_nat.simps[of "n div 10"] show_nat.simps[of "n div 10 div 10"])
    moreover have e: "(n div 10 div 10 * 10 + n div 10 mod 10) * 10 + n mod 10 = n" by presburger
    ultimately show ?thesis
      using octet_digits(3)[of "n mod 10" s "n div 10 div 10" "n div 10 mod 10"] d assms
      by (simp only: e) simp
  qed
qed

lemma stops_dot [simp]: "stops (CHR ''.'' # s)" "stops []"
  by (simp_all add: stops_def to_digit_def)

lemma unat_octet [simp]: "unat (b :: 8 word) < 256"
  using unsigned_less[of b] by simp

lemma read_octets_show:
  "bs \<noteq> [] \<Longrightarrow>
   read_octets (length bs) first ((if first then [] else ''.'') @ show_ipv4 bs) = Some (bs, [])"
proof (induction bs arbitrary: first)
  case (Cons b bs)
  show ?case
  proof (cases bs)
    case Nil
    then show ?thesis
      using read_octet_show[of "unat b" "[]"]
      by (simp add: show_ipv4_def read_separated_def read_char_def)
  next
    case (Cons c cs)
    with Cons.IH[of False] have "read_octets (length bs) False (CHR ''.'' # show_ipv4 bs) = Some (bs, [])"
      by simp
    then show ?thesis
      using Cons read_octet_show[of "unat b" "CHR ''.'' # show_ipv4 bs"]
      by (simp add: show_ipv4_def read_separated_def read_char_def)
  qed
qed simp

lemma parse_show_ipv4: "length bs = 4 \<Longrightarrow> parse_ip (show_ipv4 bs) = Some (V4 bs)"
  using read_octets_show[of bs True] by (cases bs) (simp_all add: parse_ip_def read_ipv4_def)

end
