(* ===== verification/Directory_Start.thy ===== *)
theory Directory_Start
  imports Disk_Sync Tree_Build Ip_Addr
begin

text \<open>
  How the directory service starts (directory/src/main.rs, directory/src/cli.rs, \<^verbatim>\<open>new\<close> and \<^verbatim>\<open>start\<close> of the
  actors in directory/src/manager): from its arguments to the tree, the database and the two actors that
  Event_Watcher lets run. What lies outside is the record \<open>start_env\<close>: whether the port can be bound, the
  canonical form of a path, what the database driver says to a connection, whether the operating system
  watches a directory. \<open>Refused\<close> is an error that \<^verbatim>\<open>main\<close> returns, a panic is the left side of a run, and
  \<open>None\<close> is a start that does not end. Nobody else changes the disk while the service starts: a change
  after a directory was listed and before it is watched is not noticed by anybody.
\<close>

section \<open>Arguments\<close>

text \<open>As the command line crate hands them over, from options, environment and the defaults of \<^verbatim>\<open>Args\<close>.\<close>

datatype type_watcher = Poll | Event

datatype log_lebel = LogTrace | LogDebug | LogInfo | LogWarn | LogError

datatype level = TRACE | DEBUG | INFO | WARN | ERROR

fun level_of :: "log_lebel \<Rightarrow> level" where
  "level_of LogTrace = TRACE"
| "level_of LogDebug = DEBUG"
| "level_of LogInfo = INFO"
| "level_of LogWarn = WARN"
| "level_of LogError = ERROR"

record args =
  ar_watcher :: type_watcher
  ar_watcher_path :: path
  ar_listen :: "8 word list"
  ar_port :: "16 word"
  ar_log_level :: log_lebel
  ar_grpc_auth_server :: string
  ar_md_host :: string
  ar_md_port :: "16 word"
  ar_md_username :: string
  ar_md_pass :: string
  ar_md_database :: string
  ar_pki_dir :: string
  ar_grpc_endpoint :: "ip_addr \<times> nat"

section \<open>The actors\<close>

record event_watcher =
  ew_notify :: bool
  ew_await :: nat
  ew_manager :: bool
  ew_path :: path
  ew_rename_control :: "rename_control option"
  ew_skipper :: skipper

definition event_watcher_new :: "path \<Rightarrow> event_watcher" where
  "event_watcher_new p = \<lparr>ew_notify = False, ew_await = 2000, ew_manager = False, ew_path = p,
     ew_rename_control = None, ew_skipper = skipper_new\<rparr>"

definition set_ref_manager :: "event_watcher \<Rightarrow> event_watcher" where
  "set_ref_manager w = w\<lparr>ew_manager := True\<rparr>"

definition set_rename_control_await :: "nat \<Rightarrow> event_watcher \<Rightarrow> event_watcher" where
  "set_rename_control_await t w = w\<lparr>ew_await := t\<rparr>"

definition event_watcher_clone :: "event_watcher \<Rightarrow> event_watcher" where
  "event_watcher_clone w = \<lparr>ew_notify = False, ew_await = ew_await w, ew_manager = False, ew_path = ew_path w,
     ew_rename_control = None, ew_skipper = skipper_new\<rparr>"

record ('fs, 'db) start_env =
  se_subscriber :: bool
  se_bind :: "string \<Rightarrow> bool"
  se_canonicalize :: "'fs \<Rightarrow> path \<Rightarrow> path option"
  se_exists :: "'fs \<Rightarrow> path \<Rightarrow> bool"
  se_connect :: "client_options \<Rightarrow> mongo_error + 'db"
  se_notify :: bool
  se_watch :: "path \<Rightarrow> bool"

definition event_watcher_start :: "('fs, 'db) start_env \<Rightarrow> event_watcher \<Rightarrow> event_watcher run" where
  "event_watcher_start env w =
     (if \<not> se_notify env then Inl UnwrapErr
      else if \<not> se_watch env (ew_path w) then Inl UnwrapErr
      else Inr (w\<lparr>ew_rename_control := Some (rename_control_new (ew_await w)), ew_notify := True\<rparr>))"

record manager =
  mg_watcher :: event_watcher
  mg_ref_watcher :: "event_watcher option"

definition manager_new :: "event_watcher \<Rightarrow> manager" where
  "manager_new w = \<lparr>mg_watcher = w, mg_ref_watcher = None\<rparr>"

text \<open>The watcher that runs is a copy of the one the manager was given.\<close>

definition manager_start :: "('fs, 'db) start_env \<Rightarrow> manager \<Rightarrow> manager run" where
  "manager_start env mg =
     and_then (event_watcher_start env (set_ref_manager (event_watcher_clone (mg_watcher mg)))) (\<lambda>w.
       Inr (mg\<lparr>mg_ref_watcher := Some w\<rparr>))"

section \<open>The start\<close>

datatype 's started = Refused | Started 's

definition listen_text :: "args \<Rightarrow> string" where
  "listen_text a = show_ipv4 (ar_listen a) @ '':'' @ show_nat (unat (ar_port a))"

definition storage_of_args :: "args \<Rightarrow> local_storage_build" where
  "storage_of_args a =
     build_database (ar_md_database a)
       (build_username (ar_md_username a)
         (build_password (ar_md_pass a)
           (build_port (uint (ar_md_port a))
             (build_host (ar_md_host a)
               \<lparr>lb_password = None, lb_database = None, lb_username = None, lb_host = None, lb_port = None\<rparr>))))"

text \<open>Both actors with nothing to do yet.\<close>

definition idle_service :: "bucket_map \<Rightarrow> 'db \<Rightarrow> 'fs \<Rightarrow> manager \<Rightarrow> ('fs, 'db) service" where
  "idle_service m db fs mg =
     \<lparr>sv_map = m, sv_db = db, sv_fs = fs,
      sv_skipper = (case mg_ref_watcher mg of None \<Rightarrow> skipper_new | Some w \<Rightarrow> ew_skipper w),
      sv_events = [], sv_changes = [], sv_renames = [], sv_manager_up = True, sv_watcher_up = mg_ref_watcher mg \<noteq> None\<rparr>"

definition start_storage ::
    "('fs, 'db) start_env \<Rightarrow> args \<Rightarrow> ('fs, 'h, 'db) outside \<Rightarrow> 'fs \<Rightarrow> (bucket_map \<times> local_storage \<times> 'db) run" where
  "start_storage env a ot fs =
     and_then (unwrap (se_canonicalize env fs (ar_watcher_path a))) (\<lambda>root.
     and_then (bucket_map_new (se_exists env fs root) (os_is_dir (ot_os ot) fs root) root) (\<lambda>m.
     and_then (build_local_storage (se_connect env) (ot_mongo ot) (storage_of_args a)) (\<lambda>(ls, db).
       Inr (m, ls, db))))"

definition start_actors ::
    "('fs, 'db) start_env \<Rightarrow> local_storage \<Rightarrow> bucket_map \<times> 'fs \<times> 'db \<Rightarrow> (local_storage \<times> ('fs, 'db) service) started run" where
  "start_actors env ls built =
     (case built of (m, fs, db) \<Rightarrow>
        and_then (manager_start env (manager_new (event_watcher_new (bm_path m)))) (\<lambda>mg.
          Inr (Started (ls, idle_service m db fs mg))))"

definition start_directory ::
    "nat \<Rightarrow> ('fs, 'db) start_env \<Rightarrow> args \<Rightarrow> ('fs, 'h, 'db) outside \<Rightarrow> 'fs
     \<Rightarrow> (local_storage \<times> ('fs, 'db) service) started run option" where
  "start_directory fuel env a ot fs =
     (if \<not> se_subscriber env \<or> \<not> se_bind env (listen_text a) then Some (Inr Refused)
      else case start_storage env a ot fs of
        Inl e \<Rightarrow> Some (Inl e)
      | Inr (m, ls, db) \<Rightarrow>
          map_option (\<lambda>r. and_then r (start_actors env ls)) (build fuel (ot\<lparr>ot_ls := ls\<rparr>) m fs db))"

section \<open>The tree of a disk\<close>

text \<open>What is at an address below the root, and the state of a disk that holds buckets \<open>cs\<close>.\<close>

fun disk_at :: "(string \<times> disk) list \<Rightarrow> string list \<Rightarrow> (string \<times> disk) list option" where
  "disk_at cs [] = Some cs"
| "disk_at cs (k # ks) = (case map_of cs k of Some (DiskDir ds) \<Rightarrow> disk_at ds ks | _ \<Rightarrow> None)"

definition disk_state_of :: "(string \<times> disk) list \<Rightarrow> disk_state" where
  "disk_state_of cs = (\<lambda>(b, ss).
     map_option (\<lambda>ds. \<lparr>dn_files = mset (file_names ds), dn_table = dir_names ds \<noteq> []\<rparr>)
       (disk_at cs (bucket_name b # map seg_str ss)))"

lemma map_of_dir:
  assumes "distinct (map fst cs)"
  shows "(\<exists>ds. map_of cs k = Some (DiskDir ds)) \<longleftrightarrow> (\<exists>c \<in> set cs. snd c \<noteq> DiskFile \<and> fst c = k)"
proof
  assume "\<exists>ds. map_of cs k = Some (DiskDir ds)"
  then obtain ds where "(k, DiskDir ds) \<in> set cs" by (auto dest: map_of_SomeD)
  then show "\<exists>c \<in> set cs. snd c \<noteq> DiskFile \<and> fst c = k" by (intro bexI[of _ "(k, DiskDir ds)"]) simp_all
next
  assume "\<exists>c \<in> set cs. snd c \<noteq> DiskFile \<and> fst c = k"
  then obtain c where c: "c \<in> set cs" "snd c \<noteq> DiskFile" "fst c = k" by blast
  then have "map_of cs k = Some (snd c)" using assms by (metis map_of_eq_Some_iff prod.collapse)
  with c(2) show "\<exists>ds. map_of cs k = Some (DiskDir ds)" by (cases "snd c") auto
qed

lemma mirror_at:
  assumes "shows_disk ot fs p (DiskDir cs)" "mirrors_names (DiskDir cs) e"
  shows "map_option (\<lambda>e. show_node (node_of e)) (descend e ss)
    = map_option (\<lambda>ds. \<lparr>dn_files = mset (file_names ds), dn_table = dir_names ds \<noteq> []\<rparr>) (disk_at cs (map seg_str ss))"
  using assms
proof (induction ss arbitrary: p cs e)
  case Nil
  then show ?case by (cases e) (simp add: mirrors_names_def show_node_def del: mset_map)
next
  case (Cons s ss)
  have dist: "distinct (map fst cs)" using Cons.prems(1) by simp
  have keys: "bt_get (opt_default [] (ke_keys e)) s \<noteq> None \<longleftrightarrow> (\<exists>c \<in> set cs. snd c \<noteq> DiskFile \<and> fst c = seg_str s)"
    using Cons.prems(2) by (cases s) (simp add: mirrors_names_def eq_commute)
  have get: "descend e (s # ss) = Option.bind (bt_get (opt_default [] (ke_keys e)) s) (\<lambda>e'. descend e' ss)"
    by (cases "ke_keys e") (auto split: option.split)
  show ?case
  proof (cases "\<exists>c \<in> set cs. snd c \<noteq> DiskFile \<and> fst c = seg_str s")
    case False
    with keys have "bt_get (opt_default [] (ke_keys e)) s = None" by simp
    moreover have "disk_at cs (seg_str s # map seg_str ss) = None"
      using False map_of_dir[OF dist, of "seg_str s"] by (auto split: option.split disk.split)
    ultimately show ?thesis by (simp add: get del: descend.simps disk_at.simps)
  next
    case True
    then obtain c where c: "c \<in> set cs" "snd c \<noteq> DiskFile" "fst c = seg_str s" by blast
    then obtain ds where ds: "snd c = DiskDir ds" by (cases "snd c") auto
    have m: "map_of cs (seg_str s) = Some (DiskDir ds)" using c ds dist by (metis map_of_eq_Some_iff prod.collapse)
    obtain e' where e': "bt_get (opt_default [] (ke_keys e)) s = Some e'" "mirrors_names (DiskDir ds) e'"
      using Cons.prems(2) c ds by (cases s) (auto simp: mirrors_names_def)
    have "shows_disk ot fs (p @ [fst c]) (DiskDir ds)" using Cons.prems(1) c(1) ds by (metis shows_disk.simps(2))
    from Cons.IH[OF this e'(2)] m e'(1) show ?thesis by (simp add: get del: descend.simps)
  qed
qed

section \<open>Building it\<close>

lemma list_buckets_clean:
  assumes "\<forall>c \<in> set cs. snd c \<noteq> DiskFile \<and> clean_entry ot root c"
  shows "list_buckets_loop ot (map (\<lambda>c. Some (root @ [fst c])) cs) resp fs
    = Inr (resp @ map (\<lambda>c. (Bucket (fst c), root @ [fst c])) cs, fs)"
  using assms by (induction cs arbitrary: resp) (simp_all add: clean_entry_def)

definition bucket_mirrors :: "(string \<times> disk) list \<Rightarrow> (bucket, key_entry) btree \<Rightarrow> bool" where
  "bucket_mirrors cs t \<longleftrightarrow> (\<forall>c \<in> set cs. \<exists>e. bt_get t (Bucket (fst c)) = Some e \<and> mirrors_names (snd c) e)"

lemma build_buckets_mirrors:
  assumes "\<forall>c \<in> set cs. snd c \<noteq> DiskFile \<and> shows_disk ot fs (root @ [fst c]) (snd c) \<and> utf8_valid (fst c)"
    and "\<forall>c \<in> set cs. disk_depth (snd c) \<le> fuel" "distinct (map fst cs)" "bs_fs st = fs"
    and "\<forall>k \<in> set root. utf8_valid k" "find_one_law (ot_mongo ot)"
  shows "\<exists>r. build_buckets fuel ot (map (\<lambda>c. (Bucket (fst c), root @ [fst c])) cs) inner st = Some r
    \<and> (\<forall>t st'. r = Inr (t, st') \<longrightarrow> bs_fs st' = fs \<and> bucket_mirrors cs t
          \<and> (\<forall>b. bucket_name b \<notin> set (map fst cs) \<longrightarrow> bt_get t b = bt_get inner b))"
  using assms(1-4)
proof (induction cs arbitrary: inner st)
  case Nil
  then show ?case by (simp add: bucket_mirrors_def)
next
  case (Cons c cs)
  obtain ds where ds: "snd c = DiskDir ds" using Cons.prems(1) by (cases "snd c") auto
  have c: "shows_disk ot (bs_fs st) (root @ [fst c]) (DiskDir ds)" "disk_depth (DiskDir ds) \<le> fuel"
    "\<forall>k \<in> set (root @ [fst c]). utf8_valid k" "bucket_name (Bucket (fst c)) \<in> set (root @ [fst c])"
    using Cons.prems assms(5) ds by auto
  obtain r1 where r1: "build_key_entry fuel ot (Bucket (fst c)) (root @ [fst c]) st = Some r1"
    "\<And>ke st'. r1 = Inr (ke, st') \<Longrightarrow> mirrors_names (snd c) ke \<and> bs_fs st' = fs"
    using build_mirrors_by[OF c synced_names[OF assms(6)]] Cons.prems(4) ds unfolding mirrors_names_def by auto
  show ?case
  proof (cases r1)
    case (Inl e)
    with r1(1) show ?thesis by simp
  next
    case (Inr x)
    obtain ke st1 where k: "r1 = Inr (ke, st1)" using Inr by (cases x) simp
    note m = r1(2)[OF k]
    have rest: "\<forall>c \<in> set cs. snd c \<noteq> DiskFile \<and> shows_disk ot fs (root @ [fst c]) (snd c) \<and> utf8_valid (fst c)"
      "\<forall>c \<in> set cs. disk_depth (snd c) \<le> fuel" "distinct (map fst cs)" "fst c \<notin> set (map fst cs)"
      using Cons.prems by auto
    from Cons.IH[OF rest(1-3), of st1 "bt_insert (Bucket (fst c)) ke inner"] m obtain r where r:
      "build_buckets fuel ot (map (\<lambda>c. (Bucket (fst c), root @ [fst c])) cs) (bt_insert (Bucket (fst c)) ke inner) st1 = Some r"
      "\<And>t st'. r = Inr (t, st') \<Longrightarrow> bs_fs st' = fs \<and> bucket_mirrors cs t
          \<and> (\<forall>b. bucket_name b \<notin> set (map fst cs) \<longrightarrow> bt_get t b = bt_get (bt_insert (Bucket (fst c)) ke inner) b)"
      by blast
    have "build_buckets fuel ot (map (\<lambda>c. (Bucket (fst c), root @ [fst c])) (c # cs)) inner st = Some r"
      using r1(1) k r(1) by simp
    moreover have "bs_fs st' = fs \<and> bucket_mirrors (c # cs) t
        \<and> (\<forall>b. bucket_name b \<notin> set (map fst (c # cs)) \<longrightarrow> bt_get t b = bt_get inner b)" if "r = Inr (t, st')" for t st'
      using r(2)[OF that] m rest(4) by (auto simp: bucket_mirrors_def)
    ultimately show ?thesis by blast
  qed
qed

lemma shows_disk_ls [simp]: "shows_disk (ot\<lparr>ot_ls := ls\<rparr>) fs p d = shows_disk ot fs p d"
  by (induction ot fs p d rule: shows_disk.induct) simp_all

lemma shown_buckets:
  assumes "shows_disk ot fs root (DiskDir cs)" "\<forall>c \<in> set cs. snd c \<noteq> DiskFile" "bucket_mirrors cs (bm_tree m)"
    and "\<And>b. bucket_name b \<notin> set (map fst cs) \<Longrightarrow> bt_get (bm_tree m) b = None"
  shows "shown m = disk_state_of cs"
proof (rule ext)
  fix a :: addr
  obtain b ss where a: "a = (b, ss)" by (cases a)
  have shown: "shown m a = Option.bind (bt_get (bm_tree m) b) (\<lambda>e. map_option (\<lambda>e. show_node (node_of e)) (descend e ss))"
    by (simp add: a shown_def view_bucket option.map_comp comp_def split: bind_split)
  show "shown m a = disk_state_of cs a"
  proof (cases "bucket_name b \<in> set (map fst cs)")
    case False
    then have "map_of cs (bucket_name b) = None" by (simp add: map_of_eq_None_iff)
    with shown assms(4)[OF False] show ?thesis by (simp add: a disk_state_of_def)
  next
    case True
    then obtain c where c: "c \<in> set cs" "fst c = bucket_name b" by auto
    then obtain ds where ds: "snd c = DiskDir ds" using assms(2) by (cases "snd c") auto
    have "distinct (map fst cs)" using assms(1) by simp
    then have m: "map_of cs (bucket_name b) = Some (DiskDir ds)" using c ds by (metis map_of_eq_Some_iff prod.collapse)
    have s: "shows_disk ot fs (root @ [fst c]) (DiskDir ds)" using assms(1) c(1) ds by (metis shows_disk.simps(2))
    obtain e where e: "bt_get (bm_tree m) b = Some e" "mirrors_names (DiskDir ds) e"
      using assms(3) c ds unfolding bucket_mirrors_def by (metis bucket.collapse)
    with shown m mirror_at[OF s e(2), of ss] show ?thesis by (simp add: a disk_state_of_def)
  qed
qed

lemma build_shows_disk:
  assumes "shows_disk ot fs (bm_path m) (DiskDir cs)" "\<forall>c \<in> set cs. snd c \<noteq> DiskFile"
    and "disk_depth (DiskDir cs) \<le> Suc fuel" "\<forall>k \<in> set (bm_path m). utf8_valid k" "find_one_law (ot_mongo ot)"
  shows "\<exists>r. build fuel ot m fs db = Some r
    \<and> (\<forall>m' fs' db'. r = Inr (m', fs', db') \<longrightarrow> shown m' = disk_state_of cs \<and> bm_path m' = bm_path m \<and> fs' = fs)"
proof -
  let ?bs = "map (\<lambda>c. (Bucket (fst c), bm_path m @ [fst c])) cs"
  let ?st = "\<lparr>bs_fs = fs, bs_db = db, bs_ids = [], bs_broker = next_broker m\<rparr>"
  have clean: "clean_entry ot (bm_path m) c" if "c \<in> set cs" for c
    using assms(1) that by (simp add: clean_entry_def)
  have valid: "utf8_valid (fst c)" if "c \<in> set cs" for c
    using clean[OF that] assms(2) that normalize_path_NotD(2) name_char_ascii
    by (intro utf8_valid_all_ascii) (auto simp: clean_entry_def)
  have list: "list_buckets_and_normalize ot (bm_path m) fs = Inr (?bs, fs)"
    using list_buckets_clean[of cs ot "bm_path m" "[]" fs] clean assms(1,2)
    by (simp add: list_buckets_and_normalize_def)
  have "\<forall>c \<in> set cs. disk_depth (snd c) \<le> fuel" using depth_child[of _ cs] assms(3) by fastforce
  then obtain r where r: "build_buckets fuel ot ?bs [] ?st = Some r"
    "\<And>t st'. r = Inr (t, st') \<Longrightarrow> bs_fs st' = fs \<and> bucket_mirrors cs t
          \<and> (\<forall>b. bucket_name b \<notin> set (map fst cs) \<longrightarrow> bt_get t b = None)"
    using build_buckets_mirrors[of cs ot fs "bm_path m" fuel ?st "[]"] assms valid by auto
  have "shown m' = disk_state_of cs \<and> bm_path m' = bm_path m \<and> fs' = fs"
    if "r = Inr (t, st')" "m' = m\<lparr>bm_tree := t, next_broker := n\<rparr>" "fs' = bs_fs st'" for t st' m' n fs'
    using shown_buckets[OF assms(1,2), of m'] r(2)[OF that(1)] that(2,3) by simp
  with list r(1) show ?thesis by (auto simp: build_def and_then_eq_Inr)
qed

lemma quiet_new [simp]: "quiet skipper_new"
  by (simp add: quiet_def skipper_new_def key_armed_def object_armed_def)

lemma start_actorsD:
  assumes "start_actors env ls (m, fs, db) = Inr x"
  shows "\<exists>s0. x = Started (ls, s0) \<and> sv_map s0 = m \<and> sv_fs s0 = fs \<and> sv_manager_up s0 \<and> sv_watcher_up s0
    \<and> quiet (sv_skipper s0) \<and> sv_events s0 = [] \<and> sv_changes s0 = []"
proof -
  obtain mg where mg: "manager_start env (manager_new (event_watcher_new (bm_path m))) = Inr mg"
    "x = Started (ls, idle_service m db fs mg)"
    using assms by (auto simp: start_actors_def and_then_eq_Inr)
  then obtain w where w: "event_watcher_start env (set_ref_manager (event_watcher_clone (event_watcher_new (bm_path m)))) = Inr w"
    "mg_ref_watcher mg = Some w"
    by (auto simp: manager_start_def manager_new_def and_then_eq_Inr)
  then have "ew_skipper w = skipper_new"
    by (auto simp: event_watcher_start_def set_ref_manager_def event_watcher_clone_def split: if_split_asm)
  with mg(2) w(2) show ?thesis by (simp add: idle_service_def)
qed

lemma build_local_storage_database:
  assumes "build_local_storage connect exec b = Inr (ls, db)"
  shows "ls_database ls = lb_database b"
proof -
  obtain host where "lb_host b = Some host" using assms by (cases "lb_host b") (simp_all add: build_local_storage_def)
  then show ?thesis
    using assms by (cases "connect \<lparr>co_database = lb_database b, co_hosts = [(host, lb_port b)],
        co_username = lb_username b, co_password = lb_password b\<rparr>")
      (auto simp: build_local_storage_def and_then_def Let_def split: sum.split_asm prod.split_asm)
qed

lemma start_storageD:
  assumes "start_storage env a ot fs = Inr (m, ls, db)" "se_canonicalize env fs (ar_watcher_path a) = Some root"
  shows "bm_path m = root \<and> ls_database ls \<noteq> None"
proof -
  have m: "bucket_map_new (se_exists env fs root) (os_is_dir (ot_os ot) fs root) root = Inr m"
    and ls: "build_local_storage (se_connect env) (ot_mongo ot) (storage_of_args a) = Inr (ls, db)"
    using assms by (auto simp: start_storage_def and_then_eq_Inr)
  have "bm_path m = root" using m by (auto simp: bucket_map_new_def split: if_splits)
  moreover have "lb_database (storage_of_args a) \<noteq> None" by (simp add: storage_of_args_def build_database_def)
  ultimately show ?thesis using build_local_storage_database[OF ls] by simp
qed

section \<open>Property\<close>


text \<open>The disk of Tree_Build's samples with its root, and a service that may use all it asks for.\<close>

definition start_outside :: "(bool, unit, bson list) outside" where
  "start_outside = sample_outside\<lparr>ot_os := sample_os\<lparr>os_is_dir := (\<lambda>_ p. p = [''r''] \<or> p = [''r'', ''b''] \<or> p = [''r'', ''b'', ''d''])\<rparr>\<rparr>"

definition sample_env :: "(bool, bson list) start_env" where
  "sample_env = \<lparr>se_subscriber = True, se_bind = (\<lambda>_. True), se_canonicalize = (\<lambda>_. Some),
     se_exists = (\<lambda>_ _. True), se_connect = (\<lambda>_. Inr []), se_notify = True, se_watch = (\<lambda>p. p = [''r''])\<rparr>"

definition sample_args :: args where
  "sample_args = \<lparr>ar_watcher = Event, ar_watcher_path = [''r''], ar_listen = [0, 0, 0, 0], ar_port = 3500,
     ar_log_level = LogInfo, ar_grpc_auth_server = ''[::1]:50051'', ar_md_host = ''db'', ar_md_port = 27017,
     ar_md_username = ''u'', ar_md_pass = ''p'', ar_md_database = ''files'', ar_pki_dir = ''pki'',
     ar_grpc_endpoint = (V4 [127, 0, 0, 1], 50052)\<rparr>"

lemma start_readable: "readable (ot_os start_outside)"
  unfolding readable_def
proof (intro allI impI)
  fix fs and p :: path and n own
  assume "clean_file n"
  then have "n \<noteq> ''..''" "os_to_str n = Some n" by (simp_all add: clean_file_def)
  then show "\<exists>ob. object_new (ot_os start_outside) fs (p @ [n]) own = Inr ob"
    by (simp add: object_new_def start_outside_def sample_os_def get_info_metadata_def object_default_def check_sum_def)
qed

lemma start_shows_disk: "shows_disk start_outside True [''r''] (DiskDir [(''b'', sample_disk)])"
proof -
  have n: "normalize_file ''x'' [''r'', ''b'', ''f''] = Inr (Not ''f'')"
    "normalize_path True ''x'' [''r'', ''b'', ''d''] = Inr (Not ''d'')"
    "normalize_path True ''x'' [''r'', ''b''] = Inr (Not ''b'')"
    by code_simp+
  then show ?thesis by (simp add: start_outside_def sample_outside_def sample_list_def sample_disk_def)
qed


end
