(* ===== verification/Directory_State.thy ===== *)
theory Directory_State
  imports Bucket_Map
begin

text \<open>
  The state that the handlers share, as main makes it, with its two methods that are still to be written and
  have no callers (directory/src/state/mod.rs), and parts of the service that it does not use when it runs:
  the poll watcher and its error (directory/src/manager/watcher/pool_watcher.rs, error.rs), the errors of
  buckets (directory/src/bucket/error.rs) and the claim of users (directory/src/user.rs).
\<close>

section \<open>The shared state\<close>

text \<open>\<open>'m\<close> is the reference to the manager. Dereferencing the state gives the tree.\<close>

record 'm directory_state =
  st_tree :: bucket_map
  st_ref_manager :: 'm

definition state_new :: "bucket_map \<Rightarrow> 'm \<Rightarrow> 'm directory_state" where
  "state_new tree ref_manager = \<lparr>st_tree = tree, st_ref_manager = ref_manager\<rparr>"

definition state_deref :: "'m directory_state \<Rightarrow> bucket_map" where
  "state_deref st = st_tree st"

definition state_bucket :: "'m directory_state \<Rightarrow> string \<Rightarrow> string \<Rightarrow> 'p \<Rightarrow> (string + bool) run" where
  "state_bucket st user_id name permission = Inl TodoReached"

definition state_add_client :: "'m directory_state \<Rightarrow> bucket option \<Rightarrow> bkey option \<Rightarrow> 'w \<Rightarrow> unit run" where
  "state_add_client st b k sender = Inl TodoReached"

record user_claim =
  uc_sub :: string
  uc_exp :: int

section \<open>Errors of buckets\<close>

text \<open>\<open>'e\<close> are the errors of the operating system, which are displayed as they display.\<close>

datatype 'e bucket_map_err =
    IsNotABucket path
  | RootNotAllowed
  | ReadDir 'e
  | ReadOnly path
  | PermissionDenied path
  | RootPathIsNotDirectory path
  | RootPathNotFound path

fun bucket_map_err_display :: "(path \<Rightarrow> string) \<Rightarrow> ('e \<Rightarrow> string) \<Rightarrow> 'e bucket_map_err \<Rightarrow> string" where
  "bucket_map_err_display debug shown (IsNotABucket dir) = debug dir @ '' isn't a directory''"
| "bucket_map_err_display debug shown RootNotAllowed = ''You cannot use the root \"/\" directory''"
| "bucket_map_err_display debug shown (ReadDir e) = ''ReadDir Error: '' @ shown e"
| "bucket_map_err_display debug shown (ReadOnly dir) = ''The directory '' @ debug dir @ '' is read only''"
| "bucket_map_err_display debug shown (PermissionDenied dir) = ''Permission denied: '' @ debug dir"
| "bucket_map_err_display debug shown (RootPathIsNotDirectory p) = ''Path '' @ debug p @ '' isn't an directory''"
| "bucket_map_err_display debug shown (RootPathNotFound p) = ''Path '' @ debug p @ '' not found''"

definition bucket_map_err_of_io :: "'e \<Rightarrow> 'e bucket_map_err" where
  "bucket_map_err_of_io e = ReadDir e"

section \<open>The poll watcher\<close>

datatype watcher_err = WatcherErr string

definition watcher_err_new :: "string \<Rightarrow> watcher_err" where
  "watcher_err_new detail = WatcherErr detail"

fun watcher_err_display :: "watcher_err \<Rightarrow> string" where
  "watcher_err_display (WatcherErr d) = d"

text \<open>
  What it is set up with: paths of any form \<open>'p\<close>, and the watcher of the notify crate, each step of which may
  fail with a text. The channel begins empty.
\<close>

record 'p poll_outside =
  po_is_relative :: "'p \<Rightarrow> bool"
  po_canonicalize :: "'p \<Rightarrow> string + 'p"
  po_lossy :: "'p \<Rightarrow> string"
  po_create :: "nat \<Rightarrow> string + unit"
  po_watch :: "'p \<Rightarrow> string + unit"

record 'p poll_watcher =
  pw_watched :: 'p
  pw_interval :: nat
  pw_channel :: "string list"
  pw_path :: string

definition map_err :: "string + 'a \<Rightarrow> watcher_err + 'a" where
  "map_err r = map_sum watcher_err_new id r"

definition poll_watcher_new :: "'p poll_outside \<Rightarrow> 'p \<Rightarrow> nat \<Rightarrow> watcher_err + 'p poll_watcher" where
  "poll_watcher_new out real_path interval =
     and_then (if po_is_relative out real_path then map_err (po_canonicalize out real_path) else Inr real_path) (\<lambda>p.
     and_then (map_err (po_create out interval)) (\<lambda>_.
     and_then (map_err (po_watch out p)) (\<lambda>_.
       Inr \<lparr>pw_watched = p, pw_interval = interval, pw_channel = [], pw_path = po_lossy out real_path\<rparr>)))"

text \<open>It watches the absolute path, but keeps the one it was given; each step that fails is the error.\<close>

lemma map_err_simps [simp]: "map_err (Inl s) = Inl (WatcherErr s)" "map_err (Inr x) = Inr x"
  by (simp_all add: map_err_def watcher_err_new_def)

lemma poll_watcher_exact:
  "poll_watcher_new out p t =
     (case (if po_is_relative out p then po_canonicalize out p else Inr p) of
        Inl s \<Rightarrow> Inl (WatcherErr s)
      | Inr q \<Rightarrow>
          (case (po_create out t, po_watch out q) of
             (Inl s, _) \<Rightarrow> Inl (WatcherErr s)
           | (Inr _, Inl s) \<Rightarrow> Inl (WatcherErr s)
           | (Inr _, Inr _) \<Rightarrow> Inr \<lparr>pw_watched = q, pw_interval = t, pw_channel = [], pw_path = po_lossy out p\<rparr>))"
proof (cases "if po_is_relative out p then po_canonicalize out p else Inr p")
  case (Inl s)
  then show ?thesis by (auto simp: poll_watcher_new_def split: if_splits)
next
  case (Inr q)
  then have "(if po_is_relative out p then map_err (po_canonicalize out p) else Inr p) = Inr q"
    by (auto split: if_splits)
  with Inr show ?thesis
    by (cases "po_create out t"; cases "po_watch out q") (simp_all add: poll_watcher_new_def)
qed

end
