(* ===== verification/Tokens.thy ===== *)
theory Tokens
  imports Prelude
begin

text \<open>
  Tokens and claims (utils/src/lib.rs, utils/src/claim): where a request carries its token, the builder of
  the claims a token signs, and making and checking tokens with the key pair of the service.

  The file system, the key format and the JWT crate are arguments: \<open>rd\<close> and \<open>wr\<close> read and write a file,
  \<open>enc\<close> and \<open>dec\<close> sign claims with the text of a private key and check a token with the text of a public
  one, \<open>None\<close> being their errors. Times are seconds since the epoch.
\<close>

definition unwrap_ok :: "'a option \<Rightarrow> 'a run" where
  "unwrap_ok x = (case x of None \<Rightarrow> Inl UnwrapErr | Some v \<Rightarrow> Inr v)"

lemma unwrap_ok_simps [simp]: "unwrap_ok None = Inl UnwrapErr" "unwrap_ok (Some v) = Inr v"
  by (simp_all add: unwrap_ok_def)

section \<open>The token of a request\<close>

text \<open>Headers by lower-case name; \<^verbatim>\<open>get\<close> gives the first value. A value is text when all its bytes are visible ASCII.\<close>

type_synonym header_map = "(string \<times> string) list"

definition header_get :: "header_map \<Rightarrow> string \<Rightarrow> string option" where
  "header_get hs name = map_of hs name"

definition visible :: "char \<Rightarrow> bool" where
  "visible c \<longleftrightarrow> (32 \<le> (of_char c :: nat) \<and> (of_char c :: nat) < 127) \<or> (of_char c :: nat) = 9"

definition header_to_str :: "string \<Rightarrow> string option" where
  "header_to_str v = (if list_all visible v then Some v else None)"

definition jwt_identified :: string where
  "jwt_identified = ''JWT''"

definition jwt_cookie_search :: "header_map \<Rightarrow> string option" where
  "jwt_cookie_search hs =
     (case header_get hs ''cookie'' of
        None \<Rightarrow> None
      | Some v \<Rightarrow>
          (case header_to_str v of
             None \<Rightarrow> None
           | Some x \<Rightarrow>
               (case find (prefix jwt_identified) (map trim_both (split_ch CHR '';'' x)) of
                  None \<Rightarrow> None
                | Some c \<Rightarrow> nth_opt (split_ch CHR ''='' c) 1)))"

definition jwt_header_search :: "header_map \<Rightarrow> string option" where
  "jwt_header_search hs =
     (case header_get hs ''authorization'' of
        None \<Rightarrow> None
      | Some v \<Rightarrow>
          (case header_to_str v of None \<Rightarrow> None | Some x \<Rightarrow> strip_prefix ''Bearer '' x))"

text \<open>\<^verbatim>\<open>Token::get_token\<close> unwraps what the search of its type gives; \<^verbatim>\<open>JwtBoth\<close> prefers the cookie.\<close>

definition get_token :: "(header_map \<Rightarrow> string option) \<Rightarrow> header_map \<Rightarrow> string option" where
  "get_token search hs = map_option (\<lambda>x. x) (search hs)"

definition jwt_both_search :: "header_map \<Rightarrow> string option" where
  "jwt_both_search hs =
     (case get_token jwt_cookie_search hs of
        Some t \<Rightarrow> Some t
      | None \<Rightarrow> get_token jwt_header_search hs)"

section \<open>Claims\<close>

type_synonym jti = string

record 'a claim =
  cl_iss :: "string option"
  cl_sub :: 'a
  cl_exp :: int
  cl_nbf :: "int option"
  cl_iat :: "int option"
  cl_jti :: "jti option"
  cl_aud :: "string option"

definition set_iss :: "string \<Rightarrow> 'a claim \<Rightarrow> 'a claim" where
  "set_iss iss c = c\<lparr>cl_iss := Some iss\<rparr>"

record ('a, 'm) claim_with_metadata =
  cm_iss :: "string option"
  cm_sub :: 'a
  cm_exp :: int
  cm_nbf :: "int option"
  cm_iat :: "int option"
  cm_jti :: "jti option"
  cm_aud :: "string option"
  cm_metadata :: 'm

definition set_iss_metadata :: "string \<Rightarrow> ('a, 'm) claim_with_metadata \<Rightarrow> ('a, 'm) claim_with_metadata" where
  "set_iss_metadata iss c = c\<lparr>cm_iss := Some iss\<rparr>"

text \<open>The builder's type records whether the subject and the metadata are there.\<close>

datatype 'a id = Id 'a

datatype no_id = NoId

datatype no_metadata = NoMetadata

datatype 'm metadata = Metadata 'm

record ('t, 'm) claim_builder =
  cb_jti :: bool
  cb_nbf :: "int option"
  cb_sub :: 't
  cb_exp :: "int option"
  cb_iss :: "string option"
  cb_iat :: bool
  cb_aud :: "string option"
  cb_metadata :: 'm

definition default_exp :: int where
  "default_exp = 15 * 60"

text \<open>Adding to a time panics past the year 9999.\<close>

definition add_duration :: "int \<Rightarrow> int \<Rightarrow> int run" where
  "add_duration t d = (if t + d \<le> 253402300799 then Inr (t + d) else Inl ExplicitPanic)"

definition builder_default :: "(no_id, no_metadata) claim_builder" where
  "builder_default = \<lparr>cb_jti = False, cb_nbf = None, cb_sub = NoId, cb_exp = None, cb_iss = None,
     cb_iat = False, cb_aud = None, cb_metadata = NoMetadata\<rparr>"

text \<open>The default expiry is computed also when one was set.\<close>

definition builder_build :: "int \<Rightarrow> jti \<Rightarrow> ('a id, no_metadata) claim_builder \<Rightarrow> 'a claim run" where
  "builder_build now uuid b =
     and_then (add_duration now default_exp) (\<lambda>d.
       Inr \<lparr>cl_iss = cb_iss b, cl_sub = (case cb_sub b of Id s \<Rightarrow> s), cl_exp = opt_default d (cb_exp b),
         cl_nbf = cb_nbf b, cl_iat = (if cb_iat b then Some now else None),
         cl_jti = (if cb_jti b then Some uuid else None), cl_aud = cb_aud b\<rparr>)"

definition builder_build_metadata ::
    "int \<Rightarrow> jti \<Rightarrow> ('a id, 'm metadata) claim_builder \<Rightarrow> ('a, 'm) claim_with_metadata run" where
  "builder_build_metadata now uuid b =
     and_then (add_duration now (15 * 60)) (\<lambda>d.
       Inr \<lparr>cm_iss = cb_iss b, cm_sub = (case cb_sub b of Id s \<Rightarrow> s), cm_exp = opt_default d (cb_exp b),
         cm_nbf = cb_nbf b, cm_iat = (if cb_iat b then Some now else None),
         cm_jti = (if cb_jti b then Some uuid else None), cm_aud = cb_aud b,
         cm_metadata = (case cb_metadata b of Metadata m \<Rightarrow> m)\<rparr>)"

definition builder_sub :: "'a \<Rightarrow> (no_id, 'm) claim_builder \<Rightarrow> ('a id, 'm) claim_builder" where
  "builder_sub s b = \<lparr>cb_jti = cb_jti b, cb_nbf = cb_nbf b, cb_sub = Id s, cb_exp = cb_exp b,
     cb_iss = cb_iss b, cb_iat = cb_iat b, cb_aud = cb_aud b, cb_metadata = cb_metadata b\<rparr>"

definition builder_metadata :: "'m \<Rightarrow> ('i, no_metadata) claim_builder \<Rightarrow> ('i, 'm metadata) claim_builder" where
  "builder_metadata m b = \<lparr>cb_jti = cb_jti b, cb_nbf = cb_nbf b, cb_sub = cb_sub b, cb_exp = cb_exp b,
     cb_iss = cb_iss b, cb_iat = cb_iat b, cb_aud = cb_aud b, cb_metadata = Metadata m\<rparr>"

definition builder_jti :: "bool \<Rightarrow> ('t, 'm) claim_builder \<Rightarrow> ('t, 'm) claim_builder" where
  "builder_jti j b = b\<lparr>cb_jti := j\<rparr>"

definition builder_nbf :: "int \<Rightarrow> ('t, 'm) claim_builder \<Rightarrow> ('t, 'm) claim_builder" where
  "builder_nbf t b = b\<lparr>cb_nbf := Some t\<rparr>"

definition builder_exp :: "int \<Rightarrow> int \<Rightarrow> ('t, 'm) claim_builder \<Rightarrow> ('t, 'm) claim_builder run" where
  "builder_exp now d b = and_then (add_duration now d) (\<lambda>t. Inr (b\<lparr>cb_exp := Some t\<rparr>))"

definition builder_iss :: "string \<Rightarrow> ('t, 'm) claim_builder \<Rightarrow> ('t, 'm) claim_builder" where
  "builder_iss i b = b\<lparr>cb_iss := Some i\<rparr>"

definition builder_iat :: "bool \<Rightarrow> ('t, 'm) claim_builder \<Rightarrow> ('t, 'm) claim_builder" where
  "builder_iat i b = b\<lparr>cb_iat := i\<rparr>"

section \<open>Making and checking tokens\<close>

datatype jwt_handle_error = EnvNotFound | GenEc

fun jwt_error_display :: "jwt_handle_error \<Rightarrow> string" where
  "jwt_error_display EnvNotFound = ''Var Environment not found''"
| "jwt_error_display GenEc = ''Gen Ecds fail''"

definition pki :: string where
  "pki = ''pki_auth''"

definition ecds_priv_file :: string where
  "ecds_priv_file = ''ec_priv_key.pem''"

definition ecds_pub_file :: string where
  "ecds_pub_file = ''ec_pub_key.pem''"

text \<open>\<^verbatim>\<open>PathBuf::push\<close> of a plain file name.\<close>

definition pki_path :: "string \<Rightarrow> string \<Rightarrow> string" where
  "pki_path dir f = dir @ CHR ''/'' # f"

definition verify_token ::
    "('fs \<Rightarrow> string \<Rightarrow> string option) \<Rightarrow> (string \<Rightarrow> 'k option) \<Rightarrow> ('k \<Rightarrow> string \<Rightarrow> 'c option)
     \<Rightarrow> 'fs \<Rightarrow> string \<Rightarrow> (jwt_handle_error + 'c) run" where
  "verify_token rd from_pem dec fs token =
     and_then (unwrap_ok (rd fs (pki_path pki ecds_pub_file))) (\<lambda>pem.
     and_then (unwrap_ok (from_pem pem)) (\<lambda>key.
     and_then (unwrap_ok (dec key token)) (\<lambda>claims. Inr (Inr claims))))"

definition gen_token ::
    "('fs \<Rightarrow> string \<Rightarrow> string option) \<Rightarrow> (string \<Rightarrow> 'k option) \<Rightarrow> ('k \<Rightarrow> 'c \<Rightarrow> string option)
     \<Rightarrow> 'fs \<Rightarrow> 'c \<Rightarrow> (jwt_handle_error + string) run" where
  "gen_token rd from_pem enc fs claim =
     and_then (unwrap_ok (rd fs (pki_path pki ecds_priv_file))) (\<lambda>pem.
     and_then (unwrap_ok (from_pem pem)) (\<lambda>key.
     and_then (unwrap_ok (enc key claim)) (\<lambda>token. Inr (Inr token))))"

text \<open>The two texts are those of the key pair drawn at random.\<close>

definition gen_ecdsa ::
    "('fs \<Rightarrow> string \<Rightarrow> bool) \<Rightarrow> ('fs \<Rightarrow> string \<Rightarrow> 'fs option) \<Rightarrow> ('fs \<Rightarrow> string \<Rightarrow> string \<Rightarrow> 'fs option)
     \<Rightarrow> string \<Rightarrow> string \<Rightarrow> string option \<Rightarrow> 'fs \<Rightarrow> ((jwt_handle_error + unit) \<times> 'fs) run" where
  "gen_ecdsa exists mkdir wr private_pem public_pem path fs =
     (let dir = opt_default pki path in
      and_then (if exists fs dir then Inr fs else unwrap_ok (mkdir fs dir)) (\<lambda>fs.
      and_then (unwrap_ok (wr fs (pki_path dir ecds_priv_file) private_pem)) (\<lambda>fs.
      and_then (unwrap_ok (wr fs (pki_path dir ecds_pub_file) public_pem)) (\<lambda>fs.
        Inr (Inr (), fs)))))"

section \<open>Bodies\<close>

datatype body = BodyBroken | BodyBytes string

text \<open>\<^verbatim>\<open>ParseBodyToStruct::get\<close>; the error is its text.\<close>

definition parse_body :: "(string \<Rightarrow> 'a option) \<Rightarrow> body \<Rightarrow> string + 'a" where
  "parse_body from_slice b =
     (case b of
        BodyBytes bytes \<Rightarrow>
          (case from_slice bytes of Some x \<Rightarrow> Inr x | None \<Rightarrow> Inl ''Parsing data entry error'')
      | BodyBroken \<Rightarrow> Inl ''Data entry error'')"

section \<open>Properties\<close>

text \<open>A cookie header as browsers send it, and what a cookie of it may look like.\<close>

definition cookie_header :: "string list \<Rightarrow> string" where
  "cookie_header cs = join_with ''; '' cs"

definition clean_cookie :: "string \<Rightarrow> bool" where
  "clean_cookie c \<longleftrightarrow> list_all visible c \<and> CHR '';'' \<notin> set c \<and> trim_both c = c"

lemma split_cookie_header:
  assumes "\<forall>c \<in> set (c # cs). CHR '';'' \<notin> set c"
  shows "split_ch CHR '';'' (cookie_header (c # cs)) = c # map (\<lambda>c. CHR '' '' # c) cs"
  using assms
proof (induction cs arbitrary: c)
  case (Cons d cs)
  then have "split_ch CHR '';'' (CHR '' '' # cookie_header (d # cs)) = (CHR '' '' # d) # map (\<lambda>c. CHR '' '' # c) cs"
    by simp
  with Cons.prems show ?case
    using split_ch_append[of "CHR '';''" c "CHR '' '' # cookie_header (d # cs)"]
    by (simp add: cookie_header_def)
qed (simp add: cookie_header_def)

lemma trim_both_space: "trim_both (CHR '' '' # c) = trim_both c"
  by (simp add: trim_both_def is_ws_def)

lemma visible_cookie_header: "\<forall>c \<in> set cs. list_all visible c \<Longrightarrow> list_all visible (cookie_header cs)"
proof (induction cs)
  case (Cons c cs)
  then show ?case by (cases cs) (auto simp: cookie_header_def visible_def)
qed (simp add: cookie_header_def)

lemma cookie_search_header:
  assumes "header_get hs ''cookie'' = Some (cookie_header cs)" "cs \<noteq> []" "\<forall>c \<in> set cs. clean_cookie c"
  shows "jwt_cookie_search hs =
    (case find (prefix jwt_identified) cs of None \<Rightarrow> None | Some c \<Rightarrow> nth_opt (split_ch CHR ''='' c) 1)"
proof -
  obtain c cs' where cs: "cs = c # cs'" using assms(2) by (cases cs) auto
  have "map trim_both (split_ch CHR '';'' (cookie_header cs)) = cs"
    using assms(3) split_cookie_header[of c cs']
    by (auto simp: cs clean_cookie_def trim_both_space intro: map_idI)
  moreover have "list_all visible (cookie_header cs)"
    by (rule visible_cookie_header) (use assms(3) in \<open>simp add: clean_cookie_def\<close>)
  ultimately show ?thesis using assms(1) by (simp add: jwt_cookie_search_def header_to_str_def)
qed

text \<open>
  The token of a request with cookies is the value of the first cookie whose name begins with
  \<^verbatim>\<open>JWT\<close>, cut at its first equals sign; a bearer token in another header is not looked at.
\<close>

theorem cookie_token_search:
  assumes "header_get hs ''cookie'' = Some (cookie_header cs)" "\<forall>c \<in> set cs. clean_cookie c"
    and "find (prefix jwt_identified) cs = Some (name @ CHR ''='' # val)" "CHR ''='' \<notin> set name"
  shows "get_token jwt_both_search hs = Some (hd (split_ch CHR ''='' val))"
proof -
  have "cs \<noteq> []" using assms(3) by auto
  moreover obtain v vs where "split_ch CHR ''='' val = v # vs"
    by (cases "split_ch CHR ''='' val") auto
  ultimately show ?thesis
    using cookie_search_header[OF assms(1) _ assms(2)] assms(3) split_ch_append[OF assms(4), of val]
    by (simp add: nth_opt_def get_token_def jwt_both_search_def)
qed

definition sample_headers :: header_map where
  "sample_headers = [(''cookie'', ''lang=es; JWT=ab.cd; x=1''), (''authorization'', ''Bearer other'')]"

theorem cookie_token_search_witness:
  "get_token jwt_both_search sample_headers = Some ''ab.cd''"
proof -
  let ?cs = "[''lang=es'', ''JWT=ab.cd'', ''x=1'']"
  have "header_get sample_headers ''cookie'' = Some (cookie_header ?cs)"
    by (simp add: header_get_def sample_headers_def cookie_header_def)
  moreover have "\<forall>c \<in> set ?cs. clean_cookie c"
    by (simp add: clean_cookie_def visible_def trim_both_def is_ws_def)
  ultimately show ?thesis
    using cookie_token_search[of sample_headers ?cs "''JWT''" "''ab.cd''"]
    by (simp add: jwt_identified_def)
qed

text \<open>
  Checking a token never gives an error value: it gives the claims, or it panics when the key file is
  not there, is not a key, or the token is refused. The answers the callers prepare for a refused token
  are never used.
\<close>

theorem verify_token_panics:
  "(\<exists>c key pem. verify_token rd from_pem dec fs token = Inr (Inr c)
       \<and> rd fs ''pki_auth/ec_pub_key.pem'' = Some pem \<and> from_pem pem = Some key \<and> dec key token = Some c)
   \<or> verify_token rd from_pem dec fs token = Inl UnwrapErr"
  by (auto simp: verify_token_def unwrap_ok_def and_then_def pki_path_def pki_def ecds_pub_file_def
      split: option.splits)


text \<open>Files as a map, and tokens that carry the key they were signed with.\<close>

definition map_read :: "(string \<Rightarrow> string option) \<Rightarrow> string \<Rightarrow> string option" where
  "map_read fs p = fs p"

definition map_write :: "(string \<Rightarrow> string option) \<Rightarrow> string \<Rightarrow> string \<Rightarrow> (string \<Rightarrow> string option) option" where
  "map_write fs p t = Some (fs(p \<mapsto> t))"

definition tag_sign :: "string \<Rightarrow> string \<Rightarrow> string option" where
  "tag_sign key c = Some (CHR ''k'' # c)"

fun tag_check :: "string \<Rightarrow> string \<Rightarrow> string option" where
  "tag_check key (c # cs) = (if c = CHR ''k'' then Some cs else None)"
| "tag_check key [] = None"


end
