(* ===== verification/Http.thy ===== *)
theory Http
  imports Tokens
begin

text \<open>
  Requests and responses as the \<^verbatim>\<open>http\<close> crate has them, for the layers and handlers of the services.
  The extensions of a request, a table with one value per type, are a record the service chooses, the type
  parameter \<open>'x\<close>.
\<close>

datatype http_method = GET | POST | PUT | PATCH | DELETE | OPTIONS | HEAD | OtherMethod string

fun method_as_str :: "http_method \<Rightarrow> string" where
  "method_as_str GET = ''GET''"
| "method_as_str POST = ''POST''"
| "method_as_str PUT = ''PUT''"
| "method_as_str PATCH = ''PATCH''"
| "method_as_str DELETE = ''DELETE''"
| "method_as_str OPTIONS = ''OPTIONS''"
| "method_as_str HEAD = ''HEAD''"
| "method_as_str (OtherMethod m) = m"

record 'x http_request =
  hq_method :: http_method
  hq_path :: string
  hq_headers :: header_map
  hq_body :: body
  hq_ext :: 'x

record 'b http_response =
  hr_status :: nat
  hr_headers :: header_map
  hr_body :: 'b

definition plain_response :: "'b \<Rightarrow> nat \<Rightarrow> 'b http_response" where
  "plain_response body st = \<lparr>hr_status = st, hr_headers = [], hr_body = body\<rparr>"

text \<open>
  \<^verbatim>\<open>HeaderMap::insert\<close> replaces every value of the name; \<^verbatim>\<open>extend\<close> with another map inserts what
  that map has, each name once here.
\<close>

definition header_insert :: "string \<Rightarrow> string \<Rightarrow> header_map \<Rightarrow> header_map" where
  "header_insert name v hs = (name, v) # filter (\<lambda>h. fst h \<noteq> name) hs"

definition header_extend :: "header_map \<Rightarrow> header_map \<Rightarrow> header_map" where
  "header_extend new hs = fold (\<lambda>(n, v). header_insert n v) new hs"

text \<open>\<^verbatim>\<open>HeaderValue::from_str\<close>.\<close>

definition header_value_of_str :: "string \<Rightarrow> string option" where
  "header_value_of_str s = (if list_all visible s then Some s else None)"

lemma header_get_simps [simp]:
  "header_get [] m = None" "header_get ((n, v) # hs) m = (if m = n then Some v else header_get hs m)"
  by (simp_all add: header_get_def)

lemma header_get_insert [simp]:
  "header_get (header_insert n v hs) m = (if m = n then Some v else header_get hs m)"
  by (induction hs) (auto simp: header_get_def header_insert_def)

lemma header_get_extend:
  "distinct (map fst new) \<Longrightarrow>
   header_get (header_extend new hs) m = (case header_get new m of Some v \<Rightarrow> Some v | None \<Rightarrow> header_get hs m)"
proof (induction new arbitrary: hs)
  case (Cons h new)
  have "header_get new (fst h) = None" using Cons.prems by (simp add: header_get_def map_of_eq_None_iff)
  then show ?case
    using Cons by (cases h) (auto simp: header_extend_def split: option.splits)
qed (simp add: header_extend_def)

end
