(* ===== verification/Middleware.thy ===== *)
theory Middleware
  imports Http
begin

text \<open>
  The stack of layers the services wrap around their entry points (utils/src/middleware): a layer is a
  function from a request and the state of the world to an answer and a new state, and the kinds of layers
  build one from the layer below: a handler that may change the request, a value put into the extensions,
  logging around the call, and cross-origin headers.

  A future here is polled to its end before anything else happens to the request, so a call is one
  function. The argument \<open>dflt\<close> is the default of the body's type, which a preflight answer has.
\<close>

definition unwrap_result :: "'e + 'a \<Rightarrow> 'a run" where
  "unwrap_result r = (case r of Inl _ \<Rightarrow> Inl UnwrapErr | Inr v \<Rightarrow> Inr v)"

lemma unwrap_result_simps [simp]:
  "unwrap_result (Inl e) = Inl UnwrapErr" "unwrap_result (Inr v) = Inr v"
  by (simp_all add: unwrap_result_def)

section \<open>Layers and stacks\<close>

type_synonym ('x, 'w, 'e, 'b) layer = "'x http_request \<Rightarrow> 'w \<Rightarrow> (('e + 'b http_response) \<times> 'w) run"

datatype empty_stack = EmptyStack

datatype 's middleware_stack = MiddlewareStack 's

datatype 'l stack = Stack (stack_inner: 'l)

definition middleware_stack_default :: "empty_stack middleware_stack" where
  "middleware_stack_default = MiddlewareStack EmptyStack"

definition entry_fn_call :: "('x, 'w, 'e, 'b) layer \<Rightarrow> ('x, 'w, 'e, 'b) layer" where
  "entry_fn_call e req w = e req w"

lemma entry_fn_call_id [simp]: "entry_fn_call e = e"
  by (intro ext) (simp add: entry_fn_call_def)

definition stack_entry_fn ::
    "('x, 'w, 'e, 'b) layer \<Rightarrow> empty_stack middleware_stack \<Rightarrow> ('x, 'w, 'e, 'b) layer stack" where
  "stack_entry_fn e ms = Stack (entry_fn_call e)"

definition stack_entry ::
    "('x, 'w, 'e, 'b) layer \<Rightarrow> empty_stack middleware_stack \<Rightarrow> ('x, 'w, 'e, 'b) layer stack" where
  "stack_entry inner ms = Stack inner"

text \<open>An \<^verbatim>\<open>IntoLayer\<close> is given by what it makes of the layer below it.\<close>

definition stack_layer :: "('l \<Rightarrow> 'm) \<Rightarrow> 'l stack \<Rightarrow> 'm stack" where
  "stack_layer into s = Stack (into (stack_inner s))"

definition handler_fn_call ::
    "('x http_request \<Rightarrow> 'w \<Rightarrow> ('x http_request \<times> 'w) run) \<Rightarrow> ('x, 'w, 'e, 'b) layer \<Rightarrow> ('x, 'w, 'e, 'b) layer" where
  "handler_fn_call f inner req w = and_then (f req w) (\<lambda>(req', w'). inner req' w')"

definition stack_layer_mut_fn ::
    "('x http_request \<Rightarrow> 'w \<Rightarrow> ('x http_request \<times> 'w) run) \<Rightarrow> ('x, 'w, 'e, 'b) layer stack \<Rightarrow> ('x, 'w, 'e, 'b) layer stack" where
  "stack_layer_mut_fn f s = Stack (handler_fn_call f (stack_inner s))"

text \<open>The argument \<open>put\<close> stores a value of the state's type in the extensions.\<close>

definition state_call ::
    "('k \<Rightarrow> 'x \<Rightarrow> 'x) \<Rightarrow> 'k \<Rightarrow> ('x, 'w, 'e, 'b) layer \<Rightarrow> ('x, 'w, 'e, 'b) layer" where
  "state_call put k inner req w = inner (req\<lparr>hq_ext := put k (hq_ext req)\<rparr>) w"

definition stack_state ::
    "('k \<Rightarrow> 'x \<Rightarrow> 'x) \<Rightarrow> 'k \<Rightarrow> ('x, 'w, 'e, 'b) layer stack \<Rightarrow> ('x, 'w, 'e, 'b) layer stack" where
  "stack_state put k s = Stack (state_call put k (stack_inner s))"

definition stack_call :: "('x, 'w, 'e, 'b) layer stack \<Rightarrow> ('x, 'w, 'e, 'b) layer" where
  "stack_call s req w = stack_inner s req w"

section \<open>Logging\<close>

text \<open>The builder's type says which of the two functions it has; only with both it builds a layer.\<close>

datatype no_req = NoReq

datatype no_res = NoRes

datatype 'r req_slot = ReqSlot 'r

datatype 'r res_slot = ResSlot 'r

record ('q, 's) log_layer_builder =
  lb_on_req :: 'q
  lb_on_res :: 's

record ('q, 's) log_layer =
  ll_on_req :: 'q
  ll_on_res :: 's

definition log_builder_default :: "(no_req, no_res) log_layer_builder" where
  "log_builder_default = \<lparr>lb_on_req = NoReq, lb_on_res = NoRes\<rparr>"

definition log_on_request ::
    "'r \<Rightarrow> (no_req, 's) log_layer_builder \<Rightarrow> ('r req_slot, 's) log_layer_builder" where
  "log_on_request on b = \<lparr>lb_on_req = ReqSlot on, lb_on_res = lb_on_res b\<rparr>"

definition log_on_response ::
    "'r \<Rightarrow> ('q, no_res) log_layer_builder \<Rightarrow> ('q, 'r res_slot) log_layer_builder" where
  "log_on_response on b = \<lparr>lb_on_req = lb_on_req b, lb_on_res = ResSlot on\<rparr>"

definition log_build :: "('q req_slot, 's res_slot) log_layer_builder \<Rightarrow> ('q, 's) log_layer" where
  "log_build b = (case (lb_on_req b, lb_on_res b) of
     (ReqSlot q, ResSlot s) \<Rightarrow> \<lparr>ll_on_req = q, ll_on_res = s\<rparr>)"

record ('q, 's) log =
  lo_before :: 'q
  lo_after :: 's

definition log_into_layer :: "('q, 's) log_layer \<Rightarrow> ('q, 's) log" where
  "log_into_layer l = \<lparr>lo_before = ll_on_req l, lo_after = ll_on_res l\<rparr>"

text \<open>
  The clock is read from the world. An error of the layer below returns at once (\<^verbatim>\<open>?\<close>), and the
  function for responses is not called.
\<close>

type_synonym ('x, 'w) on_request = "'x http_request \<Rightarrow> 'w \<Rightarrow> 'w run"

type_synonym ('w, 'b) on_response = "'b http_response \<Rightarrow> nat \<Rightarrow> 'w \<Rightarrow> 'w run"

definition log_call ::
    "('w \<Rightarrow> nat) \<Rightarrow> (('x, 'w) on_request, ('w, 'b) on_response) log \<Rightarrow> ('x, 'w, 'e, 'b) layer \<Rightarrow> ('x, 'w, 'e, 'b) layer" where
  "log_call clock l inner req w =
     and_then (lo_before l req w) (\<lambda>w1.
     and_then (inner req w1) (\<lambda>(r, w2).
       (case r of
          Inl e \<Rightarrow> Inr (Inl e, w2)
        | Inr resp \<Rightarrow> and_then (lo_after l resp (clock w) w2) (\<lambda>w3. Inr (Inr resp, w3)))))"

lemma log_call_silent:
  "lo_before l = (\<lambda>req w. Inr w) \<Longrightarrow> lo_after l = (\<lambda>r i w. Inr w) \<Longrightarrow> log_call clock l inner req w = inner req w"
  by (cases "inner req w") (auto simp: log_call_def split: prod.splits sum.splits)

section \<open>Cross-origin requests\<close>

datatype any_origin = AnyOrigin

datatype origin = Origin "string list"

datatype origin_error = OriginError

definition origin_error_display :: "origin_error \<Rightarrow> string" where
  "origin_error_display e = ''Invalid origin''"

definition origin_new :: origin where
  "origin_new = Origin []"

fun origin_push :: "string \<Rightarrow> origin \<Rightarrow> origin_error + origin" where
  "origin_push x (Origin os) = (if x = ''*'' then Inl OriginError else Inr (Origin (os @ [x])))"

text \<open>Sets of methods and headers are lists without repetition; their iteration order is an argument.\<close>

record 't cors_builder =
  cob_origin :: 't
  cob_methods :: "http_method list"
  cob_credentials :: "bool option"
  cob_headers :: "string list"

record cors_layer =
  col_origin :: "string list"
  col_methods :: string
  col_headers :: string
  col_credential :: "bool option"

record cors =
  co_origin :: "string list"
  co_methods :: "string \<times> string"
  co_headers :: "string \<times> string"
  co_credential :: "(string \<times> string) option"

definition cors_builder_default :: "any_origin cors_builder" where
  "cors_builder_default =
     \<lparr>cob_origin = AnyOrigin, cob_methods = [], cob_credentials = None, cob_headers = []\<rparr>"

definition cors_allow_method :: "http_method \<Rightarrow> 't cors_builder \<Rightarrow> 't cors_builder" where
  "cors_allow_method m b = b\<lparr>cob_methods := List.insert m (cob_methods b)\<rparr>"

definition cors_allow_header :: "string \<Rightarrow> 't cors_builder \<Rightarrow> 't cors_builder" where
  "cors_allow_header h b = b\<lparr>cob_headers := List.insert h (cob_headers b)\<rparr>"

definition cors_first_origin :: "string \<Rightarrow> any_origin cors_builder \<Rightarrow> origin cors_builder run" where
  "cors_first_origin x b =
     and_then (unwrap_result (origin_push x origin_new)) (\<lambda>os.
       Inr \<lparr>cob_origin = os, cob_methods = cob_methods b, cob_credentials = cob_credentials b,
         cob_headers = cob_headers b\<rparr>)"

definition cors_allow_origin :: "string \<Rightarrow> origin cors_builder \<Rightarrow> origin cors_builder run" where
  "cors_allow_origin x b =
     and_then (unwrap_result (origin_push x (cob_origin b))) (\<lambda>os. Inr (b\<lparr>cob_origin := os\<rparr>))"

definition cors_allow_credentials :: "bool \<Rightarrow> origin cors_builder \<Rightarrow> origin cors_builder" where
  "cors_allow_credentials c b = b\<lparr>cob_credentials := Some c\<rparr>"

definition or_star :: "string \<Rightarrow> string" where
  "or_star s = (if s = [] then ''*'' else s)"

definition cors_build ::
    "(http_method list \<Rightarrow> http_method list) \<Rightarrow> (string list \<Rightarrow> string list)
     \<Rightarrow> origin cors_builder \<Rightarrow> cors_layer run" where
  "cors_build itm ith b =
     (case cob_origin b of Origin os \<Rightarrow>
        if list_all (\<lambda>h. header_to_str h \<noteq> None) (cob_headers b)
        then Inr \<lparr>col_origin = os,
               col_methods = or_star (join_with '', '' (map method_as_str (itm (cob_methods b)))),
               col_headers = or_star (join_with '', '' (ith (cob_headers b))),
               col_credential = cob_credentials b\<rparr>
        else Inl UnwrapErr)"

definition cors_into_layer :: "cors_layer \<Rightarrow> cors run" where
  "cors_into_layer l =
     and_then (unwrap_ok (header_value_of_str (col_methods l))) (\<lambda>ms.
     and_then (unwrap_ok (header_value_of_str (col_headers l))) (\<lambda>hs.
       Inr \<lparr>co_origin = col_origin l,
         co_methods = (''access-control-allow-methods'', ms),
         co_headers = (''access-control-allow-headers'', hs),
         co_credential = map_option (\<lambda>x. (''access-control-allow-credentials'', if x then ''true'' else ''false ''))
           (col_credential l)\<rparr>))"

text \<open>What \<^verbatim>\<open>call\<close> decides on, and the future that carries it out.\<close>

datatype cors_kind = Preflight header_map | CorsHeaders header_map | Pass

definition cors_kind_of :: "cors \<Rightarrow> 'x http_request \<Rightarrow> cors_kind" where
  "cors_kind_of co req =
     (case header_get (hq_headers req) ''origin'' of
        None \<Rightarrow> Pass
      | Some x \<Rightarrow>
          if x \<notin> set (co_origin co) then Pass
          else
            (let hm = header_insert ''access-control-allow-origin'' x [];
                 hm = (case co_credential co of None \<Rightarrow> hm | Some (k, v) \<Rightarrow> header_insert k v hm)
             in if hq_method req = OPTIONS
                then Preflight (header_insert (fst (co_methods co)) (snd (co_methods co))
                       (header_insert (fst (co_headers co)) (snd (co_headers co)) hm))
                else CorsHeaders hm))"

fun cors_future :: "'b \<Rightarrow> cors_kind \<Rightarrow> ('x, 'w, 'e, 'b) layer \<Rightarrow> ('x, 'w, 'e, 'b) layer" where
  "cors_future dflt (Preflight hm) inner req w =
     Inr (Inr ((plain_response dflt 200)\<lparr>hr_headers := header_extend hm []\<rparr>), w)"
| "cors_future dflt (CorsHeaders hm) inner req w =
     and_then (inner req w) (\<lambda>(r, w').
       Inr (map_sum id (\<lambda>resp. resp\<lparr>hr_headers := header_extend hm (hr_headers resp)\<rparr>) r, w'))"
| "cors_future dflt Pass inner req w = inner req w"

definition cors_call :: "'b \<Rightarrow> cors \<Rightarrow> ('x, 'w, 'e, 'b) layer \<Rightarrow> ('x, 'w, 'e, 'b) layer" where
  "cors_call dflt co inner req w = cors_future dflt (cors_kind_of co req) inner req w"

section \<open>What the cross-origin layer answers\<close>

text \<open>What a configuration sets for an origin, by the name of the header.\<close>

definition cors_sets ::
    "(http_method list \<Rightarrow> http_method list) \<Rightarrow> (string list \<Rightarrow> string list) \<Rightarrow> origin cors_builder
     \<Rightarrow> bool \<Rightarrow> string \<Rightarrow> string \<Rightarrow> string option" where
  "cors_sets itm ith b preflight x n =
     (if n = ''access-control-allow-origin'' then Some x
      else if n = ''access-control-allow-credentials''
      then map_option (\<lambda>c. if c then ''true'' else ''false '') (cob_credentials b)
      else if preflight \<and> n = ''access-control-allow-methods''
      then Some (or_star (join_with '', '' (map method_as_str (itm (cob_methods b)))))
      else if preflight \<and> n = ''access-control-allow-headers''
      then Some (or_star (join_with '', '' (ith (cob_headers b))))
      else None)"

definition origin_allowed :: "origin cors_builder \<Rightarrow> 'x http_request \<Rightarrow> string option" where
  "origin_allowed b req =
     (case (header_get (hq_headers req) ''origin'', cob_origin b) of
        (Some x, Origin os) \<Rightarrow> if x \<in> set os then Some x else None
      | _ \<Rightarrow> None)"

lemma cors_built:
  assumes "cors_build itm ith b = Inr l" "cors_into_layer l = Inr co"
  shows "cob_origin b = Origin (co_origin co)"
    "co_methods co = (''access-control-allow-methods'', or_star (join_with '', '' (map method_as_str (itm (cob_methods b)))))"
    "co_headers co = (''access-control-allow-headers'', or_star (join_with '', '' (ith (cob_headers b))))"
    "co_credential co = map_option (\<lambda>x. (''access-control-allow-credentials'', if x then ''true'' else ''false ''))
       (cob_credentials b)"
proof -
  obtain os where o: "cob_origin b = Origin os" by (cases "cob_origin b")
  show "cob_origin b = Origin (co_origin co)"
    "co_methods co = (''access-control-allow-methods'', or_star (join_with '', '' (map method_as_str (itm (cob_methods b)))))"
    "co_headers co = (''access-control-allow-headers'', or_star (join_with '', '' (ith (cob_headers b))))"
    "co_credential co = map_option (\<lambda>x. (''access-control-allow-credentials'', if x then ''true'' else ''false ''))
       (cob_credentials b)"
    using assms o
    by (auto simp: cors_build_def cors_into_layer_def header_value_of_str_def split: if_split_asm)
qed

lemma header_insert_names:
  "distinct (map fst hm) \<Longrightarrow> distinct (map fst (header_insert n v hm))"
  by (auto simp: header_insert_def distinct_map_filter)

lemma cors_kind_cases:
  assumes "cors_build itm ith b = Inr l" "cors_into_layer l = Inr co"
  shows "case origin_allowed b req of
      None \<Rightarrow> cors_kind_of co req = Pass
    | Some x \<Rightarrow> \<exists>hm. distinct (map fst hm) \<and> (\<forall>n. header_get hm n = cors_sets itm ith b (hq_method req = OPTIONS) x n)
        \<and> cors_kind_of co req = (if hq_method req = OPTIONS then Preflight hm else CorsHeaders hm)"
proof (cases "origin_allowed b req")
  case None
  then show ?thesis
    by (auto simp: origin_allowed_def cors_kind_of_def cors_built(1)[OF assms] split: option.splits if_splits)
next
  case (Some x)
  then have x: "header_get (hq_headers req) ''origin'' = Some x" "x \<in> set (co_origin co)"
    by (auto simp: origin_allowed_def cors_built(1)[OF assms] split: option.splits if_splits)
  show ?thesis
    by (cases "cob_credentials b"; cases "hq_method req = OPTIONS")
      (simp_all add: Some cors_kind_of_def x Let_def cors_built[OF assms] cors_sets_def header_insert_names)
qed

text \<open>Seen from below, the layer answers preflight requests itself and otherwise only adds headers.\<close>

definition cors_preflight :: "cors \<Rightarrow> 'x http_request \<Rightarrow> bool" where
  "cors_preflight co req \<longleftrightarrow> hq_method req = OPTIONS
     \<and> (case header_get (hq_headers req) ''origin'' of None \<Rightarrow> False | Some x \<Rightarrow> x \<in> set (co_origin co))"

definition only_headers :: "('b http_response \<Rightarrow> 'b http_response) \<Rightarrow> bool" where
  "only_headers deco \<longleftrightarrow> (\<forall>r. hr_status (deco r) = hr_status r \<and> hr_body (deco r) = hr_body r)"

lemma map_sum_id: "map_sum id (\<lambda>r. r) = id"
proof
  show "map_sum id (\<lambda>r. r) x = id x" for x :: "'a + 'b" by (cases x) simp_all
qed

lemma cors_call_below:
  "\<exists>hs deco. only_headers deco \<and> cors_call dflt co inner req w =
     (if cors_preflight co req then Inr (Inr \<lparr>hr_status = 200, hr_headers = hs, hr_body = dflt\<rparr>, w)
      else and_then (inner req w) (\<lambda>(r, w'). Inr (map_sum id deco r, w')))"
proof (cases "cors_kind_of co req")
  case Pass
  then have "\<not> cors_preflight co req"
    by (auto simp: cors_preflight_def cors_kind_of_def Let_def split: option.splits if_split_asm)
  then show ?thesis using Pass
    by (intro exI[of _ "\<lambda>r. r"] exI) (simp add: cors_call_def only_headers_def map_sum_id and_then_def
        case_prod_unfold split: sum.split)
next
  case (Preflight hm)
  then have "cors_preflight co req"
    by (auto simp: cors_preflight_def cors_kind_of_def Let_def split: option.splits if_split_asm)
  then show ?thesis using Preflight
    by (intro exI[of _ "header_extend hm []"] exI[of _ "\<lambda>r. r"])
      (simp add: cors_call_def only_headers_def plain_response_def)
next
  case (CorsHeaders hm)
  then have "\<not> cors_preflight co req"
    by (auto simp: cors_preflight_def cors_kind_of_def Let_def split: option.splits if_split_asm)
  then show ?thesis using CorsHeaders
    by (intro exI exI[of _ "\<lambda>r. r\<lparr>hr_headers := header_extend hm (hr_headers r)\<rparr>"])
      (simp add: cors_call_def only_headers_def)
qed

end
