(* ===== verification/Proxy_Info.thy ===== *)
theory Proxy_Info
  imports Middleware Ip_Addr
begin

text \<open>
  Who a request comes from (utils/src/middleware/proxy_info.rs, utils/src/peer.rs) and where a service says
  it is (utils/src/app_info): the address of the connection, what proxies report in their headers, and the
  layer that puts one of them into the extensions of the request.
\<close>

section \<open>The connection and the protocol\<close>

type_synonym socket_addr = "ip_addr \<times> nat"

definition show_socket :: "socket_addr \<Rightarrow> string" where
  "show_socket a =
     (case a of
        (V4 os, port) \<Rightarrow> show_ip (V4 os) @ '':'' @ show_nat port
      | (V6 gs, port) \<Rightarrow> ''['' @ show_ip (V6 gs) @ '']:'' @ show_nat port)"

datatype peer = Peer "socket_addr option"

fun get_socket_or_unknown :: "peer \<Rightarrow> string" where
  "get_socket_or_unknown (Peer s) = (case s of None \<Rightarrow> ''Unknown'' | Some a \<Rightarrow> show_socket a)"

fun get_ip :: "peer \<Rightarrow> ip_addr option" where
  "get_ip (Peer s) = map_option fst s"

datatype proto = Http | Https | UnknownProto | Ws | Wss | Ftp

fun proto_display :: "proto \<Rightarrow> string" where
  "proto_display Http = ''http''"
| "proto_display Https = ''https''"
| "proto_display UnknownProto = ''unknown''"
| "proto_display Ws = ''ws''"
| "proto_display Ftp = ''ftp''"
| "proto_display Wss = ''wss''"

definition proto_of_str :: "string \<Rightarrow> proto" where
  "proto_of_str v =
     (if v = ''http'' then Http else if v = ''https'' then Https else if v = ''ws'' then Ws
      else if v = ''wss'' then Wss else if v = ''ftp'' then Ftp else UnknownProto)"

lemma proto_roundtrip [simp]: "proto_of_str (proto_display p) = p"
  by (cases p) (simp_all add: proto_of_str_def)

section \<open>The host of a service\<close>

datatype host_type =
    Domain proto string
  | HostIpv4 proto "8 word list"
  | HostIpv6 proto "16 word list"

datatype host = Host host_type

fun host_proto :: "host \<Rightarrow> proto" where
  "host_proto (Host (Domain p d)) = p"
| "host_proto (Host (HostIpv4 p ip)) = p"
| "host_proto (Host (HostIpv6 p ip)) = p"

fun host_domain :: "host \<Rightarrow> string" where
  "host_domain (Host (Domain p d)) = d"
| "host_domain (Host (HostIpv4 p ip)) = show_ip (V4 ip)"
| "host_domain (Host (HostIpv6 p ip)) = show_ip (V6 ip)"

definition host_text :: "host \<Rightarrow> string" where
  "host_text h = proto_display (host_proto h) @ ''://'' @ host_domain h @ ''/''"

definition host_new_ip :: "proto \<Rightarrow> ip_addr \<Rightarrow> host" where
  "host_new_ip p ip = Host (case ip of V4 os \<Rightarrow> HostIpv4 p os | V6 gs \<Rightarrow> HostIpv6 p gs)"

definition host_new_domain :: "proto \<Rightarrow> string \<Rightarrow> host" where
  "host_new_domain p d = Host (Domain p d)"

text \<open>\<^verbatim>\<open>str::parse::<usize>\<close> for a 64-bit target: an optional plus and at least one digit.\<close>

definition parse_usize :: "string \<Rightarrow> nat option" where
  "parse_usize s =
     (let ds = (if take 1 s = ''+'' then drop 1 s else s)
      in if ds \<noteq> [] \<and> list_all is_digit ds \<and> read_nat ds < 2 ^ 64 then Some (read_nat ds) else None)"

text \<open>
  \<^verbatim>\<open>Host::from_url\<close>. The regular expression is applied by the \<^verbatim>\<open>regex\<close> crate; the argument
  \<open>captures\<close> is what it captures. \<open>host_regex\<close> states of it what the expression says: the url is the protocol,
  a host, which is an address or a domain, at most a colon and one digit, and a slash.
\<close>

record url_captures =
  uc_proto :: string
  uc_ip :: "string option"
  uc_domain :: "string option"
  uc_port :: "string option"

definition host_from_url :: "(string \<Rightarrow> url_captures option) \<Rightarrow> string \<Rightarrow> host option" where
  "host_from_url captures url =
     (case captures url of
        None \<Rightarrow> None
      | Some cap \<Rightarrow>
          (let pr = proto_of_str (uc_proto cap)
           in case Option.bind (uc_ip cap) parse_ip of
                Some ip \<Rightarrow>
                  (case Option.bind (uc_port cap) parse_usize of
                     Some x \<Rightarrow> if 1 \<le> x \<and> x < 65535 then Some (host_new_ip pr ip) else None
                   | None \<Rightarrow> Some (host_new_ip pr ip))
              | None \<Rightarrow> map_option (host_new_domain pr) (uc_domain cap)))"

definition host_regex :: "(string \<Rightarrow> url_captures option) \<Rightarrow> bool" where
  "host_regex captures \<longleftrightarrow> (\<forall>url c. captures url = Some c \<longrightarrow>
     (uc_proto c = ''http'' \<or> uc_proto c = ''https'')
     \<and> (case uc_port c of None \<Rightarrow> True | Some p \<Rightarrow> take 1 p = '':'')
     \<and> (case (uc_ip c, uc_domain c) of
          (Some ip, None) \<Rightarrow> url = uc_proto c @ ''://'' @ ip @ opt_default [] (uc_port c) @ ''/''
        | (None, Some d) \<Rightarrow> url = uc_proto c @ ''://'' @ d @ opt_default [] (uc_port c) @ ''/''
        | _ \<Rightarrow> False))"

section \<open>What proxies report\<close>

datatype ip = Ip ip_addr | UnknownIp | NotDefined

definition ip_of_str :: "string \<Rightarrow> ip" where
  "ip_of_str v =
     (case parse_ip v of
        Some a \<Rightarrow> Ip a
      | None \<Rightarrow> if v = ''unknown'' then UnknownIp else NotDefined)"

record forwarded =
  fw_for :: ip
  fw_by :: ip
  fw_proto :: proto

record forwarded_builder =
  fb_for :: "ip option"
  fb_by :: "ip option"
  fb_proto :: "proto option"

definition forwarded_builder_default :: forwarded_builder where
  "forwarded_builder_default = \<lparr>fb_for = None, fb_by = None, fb_proto = None\<rparr>"

definition forwarded_build :: "forwarded_builder \<Rightarrow> forwarded" where
  "forwarded_build b = \<lparr>fw_for = opt_default NotDefined (fb_for b), fw_by = opt_default NotDefined (fb_by b),
     fw_proto = opt_default UnknownProto (fb_proto b)\<rparr>"

definition forwarded_set :: "string \<Rightarrow> string \<Rightarrow> forwarded_builder \<Rightarrow> forwarded_builder" where
  "forwarded_set key v b =
     (if key = ''for'' then b\<lparr>fb_for := Some (ip_of_str v)\<rparr>
      else if key = ''by'' then b\<lparr>fb_by := Some (ip_of_str v)\<rparr>
      else if key = ''proto'' then b\<lparr>fb_proto := Some (proto_of_str v)\<rparr>
      else b)"

fun forwarded_pairs :: "string list \<Rightarrow> forwarded_builder \<Rightarrow> forwarded_builder run" where
  "forwarded_pairs [] b = Inr b"
| "forwarded_pairs (p # ps) b =
     and_then (unwrap (split_once ''='' p)) (\<lambda>(key, v). forwarded_pairs ps (forwarded_set key v b))"

definition forwarded_of_str :: "string \<Rightarrow> forwarded run" where
  "forwarded_of_str v =
     and_then (forwarded_pairs (map trim_both (split_ch CHR '';'' v)) forwarded_builder_default)
       (\<lambda>b. Inr (forwarded_build b))"

datatype proxy_info_type =
    Forwarded "forwarded list"
  | XRealIp ip
  | XForwardedFor ip "ip list"
  | XForwardedProto proto
  | XForwardedHost string

definition proxy_info_default :: proxy_info_type where
  "proxy_info_default = XRealIp NotDefined"

fun proxy_peer :: "proxy_info_type \<Rightarrow> ip" where
  "proxy_peer (Forwarded ps) = (case nth_opt ps 0 of None \<Rightarrow> NotDefined | Some f \<Rightarrow> fw_for f)"
| "proxy_peer (XRealIp a) = a"
| "proxy_peer (XForwardedFor a ps) = a"
| "proxy_peer (XForwardedProto p) = NotDefined"
| "proxy_peer (XForwardedHost h) = NotDefined"

section \<open>The layer\<close>

text \<open>The extensions that concern connections; a service adds its own.\<close>

record exts =
  ex_peer :: "peer option"
  ex_proxy :: "proxy_info_type option"

fun all_forwarded :: "string list \<Rightarrow> forwarded list run" where
  "all_forwarded [] = Inr []"
| "all_forwarded (x # xs) =
     and_then (forwarded_of_str x) (\<lambda>f. and_then (all_forwarded xs) (\<lambda>fs. Inr (f # fs)))"

definition text_header :: "header_map \<Rightarrow> string \<Rightarrow> string option" where
  "text_header hs n = Option.bind (header_get hs n) header_to_str"

definition proxy_info_of :: "header_map \<Rightarrow> peer option \<Rightarrow> proxy_info_type option run" where
  "proxy_info_of hs peer =
     (case text_header hs ''forwarded'' of
        Some fw \<Rightarrow> and_then (all_forwarded (split_ch CHR '','' fw)) (\<lambda>fs. Inr (Some (Forwarded fs)))
      | None \<Rightarrow>
          (case text_header hs ''x-forwarded-for'' of
             Some fw \<Rightarrow>
               (case map (\<lambda>x. ip_of_str (trim_start x)) (split_ch CHR '','' fw) of
                  [] \<Rightarrow> Inl OutOfBounds
                | x # xs \<Rightarrow> Inr (Some (XForwardedFor x xs)))
           | None \<Rightarrow>
               (case text_header hs ''x-real-ip'' of
                  Some v \<Rightarrow> Inr (Some (XRealIp (ip_of_str v)))
                | None \<Rightarrow> Inr (map_option (\<lambda>a. XRealIp (Ip a)) (Option.bind peer get_ip)))))"

definition proxy_info_call :: "('m exts_scheme, 'w, 'e, 'b) layer \<Rightarrow> ('m exts_scheme, 'w, 'e, 'b) layer" where
  "proxy_info_call inner req w =
     (let peer = ex_peer (hq_ext req);
          req = req\<lparr>hq_ext := (hq_ext req)\<lparr>ex_peer := None\<rparr>\<rparr>
      in and_then (proxy_info_of (hq_headers req) peer) (\<lambda>info.
           inner (req\<lparr>hq_ext := (hq_ext req)\<lparr>ex_proxy := Some (opt_default proxy_info_default info)\<rparr>\<rparr>) w))"

text \<open>\<^verbatim>\<open>ProxyInfoLayer\<close> has no configuration.\<close>

definition proxy_info_layer ::
    "('m exts_scheme, 'w, 'e, 'b) layer \<Rightarrow> ('m exts_scheme, 'w, 'e, 'b) layer" where
  "proxy_info_layer inner = proxy_info_call inner"

section \<open>When the headers of proxies are fatal\<close>

definition has_pairs :: "string \<Rightarrow> bool" where
  "has_pairs x \<longleftrightarrow> (\<forall>p \<in> set (split_ch CHR '';'' x). CHR ''='' \<in> set (trim_both p))"

lemma split_once_char_None: "split_once [c] s = None \<longleftrightarrow> c \<notin> set s"
  by (auto simp: split_once_None_iff in_set_conv_decomp)

lemma forwarded_pairs_panics:
  "forwarded_pairs ps b = Inl p \<longleftrightarrow> p = UnwrapNone \<and> (\<exists>x \<in> set ps. CHR ''='' \<notin> set x)"
proof (induction ps arbitrary: b)
  case (Cons x ps)
  show ?case
    by (cases "split_once ''='' x")
      (use Cons split_once_char_None[of "CHR ''=''" x] in \<open>auto split: prod.splits\<close>)
qed simp

lemma and_then_eq_Inl: "and_then x f = Inl p \<longleftrightarrow> x = Inl p \<or> (\<exists>v. x = Inr v \<and> f v = Inl p)"
  by (cases x) auto

lemma forwarded_panics: "forwarded_of_str v = Inl p \<longleftrightarrow> p = UnwrapNone \<and> \<not> has_pairs v"
  by (auto simp: forwarded_of_str_def and_then_eq_Inl forwarded_pairs_panics has_pairs_def)

lemma all_forwarded_panics:
  "all_forwarded xs = Inl p \<longleftrightarrow> p = UnwrapNone \<and> (\<exists>x \<in> set xs. \<not> has_pairs x)"
proof (induction xs)
  case (Cons x xs)
  have "\<exists>f. forwarded_of_str x = Inr f" if "has_pairs x"
    using that forwarded_panics[of x] by (cases "forwarded_of_str x") auto
  then show ?case using Cons by (auto simp: and_then_eq_Inl forwarded_panics)
qed simp

lemma proxy_info_panics:
  "proxy_info_of hs peer = Inl p \<longleftrightarrow>
   p = UnwrapNone \<and> (\<exists>fw. text_header hs ''forwarded'' = Some fw \<and> (\<exists>x \<in> set (split_ch CHR '','' fw). \<not> has_pairs x))"
  by (auto simp: proxy_info_of_def and_then_eq_Inl all_forwarded_panics split: option.splits list.splits)

section \<open>The host a service is started with\<close>

text \<open>The captured port begins with its colon, so it is never a number and the check of its range never fails.\<close>

lemma host_regexD:
  assumes "host_regex captures" "captures url = Some c"
  shows "case uc_port c of None \<Rightarrow> True | Some p \<Rightarrow> take 1 p = '':''"
    "uc_ip c = Some ip \<Longrightarrow> uc_domain c = None"
proof -
  have all: "(case uc_port c of None \<Rightarrow> True | Some p \<Rightarrow> take 1 p = '':'')
     \<and> (case (uc_ip c, uc_domain c) of
          (Some ip, None) \<Rightarrow> url = uc_proto c @ ''://'' @ ip @ opt_default [] (uc_port c) @ ''/''
        | (None, Some d) \<Rightarrow> url = uc_proto c @ ''://'' @ d @ opt_default [] (uc_port c) @ ''/''
        | _ \<Rightarrow> False)"
    using assms unfolding host_regex_def by blast
  then show "case uc_port c of None \<Rightarrow> True | Some p \<Rightarrow> take 1 p = '':''" by blast
  show "uc_ip c = Some ip \<Longrightarrow> uc_domain c = None"
    using all by (cases "uc_domain c") auto
qed

lemma parse_usize_colon: "take 1 p = '':'' \<Longrightarrow> parse_usize p = None"
  by (cases p) (auto simp: parse_usize_def is_digit_def)

lemma host_from_url_exact:
  assumes "host_regex captures" "captures url = Some c"
  shows "host_from_url captures url =
    (case uc_ip c of
       Some ip \<Rightarrow> map_option (host_new_ip (proto_of_str (uc_proto c))) (parse_ip ip)
     | None \<Rightarrow> map_option (host_new_domain (proto_of_str (uc_proto c))) (uc_domain c))"
proof -
  have port: "Option.bind (uc_port c) parse_usize = None"
    using host_regexD(1)[OF assms] parse_usize_colon by (cases "uc_port c") (simp_all del: One_nat_def)
  show ?thesis
  proof (cases "uc_ip c")
    case None
    then show ?thesis using assms(2) by (simp add: host_from_url_def)
  next
    case (Some ip)
    then show ?thesis
      using assms(2) host_regexD(2)[OF assms Some] port by (cases "parse_ip ip") (simp_all add: host_from_url_def)
  qed
qed

lemma host_text_slash: "\<exists>s. host_text h = s @ ''/''"
  by (simp add: host_text_def)

end
