(* ===== verification/Sql_Query.thy ===== *)
theory Sql_Query
  imports Prelude
begin

text \<open>
  The SQL the auth service writes (auth/src/state/types.rs and auth/src/state/queries.rs): \<open>query_own\<close>,
  \<open>insert_own\<close> and \<open>update_own\<close> are the builders of its select, insert and update statements. A built
  statement is its text with the values bound to its placeholders, in the order in which they are bound.

  A \<^verbatim>\<open>HashMap\<close> or \<^verbatim>\<open>HashSet\<close> is its list of entries, without duplicates; the order in which
  the standard library iterates over it is unspecified, so it is an argument \<open>it\<close> of the definitions that
  iterate: any function that permutes its list. The \<^verbatim>\<open>Table\<close> trait is the record of its functions.
\<close>

section \<open>Values\<close>

text \<open>A \<^verbatim>\<open>Uuid\<close> is its bytes.\<close>

type_synonym uuid = string

datatype user_state = Active | Inactive

datatype role = SuperUser | Administrator | Productor | Operador

datatype permissions = Put | Get | Delete | Read

datatype sql_value =
    TUuid uuid
  | TString string
  | TOptString "string option"
  | TOptUuid "uuid option"
  | TUserState user_state
  | TRole role
  | TVecAnyPermission "permissions list"
  | TVecContainsPermission "permissions list"
  | TVecOverlapsPermission "permissions list"

record statement =
  st_text :: string
  st_args :: "sql_value list"

record 'a sql_table =
  tb_name :: string
  tb_columns :: "string list"
  tb_values :: "'a \<Rightarrow> sql_value list"

type_synonym where_map = "(string \<times> sql_value) list"

text \<open>\<^verbatim>\<open>HashMap::insert\<close>: an entry of the same key is replaced.\<close>

fun hm_insert :: "'k \<Rightarrow> 'v \<Rightarrow> ('k \<times> 'v) list \<Rightarrow> ('k \<times> 'v) list" where
  "hm_insert k v [] = [(k, v)]"
| "hm_insert k v ((k', v') # m) = (if k' = k then (k, v) # m else (k', v') # hm_insert k v m)"

definition hm_collect :: "('k \<times> 'v) list \<Rightarrow> ('k \<times> 'v) list" where
  "hm_collect kvs = foldl (\<lambda>m (k, v). hm_insert k v m) [] kvs"

definition hs_insert :: "'k \<Rightarrow> 'k list \<Rightarrow> 'k list" where
  "hs_insert k s = (if k \<in> set s then s else s @ [k])"

definition placeholder :: "nat \<Rightarrow> string" where
  "placeholder n = CHR ''$'' # show_nat n"

section \<open>Select\<close>

definition table_query :: "'a sql_table \<Rightarrow> string" where
  "table_query t = ''SELECT * FROM '' @ tb_name t"

record query_own =
  qo_wh :: "where_map option"
  qo_query :: string
  qo_group_by :: "string list"

definition query_builder :: query_own where
  "query_builder = \<lparr>qo_wh = None, qo_query = [], qo_group_by = []\<rparr>"

definition query_group_by :: "string \<Rightarrow> query_own \<Rightarrow> query_own" where
  "query_group_by col q = q\<lparr>qo_group_by := hs_insert col (qo_group_by q)\<rparr>"

definition query_wh :: "string \<Rightarrow> sql_value \<Rightarrow> query_own \<Rightarrow> query_own" where
  "query_wh index value q =
     (case qo_wh q of
        None \<Rightarrow> q\<lparr>qo_wh := Some [(index, value)]\<rparr>
      | Some wh \<Rightarrow> q\<lparr>qo_wh := Some (hm_insert index value wh)\<rparr>)"

definition query_wh_vec_any :: "string \<Rightarrow> permissions list \<Rightarrow> query_own \<Rightarrow> query_own" where
  "query_wh_vec_any column values q =
     (case qo_wh q of
        None \<Rightarrow> q\<lparr>qo_wh := Some [(column, TVecAnyPermission values)]\<rparr>
      | Some wh \<Rightarrow> q\<lparr>qo_wh := Some (hm_insert column (TVecAnyPermission values) wh)\<rparr>)"

definition condition_text :: "string \<Rightarrow> sql_value \<Rightarrow> nat \<Rightarrow> string" where
  "condition_text key value n =
     (case value of
        TVecAnyPermission _ \<Rightarrow> '' '' @ key @ '' = ANY('' @ placeholder n @ '')''
      | _ \<Rightarrow> '' '' @ key @ '' = '' @ placeholder n)"

text \<open>The loop of \<^verbatim>\<open>build\<close> over the conditions, with its variables \<open>first\<close>, \<open>n\<close>, the text and \<open>aux\<close>.\<close>

fun where_loop :: "bool \<Rightarrow> nat \<Rightarrow> string \<Rightarrow> sql_value list \<Rightarrow> where_map \<Rightarrow> string \<times> sql_value list" where
  "where_loop first n text aux [] = (text, aux)"
| "where_loop first n text aux ((key, value) # wheres) =
     where_loop False (n + 1)
       (text @ (if first then '' WHERE'' else '' AND'') @ condition_text key value n)
       (aux @ [value]) wheres"

definition query_build ::
    "(where_map \<Rightarrow> where_map) \<Rightarrow> (string list \<Rightarrow> string list) \<Rightarrow> string \<Rightarrow> query_own \<Rightarrow> statement" where
  "query_build it its select q =
     (let (text, aux) =
        (case qo_wh q of
           None \<Rightarrow> (select, [])
         | Some wheres \<Rightarrow> where_loop True 1 select [] (it wheres));
        text' = (if qo_group_by q = [] then text
                 else text @ '' GROUP BY '' @ join_with '','' (its (qo_group_by q)))
      in \<lparr>st_text = text', st_args = aux\<rparr>)"

section \<open>Insert\<close>

record 'a insert_own =
  io_query :: string
  io_item :: "'a option"

definition insert_insert :: "'a sql_table \<Rightarrow> 'a \<Rightarrow> 'a insert_own" where
  "insert_insert t item =
     \<lparr>io_query = ''INSERT INTO '' @ tb_name t @ '' ('' @ join_with '','' (tb_columns t) @ '') VALUES (''
        @ join_with '','' (map placeholder [1..<length (tb_columns t) + 1]) @ '')'',
      io_item = Some item\<rparr>"

definition insert_query :: "'a sql_table \<Rightarrow> 'a insert_own \<Rightarrow> (statement \<times> 'a insert_own) run" where
  "insert_query t q =
     and_then (unwrap (io_item q)) (\<lambda>item.
       Inr (\<lparr>st_text = io_query q, st_args = tb_values t item\<rparr>, q\<lparr>io_item := None\<rparr>))"

text \<open>The builder for a list of rows is still to be written.\<close>

definition insert_list :: "'a list \<Rightarrow> 'a list insert_own run" where
  "insert_list items = Inl TodoReached"

definition insert_list_query :: "'a list insert_own \<Rightarrow> (statement \<times> 'a list insert_own) run" where
  "insert_list_query q = Inl TodoReached"

section \<open>Update\<close>

record update_own =
  uo_query :: string
  uo_wh :: where_map
  uo_items :: "sql_value list"

datatype update_own_err = UpdateOwnErr

definition update_new :: update_own where
  "update_new = \<lparr>uo_query = [], uo_wh = [], uo_items = []\<rparr>"

fun set_loop :: "nat \<Rightarrow> string \<Rightarrow> sql_value list \<Rightarrow> where_map \<Rightarrow> string \<times> sql_value list" where
  "set_loop i text items [] = (text, items)"
| "set_loop i text items ((k, v) # kvs) =
     set_loop (i + 1)
       (text @ (if 1 < i then '','' else []) @ '' '' @ k @ '' = '' @ placeholder i)
       (items @ [v]) kvs"

definition update_from ::
    "(where_map \<Rightarrow> where_map) \<Rightarrow> 'a sql_table \<Rightarrow> where_map \<Rightarrow> update_own \<Rightarrow> update_own" where
  "update_from it t items u =
     (case set_loop 1 (''UPDATE '' @ tb_name t @ '' SET'') (uo_items u) (it items) of
        (text, vs) \<Rightarrow> u\<lparr>uo_query := text, uo_items := vs\<rparr>)"

definition update_wh :: "string \<Rightarrow> sql_value \<Rightarrow> update_own \<Rightarrow> update_own" where
  "update_wh index value u = u\<lparr>uo_wh := hm_insert index value (uo_wh u)\<rparr>"

text \<open>\<open>count\<close> is not changed in the loop over the conditions.\<close>

fun update_where_loop :: "nat \<Rightarrow> nat \<Rightarrow> string \<Rightarrow> sql_value list \<Rightarrow> where_map \<Rightarrow> string \<times> sql_value list" where
  "update_where_loop len i text items [] = (text, items)"
| "update_where_loop len i text items ((k, v) # kvs) =
     update_where_loop len i
       (text @ (if i = len + 1 then '' WHERE'' else '','') @ '' '' @ k @ '' = '' @ placeholder i)
       (items @ [v]) kvs"

definition update_query ::
    "(where_map \<Rightarrow> where_map) \<Rightarrow> update_own \<Rightarrow> (update_own_err + statement) \<times> update_own" where
  "update_query it u =
     (if uo_items u = [] then (Inl UpdateOwnErr, u)
      else
        let len = length (uo_items u);
            i = len + 1;
            (text, items) = update_where_loop len i (uo_query u) (uo_items u) (it (uo_wh u))
        in (Inr \<lparr>st_text = text, st_args = items\<rparr>, u\<lparr>uo_query := text, uo_wh := [], uo_items := []\<rparr>))"

definition update_err_display :: "update_own_err \<Rightarrow> string" where
  "update_err_display e = ''Values not defined''"

section \<open>Placeholders and bound values\<close>

text \<open>
  The numbers of the placeholders of a text, in order. PostgreSQL accepts a statement only when the
  placeholders are exactly those of the values bound to it: \<open>bound\<close>.
\<close>

fun placeholders :: "string \<Rightarrow> nat list" where
  "placeholders [] = []"
| "placeholders (c # s) =
     (if c = CHR ''$'' then read_nat (takeWhile is_digit s) # placeholders s else placeholders s)"

definition bound :: "statement \<Rightarrow> bool" where
  "bound st \<longleftrightarrow> set (placeholders (st_text st)) = {1..length (st_args st)}"

definition plain :: "string \<Rightarrow> bool" where
  "plain s \<longleftrightarrow> CHR ''$'' \<notin> set s"

lemma plain_simps [simp]:
  "plain []" "plain (c # s) \<longleftrightarrow> c \<noteq> CHR ''$'' \<and> plain s" "plain (a @ b) \<longleftrightarrow> plain a \<and> plain b"
  by (auto simp: plain_def)

lemma placeholders_plain [simp]: "plain s \<Longrightarrow> placeholders s = []"
  by (induction s) auto

lemma placeholders_plain_append [simp]: "plain a \<Longrightarrow> placeholders (a @ s) = placeholders s"
  by (induction a) auto

lemma placeholders_append:
  "b = [] \<or> \<not> is_digit (hd b) \<Longrightarrow> placeholders (a @ b) = placeholders a @ placeholders b"
proof (induction a)
  case (Cons c a)
  have "takeWhile is_digit (a @ b) = takeWhile is_digit a"
    using Cons.prems by (induction a) (cases b; auto)+
  then show ?case using Cons by simp
qed simp

lemma plain_show_nat [simp]: "plain (show_nat n)"
  using show_nat_digits[of "CHR ''$''" n] by (auto simp: plain_def is_digit_def)

lemma placeholders_placeholder [simp]: "placeholders (placeholder n) = [n]"
proof -
  have "takeWhile is_digit (show_nat n) = show_nat n"
    using show_nat_digits by (metis takeWhile_eq_all_conv)
  then have "read_nat (takeWhile is_digit (show_nat n)) = n"
    using read_show_nat by metis
  then show ?thesis by (simp add: placeholder_def)
qed

lemma not_digit [simp]:
  "\<not> is_digit (CHR '' '')" "\<not> is_digit (CHR '','')" "\<not> is_digit (CHR '')'')"
  by (simp_all add: is_digit_def)

lemma placeholders_placeholder_append:
  "b = [] \<or> \<not> is_digit (hd b) \<Longrightarrow> placeholders (placeholder n @ b) = n # placeholders b"
  by (simp add: placeholders_append)

lemma placeholders_condition [simp]:
  "plain k \<Longrightarrow> placeholders (condition_text k v n) = [n]"
  by (cases v) (simp_all add: condition_text_def placeholders_placeholder_append)

lemma condition_text_hd: "\<exists>t. condition_text k v n = CHR '' '' # t"
  by (cases v) (simp_all add: condition_text_def)

section \<open>The text of the statements\<close>

text \<open>The conditions or assignments \<open>f\<close> writes, numbered from \<open>n\<close>.\<close>

fun numbered :: "(string \<Rightarrow> sql_value \<Rightarrow> nat \<Rightarrow> string) \<Rightarrow> nat \<Rightarrow> where_map \<Rightarrow> string list" where
  "numbered f n [] = []"
| "numbered f n ((k, v) # wh) = f k v n # numbered f (n + 1) wh"

definition assign_text :: "string \<Rightarrow> sql_value \<Rightarrow> nat \<Rightarrow> string" where
  "assign_text k v n = '' '' @ k @ '' = '' @ placeholder n"

lemma placeholders_assign [simp]: "plain k \<Longrightarrow> placeholders (assign_text k v n) = [n]"
  by (simp add: assign_text_def)

lemma join_with_Cons: "join_with sep (x # xs) = x @ concat (map (\<lambda>c. sep @ c) xs)"
  by (induction xs arbitrary: x) simp_all

lemma where_loop_rest:
  "where_loop False n s aux wh =
     (s @ concat (map (\<lambda>c. '' AND'' @ c) (numbered condition_text n wh)), aux @ map snd wh)"
  by (induction wh arbitrary: n s aux) (auto simp del: append_assoc simp: append_assoc[symmetric])

lemma where_loop_text:
  "where_loop True n s aux wh =
     (s @ (if wh = [] then [] else '' WHERE'' @ join_with '' AND'' (numbered condition_text n wh)),
      aux @ map snd wh)"
  by (cases wh) (auto simp: where_loop_rest join_with_Cons)

lemma set_loop_rest:
  "1 < n \<Longrightarrow> set_loop n s aux kvs =
     (s @ concat (map (\<lambda>c. '','' @ c) (numbered assign_text n kvs)), aux @ map snd kvs)"
  by (induction kvs arbitrary: n s aux) (auto simp: assign_text_def)

lemma set_loop_text:
  "set_loop 1 s aux kvs = (s @ join_with '','' (numbered assign_text 1 kvs), aux @ map snd kvs)"
  by (cases kvs) (auto simp: set_loop_rest join_with_Cons assign_text_def)

lemma update_where_loop_text:
  "update_where_loop len (len + 1) s items wh =
     (s @ concat (map (\<lambda>(k, v). '' WHERE'' @ assign_text k v (len + 1)) wh), items @ map snd wh)"
  by (induction wh arbitrary: s items) (auto simp: assign_text_def)

lemma placeholders_concat_sep:
  assumes "sep \<noteq> []" "\<not> is_digit (hd sep)"
  shows "placeholders (x @ concat (map (\<lambda>c. sep @ c) xs)) = placeholders x @ placeholders (concat (map (\<lambda>c. sep @ c) xs))"
  using assms by (intro placeholders_append) (cases xs; auto)

lemma placeholders_numbered:
  assumes "\<And>k v n. plain k \<Longrightarrow> placeholders (f k v n) = [n]" "\<forall>(k, v) \<in> set wh. plain k"
    "plain sep" "sep \<noteq> []" "\<not> is_digit (hd sep)"
  shows "placeholders (concat (map (\<lambda>c. sep @ c) (numbered f n wh))) = [n..<n + length wh]"
  using assms(2)
proof (induction wh arbitrary: n)
  case (Cons x wh)
  obtain k v where x: "x = (k, v)" by (cases x)
  show ?case
    using Cons x assms(1,3) placeholders_concat_sep[OF assms(4,5), of "f k v n"]
    by (simp add: upt_conv_Cons del: upt_Suc)
qed simp

lemma placeholders_join_numbered:
  assumes "\<And>k v n. plain k \<Longrightarrow> placeholders (f k v n) = [n]" "\<forall>(k, v) \<in> set wh. plain k"
    "plain sep" "sep \<noteq> []" "\<not> is_digit (hd sep)"
  shows "placeholders (join_with sep (numbered f n wh)) = [n..<n + length wh]"
proof (cases wh)
  case (Cons x wh')
  obtain k v where x: "x = (k, v)" by (cases x)
  show ?thesis
    using assms placeholders_numbered[of f wh' sep "Suc n"] placeholders_concat_sep[OF assms(4,5), of "f k v n"]
    by (simp add: Cons x join_with_Cons upt_conv_Cons del: upt_Suc)
qed simp

lemma placeholders_join_placeholder:
  "placeholders (join_with '','' (map placeholder ns) @ '')'') = ns"
proof (induction ns)
  case (Cons n ns)
  have "placeholders (concat (map (\<lambda>c. '','' @ c) (map placeholder ns)) @ '')'') = ns"
    using Cons by (cases ns) (simp_all add: join_with_Cons)
  moreover have "placeholders (placeholder n @ (concat (map (\<lambda>c. '','' @ c) (map placeholder ns)) @ '')''))
      = n # placeholders (concat (map (\<lambda>c. '','' @ c) (map placeholder ns)) @ '')'')"
    by (rule placeholders_placeholder_append) (cases ns; simp)
  ultimately show ?case by (simp add: join_with_Cons)
qed simp

definition wheres_of :: "query_own \<Rightarrow> where_map" where
  "wheres_of q = opt_default [] (qo_wh q)"

lemma query_build_eq:
  assumes "hash_order it"
  shows "query_build it its sel q =
    \<lparr>st_text = sel @ (if wheres_of q = [] then []
        else '' WHERE'' @ join_with '' AND'' (numbered condition_text 1 (it (wheres_of q))))
       @ (if qo_group_by q = [] then [] else '' GROUP BY '' @ join_with '','' (its (qo_group_by q))),
     st_args = map snd (it (wheres_of q))\<rparr>"
  by (cases "qo_wh q")
    (auto simp: query_build_def wheres_of_def where_loop_text hash_order_simps[OF assms])

lemma plain_join: "plain sep \<Longrightarrow> \<forall>x \<in> set xs. plain x \<Longrightarrow> plain (join_with sep xs)"
  by (induction sep xs rule: join_with.induct) auto

lemma query_build_placeholders:
  assumes "hash_order it" "hash_order its" "plain sel"
    "\<forall>(k, v) \<in> set (wheres_of q). plain k" "\<forall>c \<in> set (qo_group_by q). plain c"
  shows "placeholders (st_text (query_build it its sel q)) = [1..<length (wheres_of q) + 1]"
proof -
  let ?g = "if qo_group_by q = [] then [] else '' GROUP BY '' @ join_with '','' (its (qo_group_by q))"
  let ?w = "if wheres_of q = [] then []
      else '' WHERE'' @ join_with '' AND'' (numbered condition_text 1 (it (wheres_of q)))"
  have g: "placeholders ?g = []" "?g = [] \<or> \<not> is_digit (hd ?g)"
    using assms(5) by (simp_all add: plain_join hash_order_simps[OF assms(2)])
  have "placeholders (join_with '' AND'' (numbered condition_text 1 (it (wheres_of q))))
      = [1..<1 + length (it (wheres_of q))]"
    by (rule placeholders_join_numbered)
      (use assms(4) in \<open>auto simp: hash_order_simps[OF assms(1)]\<close>)
  then have "placeholders ?w = [1..<length (wheres_of q) + 1]"
    by (simp add: hash_order_simps[OF assms(1)] del: upt_Suc)
  then have "placeholders (sel @ ?w @ ?g) = [1..<length (wheres_of q) + 1]"
    using placeholders_append[OF g(2), of "sel @ ?w"] g(1) assms(3) by (simp del: upt_Suc)
  then show ?thesis by (simp add: query_build_eq[OF assms(1)] del: upt_Suc)
qed

lemma query_build_bound:
  assumes "hash_order it" "hash_order its" "plain sel"
    "\<forall>(k, v) \<in> set (wheres_of q). plain k" "\<forall>c \<in> set (qo_group_by q). plain c"
  shows "bound (query_build it its sel q)"
proof -
  have "length (st_args (query_build it its sel q)) = length (wheres_of q)"
    by (simp add: query_build_eq[OF assms(1)] hash_order_simps[OF assms(1)])
  with query_build_placeholders[OF assms] show ?thesis by (auto simp: bound_def)
qed

definition plain_table :: "'a sql_table \<Rightarrow> bool" where
  "plain_table t \<longleftrightarrow> plain (tb_name t) \<and> (\<forall>c \<in> set (tb_columns t). plain c)"

lemma insert_placeholders:
  assumes "plain_table t"
  shows "placeholders (io_query (insert_insert t item)) = [1..<length (tb_columns t) + 1]"
proof -
  have "plain (''INSERT INTO '' @ tb_name t @ '' ('' @ join_with '','' (tb_columns t) @ '') VALUES ('')"
    using assms by (simp add: plain_table_def plain_join)
  from placeholders_plain_append[OF this, of "join_with '','' (map placeholder [1..<length (tb_columns t) + 1]) @ '')''"]
  show ?thesis by (simp add: insert_insert_def placeholders_join_placeholder del: upt_Suc)
qed

lemma insert_bound_iff:
  assumes "plain_table t" "insert_query t (insert_insert t item) = Inr (st, q)"
  shows "bound st \<longleftrightarrow> length (tb_values t item) = length (tb_columns t)"
proof -
  have "st_text st = io_query (insert_insert t item)" "st_args st = tb_values t item"
    using assms(2) by (auto simp: insert_query_def insert_insert_def)
  with insert_placeholders[OF assms(1), of item]
  have "bound st \<longleftrightarrow> {1..<length (tb_columns t) + 1} = {1..<length (tb_values t item) + 1}"
    by (auto simp: bound_def atLeastLessThanSuc_atLeastAtMost simp del: upt_Suc)
  also have "\<dots> \<longleftrightarrow> length (tb_columns t) = length (tb_values t item)"
    by (metis add_right_cancel card_atLeastLessThan add_diff_cancel_right')
  finally show ?thesis by auto
qed

text \<open>An update as the service builds it: new values, then conditions.\<close>

definition update_text :: "(where_map \<Rightarrow> where_map) \<Rightarrow> (where_map \<Rightarrow> where_map) \<Rightarrow> string \<Rightarrow> where_map \<Rightarrow> where_map \<Rightarrow> string" where
  "update_text it it' name items wh =
     ''UPDATE '' @ name @ '' SET'' @ join_with '','' (numbered assign_text 1 (it items))
     @ concat (map (\<lambda>(k, v). '' WHERE'' @ assign_text k v (length items + 1)) (it' wh))"

lemma update_query_eq:
  assumes "hash_order it" "hash_order it'" "items \<noteq> []" "uo_items u = []"
  shows "fst (update_query it' (update_from it t items u)) = Inr
    \<lparr>st_text = update_text it it' (tb_name t) items (uo_wh u),
     st_args = map snd (it items) @ map snd (it' (uo_wh u))\<rparr>"
  using assms
  by (simp add: update_query_def update_from_def set_loop_text hash_order_simps update_text_def Let_def
      update_where_loop_text del: set_loop.simps update_where_loop.simps One_nat_def)

lemma placeholders_wheres:
  assumes "\<forall>(k, v) \<in> set wh. plain k"
  shows "placeholders (concat (map (\<lambda>(k, v). '' WHERE'' @ assign_text k v n) wh)) = replicate (length wh) n"
  using assms
proof (induction wh)
  case (Cons x wh)
  obtain k v where x: "x = (k, v)" by (cases x)
  have "concat (map (\<lambda>(k, v). '' WHERE'' @ assign_text k v n) wh) = []
      \<or> \<not> is_digit (hd (concat (map (\<lambda>(k, v). '' WHERE'' @ assign_text k v n) wh)))"
    by (cases wh) auto
  from placeholders_append[OF this, of "assign_text k v n"] Cons x show ?case by simp
qed simp

lemma update_placeholders:
  assumes "hash_order it" "hash_order it'" "plain name"
    "\<forall>(k, v) \<in> set items. plain k" "\<forall>(k, v) \<in> set wh. plain k"
  shows "placeholders (update_text it it' name items wh) =
    [1..<length items + 1] @ replicate (length wh) (length items + 1)"
proof -
  let ?w = "concat (map (\<lambda>(k, v). '' WHERE'' @ assign_text k v (length items + 1)) (it' wh))"
  let ?s = "''UPDATE '' @ name @ '' SET'' @ join_with '','' (numbered assign_text 1 (it items))"
  have "placeholders (join_with '','' (numbered assign_text 1 (it items))) = [1..<1 + length (it items)]"
    by (rule placeholders_join_numbered) (use assms(4) in \<open>auto simp: hash_order_simps[OF assms(1)]\<close>)
  then have s: "placeholders ?s = [1..<length items + 1]"
    using assms(3) by (simp add: hash_order_simps[OF assms(1)] del: upt_Suc)
  have w: "placeholders ?w = replicate (length wh) (length items + 1)"
    using placeholders_wheres[of "it' wh"] assms(5) by (simp add: hash_order_simps[OF assms(2)])
  have "?w = [] \<or> \<not> is_digit (hd ?w)" by (cases "it' wh") auto
  from placeholders_append[OF this, of ?s] s w show ?thesis by (simp add: update_text_def del: upt_Suc)
qed

section \<open>Sound tables\<close>

text \<open>What a table has to give for its statements to be accepted.\<close>

locale sound_table =
  fixes t :: "'a sql_table"
  assumes names_plain: "plain_table t"
    and values_match: "length (tb_values t x) = length (tb_columns t)"
begin

lemma insert_sound:
  "\<exists>st q. insert_query t (insert_insert t x) = Inr (st, q) \<and> bound st \<and> st_args st = tb_values t x"
proof -
  obtain st q where i: "insert_query t (insert_insert t x) = Inr (st, q)" "st_args st = tb_values t x"
    by (simp add: insert_query_def insert_insert_def)
  with insert_bound_iff[OF names_plain i(1)] values_match show ?thesis by blast
qed

lemma select_sound:
  assumes "hash_order it" "hash_order its" "\<forall>(k, v) \<in> set (wheres_of q). plain k" "qo_group_by q = []"
  shows "bound (query_build it its (table_query t) q)"
  using names_plain assms by (intro query_build_bound) (simp_all add: table_query_def plain_table_def)

lemma update_sound_iff:
  assumes "hash_order it" "hash_order it'" "items \<noteq> []" "uo_items u = []"
    "\<forall>(k, v) \<in> set items. plain k" "\<forall>(k, v) \<in> set (uo_wh u). plain k"
  shows "\<exists>st. fst (update_query it' (update_from it t items u)) = Inr st
     \<and> (bound st \<longleftrightarrow> length (uo_wh u) \<le> 1)"
proof -
  let ?n = "length items" and ?k = "length (uo_wh u)"
  have pl: "placeholders (update_text it it' (tb_name t) items (uo_wh u)) = [1..<?n + 1] @ replicate ?k (?n + 1)"
    using names_plain by (intro update_placeholders assms(1,2,5,6)) (simp add: plain_table_def)
  have len: "length (map snd (it items) @ map snd (it' (uo_wh u))) = ?n + ?k"
    by (simp add: hash_order_simps[OF assms(1)] hash_order_simps[OF assms(2)])
  have "set ([1..<?n + 1] @ replicate ?k (?n + 1)) = {1..?n + min 1 ?k}"
    by (cases ?k) (auto simp: min_def)
  moreover have "{1..?n + min 1 ?k} = {1..?n + ?k} \<longleftrightarrow> ?k \<le> 1"
    by (auto simp: min_def)
  ultimately show ?thesis
    using update_query_eq[OF assms(1-4), of t] pl len by (simp add: bound_def)
qed

end

end
