(* ===== verification/Auth_Models.thy ===== *)
theory Auth_Models
  imports Sql_Query
begin

text \<open>
  The tables of the auth service (auth/src/models): users, buckets and the buckets of a user, how they are
  written to and read from rows, and the updates a request may carry. \<open>schema\<close> is the database the
  service is installed with (auth/initdb.sql).

  A row is a map from column names to values. Reading a column that is not there, or whose value is not of
  the type asked for, panics (\<^verbatim>\<open>sqlx::Row::get\<close>).
\<close>

section \<open>Rows\<close>

type_synonym row = "string \<Rightarrow> sql_value option"

definition row_get :: "(sql_value \<Rightarrow> 'a option) \<Rightarrow> row \<Rightarrow> string \<Rightarrow> 'a run" where
  "row_get decode r c = unwrap (case r c of None \<Rightarrow> None | Some v \<Rightarrow> decode v)"

fun as_string :: "sql_value \<Rightarrow> string option" where
  "as_string (TString s) = Some s"
| "as_string (TOptString s) = s"
| "as_string _ = None"

fun as_opt_string :: "sql_value \<Rightarrow> string option option" where
  "as_opt_string (TString s) = Some (Some s)"
| "as_opt_string (TOptString s) = Some s"
| "as_opt_string _ = None"

fun as_uuid :: "sql_value \<Rightarrow> uuid option" where
  "as_uuid (TUuid u) = Some u"
| "as_uuid (TOptUuid u) = u"
| "as_uuid _ = None"

fun as_opt_uuid :: "sql_value \<Rightarrow> uuid option option" where
  "as_opt_uuid (TUuid u) = Some (Some u)"
| "as_opt_uuid (TOptUuid u) = Some u"
| "as_opt_uuid _ = None"

fun as_user_state :: "sql_value \<Rightarrow> user_state option" where
  "as_user_state (TUserState s) = Some s"
| "as_user_state _ = None"

fun as_role :: "sql_value \<Rightarrow> role option" where
  "as_role (TRole r) = Some r"
| "as_role _ = None"

fun as_permissions :: "sql_value \<Rightarrow> permissions list option" where
  "as_permissions (TVecAnyPermission ps) = Some ps"
| "as_permissions (TVecContainsPermission ps) = Some ps"
| "as_permissions (TVecOverlapsPermission ps) = Some ps"
| "as_permissions _ = None"

section \<open>Users\<close>

record user =
  us_id :: "uuid option"
  us_username :: string
  us_passwd :: string
  us_email :: "string option"
  us_phone :: "string option"
  us_state :: user_state
  us_role :: role
  us_description :: "string option"

definition is_admin :: "user \<Rightarrow> bool" where
  "is_admin u \<longleftrightarrow> us_role u = Administrator \<or> us_role u = SuperUser"

definition user_eq_uuid :: "user \<Rightarrow> uuid \<Rightarrow> bool" where
  "user_eq_uuid u other = (case us_id u of None \<Rightarrow> False | Some x \<Rightarrow> x = other)"

definition user_eq_str :: "user \<Rightarrow> string \<Rightarrow> bool" where
  "user_eq_str u other \<longleftrightarrow> us_username u = other"

definition user_state_default :: user_state where
  "user_state_default = Inactive"

fun role_number :: "role \<Rightarrow> nat" where
  "role_number SuperUser = 0"
| "role_number Administrator = 1"
| "role_number Productor = 2"
| "role_number Operador = 3"

fun role_display :: "role \<Rightarrow> string" where
  "role_display SuperUser = ''SuperUsuario''"
| "role_display Administrator = ''Admin''"
| "role_display Productor = ''Productor''"
| "role_display Operador = ''Operador''"

text \<open>The label under which \<^verbatim>\<open>sqlx::Type\<close> encodes a variant is the variant's name.\<close>

fun role_label :: "role \<Rightarrow> string" where
  "role_label SuperUser = ''SuperUser''"
| "role_label Administrator = ''Administrator''"
| "role_label Productor = ''Productor''"
| "role_label Operador = ''Operador''"

definition user_of_row :: "row \<Rightarrow> user run" where
  "user_of_row r =
     and_then (row_get as_opt_uuid r ''id'') (\<lambda>id.
     and_then (row_get as_string r ''username'') (\<lambda>username.
     and_then (row_get as_string r ''passwd'') (\<lambda>passwd.
     and_then (row_get as_opt_string r ''description'') (\<lambda>description.
     and_then (row_get as_opt_string r ''email'') (\<lambda>email.
     and_then (row_get as_opt_string r ''phone'') (\<lambda>phone.
     and_then (row_get as_user_state r ''user_state'') (\<lambda>state.
     and_then (row_get as_role r ''role'') (\<lambda>rl.
       Inr \<lparr>us_id = id, us_username = username, us_passwd = passwd, us_email = email, us_phone = phone,
         us_state = state, us_role = rl, us_description = description\<rparr>))))))))"

datatype encrypt_err = EncryptErr

definition encrypt_err_display :: "encrypt_err \<Rightarrow> string" where
  "encrypt_err_display e = ''Password encrypt error''"

text \<open>\<^verbatim>\<open>Encrypt::from\<close>: \<open>bcrypt\<close> is the hash of the crate of that name with its default cost.\<close>

definition encrypt_from :: "(string \<Rightarrow> string option) \<Rightarrow> string \<Rightarrow> encrypt_err + string" where
  "encrypt_from bcrypt s = (case bcrypt s of None \<Rightarrow> Inl EncryptErr | Some h \<Rightarrow> Inr h)"

definition default_account_admin :: "(string \<Rightarrow> string option) \<Rightarrow> encrypt_err + user" where
  "default_account_admin bcrypt =
     and_then (encrypt_from bcrypt ''admin'') (\<lambda>h.
       Inr \<lparr>us_id = None, us_username = ''admin'', us_passwd = h, us_email = None, us_phone = None,
         us_state = Active, us_role = SuperUser, us_description = Some ''Default account''\<rparr>)"

text \<open>The nil UUID, \<^verbatim>\<open>Uuid::default()\<close>.\<close>

definition nil_uuid :: uuid where
  "nil_uuid = replicate 16 (char_of (0 :: nat))"

definition tabla_user :: string where
  "tabla_user = ''users''"

definition tabla_bucket :: string where
  "tabla_bucket = ''buckets''"

definition user_columns :: "string list" where
  "user_columns = [''id'', ''username'', ''passwd'', ''email'', ''phone'', ''user_state'', ''role'', ''description'']"

definition user_values :: "user \<Rightarrow> sql_value list" where
  "user_values u = [TUuid (opt_default nil_uuid (us_id u)), TString (us_username u), TString (us_passwd u),
     TOptString (us_email u), TOptString (us_phone u), TUserState (us_state u), TRole (us_role u),
     TOptString (us_description u)]"

definition user_table :: "user sql_table" where
  "user_table = \<lparr>tb_name = tabla_user, tb_columns = user_columns, tb_values = user_values\<rparr>"

section \<open>Buckets\<close>

record buckets =
  bk_name :: string
  bk_description :: "string option"

definition buckets_of_row :: "row \<Rightarrow> buckets run" where
  "buckets_of_row r =
     and_then (row_get as_string r ''name'') (\<lambda>name.
     and_then (row_get as_opt_string r ''description'') (\<lambda>description.
       Inr \<lparr>bk_name = name, bk_description = description\<rparr>))"

definition buckets_columns :: "string list" where
  "buckets_columns = [''id'', ''icon'', ''user_id'', ''name'', ''description'']"

definition buckets_values :: "buckets \<Rightarrow> sql_value list" where
  "buckets_values b = [TString (bk_name b), TOptString (bk_description b)]"

definition buckets_table :: "buckets sql_table" where
  "buckets_table = \<lparr>tb_name = tabla_bucket, tb_columns = buckets_columns, tb_values = buckets_values\<rparr>"

record bucket_user =
  bu_bucket :: string
  bu_user_id :: uuid
  bu_permissions :: "permissions list"

definition bucket_user_of_row :: "row \<Rightarrow> bucket_user run" where
  "bucket_user_of_row r =
     and_then (row_get as_uuid r ''user_id'') (\<lambda>user_id.
     and_then (row_get as_permissions r ''permissions'') (\<lambda>ps.
     and_then (row_get as_string r ''buckets'') (\<lambda>bucket.
       Inr \<lparr>bu_bucket = bucket, bu_user_id = user_id, bu_permissions = ps\<rparr>)))"

definition bucket_user_columns :: "string list" where
  "bucket_user_columns = [''name'', ''description'']"

definition bucket_user_values :: "bucket_user \<Rightarrow> sql_value list" where
  "bucket_user_values b = [TString (bu_bucket b), TUuid (bu_user_id b)]"

definition bucket_user_table :: "bucket_user sql_table" where
  "bucket_user_table = \<lparr>tb_name = ''users_buckets'', tb_columns = bucket_user_columns, tb_values = bucket_user_values\<rparr>"

section \<open>Permissions\<close>

datatype permissions_out_of_range = PermissionsOutOfRange

definition permissions_of_i32 :: "int \<Rightarrow> permissions_out_of_range + permissions" where
  "permissions_of_i32 v =
     (if v = 1 then Inr Put else if v = 2 then Inr Get else if v = 3 then Inr Delete
      else if v = 4 then Inr Read else Inl PermissionsOutOfRange)"

fun permissions_as_ref :: "permissions \<Rightarrow> string" where
  "permissions_as_ref Put = ''Put''"
| "permissions_as_ref Get = ''Get''"
| "permissions_as_ref Delete = ''Delete''"
| "permissions_as_ref Read = ''Read''"

fun permissions_display :: "permissions \<Rightarrow> string" where
  "permissions_display Put = ''Put''"
| "permissions_display Get = ''Get''"
| "permissions_display Delete = ''Delete''"
| "permissions_display Read = ''Read''"

text \<open>The permissions of the wire protocol (proto/info.proto) are numbered from zero.\<close>

datatype proto_permissions = ProtoPut | ProtoGet | ProtoDelete | ProtoRead

fun proto_number :: "proto_permissions \<Rightarrow> int" where
  "proto_number ProtoPut = 0"
| "proto_number ProtoGet = 1"
| "proto_number ProtoDelete = 2"
| "proto_number ProtoRead = 3"

fun permissions_of_proto :: "proto_permissions \<Rightarrow> permissions" where
  "permissions_of_proto ProtoPut = Put"
| "permissions_of_proto ProtoGet = Get"
| "permissions_of_proto ProtoDelete = Delete"
| "permissions_of_proto ProtoRead = Read"

section \<open>Joined rows\<close>

record program_info =
  pi_id :: uuid
  pi_name :: string
  pi_description :: "string option"
  pi_icon :: "string option"

record user_all_info =
  ua_id :: uuid
  ua_username :: string
  ua_email :: "string option"
  ua_phone :: "string option"
  ua_state :: user_state
  ua_role :: role
  ua_resources :: "string option"
  ua_description :: "string option"
  ua_program :: "program_info option"

definition user_all_info_of_row :: "row \<Rightarrow> user_all_info run" where
  "user_all_info_of_row r =
     and_then (row_get as_uuid r ''id'') (\<lambda>id.
     and_then (row_get as_string r ''username'') (\<lambda>username.
     and_then (row_get as_opt_string r ''email'') (\<lambda>email.
     and_then (row_get as_opt_string r ''phone'') (\<lambda>phone.
     and_then (row_get as_user_state r ''user_state'') (\<lambda>state.
     and_then (row_get as_role r ''role'') (\<lambda>rl.
     and_then (row_get as_opt_string r ''resources'') (\<lambda>resources.
     and_then (row_get as_opt_string r ''description'') (\<lambda>description.
     and_then (row_get as_opt_uuid r ''programa_description'') (\<lambda>pid.
     and_then
       (case pid of
          None \<Rightarrow> Inr None
        | Some i \<Rightarrow>
            and_then (row_get as_string r ''name'') (\<lambda>name.
            and_then (row_get as_opt_string r ''description'') (\<lambda>d.
            and_then (row_get as_opt_string r ''icon'') (\<lambda>icon.
              Inr (Some \<lparr>pi_id = i, pi_name = name, pi_description = d, pi_icon = icon\<rparr>)))))
       (\<lambda>program.
         Inr \<lparr>ua_id = id, ua_username = username, ua_email = email, ua_phone = phone, ua_state = state,
           ua_role = rl, ua_resources = resources, ua_description = description,
           ua_program = program\<rparr>))))))))))"

datatype json = JNull | JNumber int | JString string | JArray "json list" | JObject "(string \<times> json) list"

fun json_get :: "string \<Rightarrow> json \<Rightarrow> json option" where
  "json_get k (JObject kvs) = map_of kvs k"
| "json_get k _ = None"

fun json_as_str :: "json \<Rightarrow> string option" where
  "json_as_str (JString s) = Some s"
| "json_as_str _ = None"

fun json_as_array :: "json \<Rightarrow> json list option" where
  "json_as_array (JArray xs) = Some xs"
| "json_as_array _ = None"

fun json_as_i64 :: "json \<Rightarrow> int option" where
  "json_as_i64 (JNumber n) = (if - (2 ^ 63) \<le> n \<and> n < 2 ^ 63 then Some n else None)"
| "json_as_i64 _ = None"

text \<open>\<^verbatim>\<open>x as i32\<close> keeps the low 32 bits.\<close>

definition as_i32 :: "int \<Rightarrow> int" where
  "as_i32 n = (n + 2 ^ 31) mod 2 ^ 32 - 2 ^ 31"

record bucket_user_proto =
  bp_name :: string
  bp_permissions :: "int list"

record user_reply =
  ur_role :: role
  ur_buckets :: "bucket_user_proto list"

definition bucket_user_proto_of :: "json \<Rightarrow> bucket_user_proto run" where
  "bucket_user_proto_of x =
     and_then (unwrap (json_get ''bucket'' x)) (\<lambda>b.
     and_then (unwrap (json_as_str b)) (\<lambda>name.
       Inr \<lparr>bp_name = name,
         bp_permissions =
           (case json_get ''permissions'' x of
              None \<Rightarrow> []
            | Some ps \<Rightarrow>
                (case json_as_array ps of
                   None \<Rightarrow> []
                 | Some xs \<Rightarrow> map as_i32 (List.map_filter json_as_i64 xs)))\<rparr>))"

fun collect_run :: "('a \<Rightarrow> 'b run) \<Rightarrow> 'a list \<Rightarrow> 'b list run" where
  "collect_run f [] = Inr []"
| "collect_run f (x # xs) = and_then (f x) (\<lambda>y. and_then (collect_run f xs) (\<lambda>ys. Inr (y # ys)))"

text \<open>\<open>parse\<close> is \<^verbatim>\<open>serde_json::from_str\<close> for a list of values.\<close>

definition user_reply_of_row :: "(string \<Rightarrow> json list option) \<Rightarrow> row \<Rightarrow> user_reply run" where
  "user_reply_of_row parse r =
     and_then (row_get as_string r ''buckets'') (\<lambda>text.
     and_then (case parse text of None \<Rightarrow> Inr [] | Some xs \<Rightarrow> collect_run bucket_user_proto_of xs) (\<lambda>bs.
     and_then (row_get as_role r ''role'') (\<lambda>rl.
       Inr \<lparr>ur_role = rl, ur_buckets = bs\<rparr>)))"

definition quoted :: "string \<Rightarrow> string" where
  "quoted s = CHR 0x27 # s @ [CHR 0x27]"

definition user_all_info_query :: string where
  "user_all_info_query =
     ''SELECT '' @ tabla_bucket @ ''.name, '' @ tabla_bucket @ ''.icon, '' @ tabla_bucket @ ''.id as programa_id, ''
     @ tabla_bucket @ ''.description as programa_description, '' @ tabla_user @ ''.* FROM users FULL JOIN ''
     @ tabla_bucket @ '' ON ('' @ tabla_user @ ''.programa = '' @ tabla_bucket @ ''.id)''"

definition user_reply_query :: string where
  "user_reply_query =
     ''SELECT array_agg(json_build_object('' @ quoted ''bucket'' @ '', bucket.'' @ tb_name bucket_user_table
     @ '' as buckets, '' @ quoted ''permissions'' @ '', permissions.'' @ tb_name bucket_user_table @ '')), username,  FROM ''
     @ tb_name bucket_user_table @ '' INNER JOIN '' @ tb_name user_table @ '' ON (user_id.''
     @ tb_name bucket_user_table @ '' = id.'' @ tb_name user_table @ '')''"

definition allowed_bucket_query :: string where
  "allowed_bucket_query = ''SELECT * FROM '' @ tb_name bucket_user_table"

section \<open>Updates\<close>

record update_user =
  uu_username :: "string option"
  uu_passwd :: "string option"
  uu_email :: "string option"
  uu_phone :: "string option"
  uu_state :: "user_state option"
  uu_role :: "role option"
  uu_resources :: "string option"
  uu_description :: "string option"

record update_self =
  up_passwd :: "string option"
  up_email :: "string option"
  up_phone :: "string option"

record bucket_update =
  bup_icon :: "string option"
  bup_name :: "string option"
  bup_description :: "string option"

text \<open>A field that is present becomes an entry, an empty one the entry that sets the column to null.\<close>

definition present_fields :: "(string \<times> string option) list \<Rightarrow> where_map" where
  "present_fields kvs =
     hm_collect (List.map_filter (\<lambda>(k, v). case v of None \<Rightarrow> None
       | Some x \<Rightarrow> Some (k, TOptString (if x = [] then None else Some x))) kvs)"

definition update_self_map :: "update_self \<Rightarrow> where_map" where
  "update_self_map u =
     present_fields [(''email'', up_email u), (''phone'', up_phone u), (''passwd'', up_passwd u)]"

definition update_user_map :: "update_user \<Rightarrow> where_map" where
  "update_user_map u =
     (let m = present_fields
        [(''username'', uu_username u), (''passwd'', uu_passwd u), (''email'', uu_email u), (''phone'', uu_phone u),
         (''resources'', uu_resources u), (''description'', uu_description u)];
        m = (case uu_role u of None \<Rightarrow> m | Some r \<Rightarrow> hm_insert ''role'' (TRole r) m)
      in (case uu_state u of None \<Rightarrow> m | Some s \<Rightarrow> hm_insert ''user_state'' (TUserState s) m))"

definition bucket_update_map :: "bucket_update \<Rightarrow> where_map" where
  "bucket_update_map u =
     present_fields [(''icon'', bup_icon u), (''name'', bup_name u), (''description'', bup_description u)]"

section \<open>The installed schema\<close>

datatype sql_type = UuidType | TextType | UserStateType | RoleType | PermissionsType

definition schema :: "(string \<times> (string \<times> sql_type) list) list" where
  "schema =
     [(''buckets'', [(''name'', TextType), (''description'', TextType)]),
      (''users'', [(''id'', UuidType), (''username'', TextType), (''passwd'', TextType), (''email'', TextType),
         (''user_state'', UserStateType), (''phone'', TextType), (''role'', RoleType), (''description'', TextType)]),
      (''users_buckets'', [(''bucket'', TextType), (''user_id'', UuidType), (''permissions'', PermissionsType)])]"

definition role_labels :: "string list" where
  "role_labels = [''SuperUser'', ''Admin'', ''Operator'', ''User'']"

fun sql_type_of :: "sql_value \<Rightarrow> sql_type" where
  "sql_type_of (TUuid _) = UuidType"
| "sql_type_of (TString _) = TextType"
| "sql_type_of (TOptString _) = TextType"
| "sql_type_of (TOptUuid _) = UuidType"
| "sql_type_of (TUserState _) = UserStateType"
| "sql_type_of (TRole _) = RoleType"
| "sql_type_of (TVecAnyPermission _) = PermissionsType"
| "sql_type_of (TVecContainsPermission _) = PermissionsType"
| "sql_type_of (TVecOverlapsPermission _) = PermissionsType"

text \<open>Columns of a table that hold values of the given types.\<close>

definition typed :: "string \<Rightarrow> (string \<times> sql_value) list \<Rightarrow> bool" where
  "typed table kvs \<longleftrightarrow>
     (\<forall>(k, v) \<in> set kvs. map_of (opt_default [] (map_of schema table)) k = Some (sql_type_of v))"

lemma table_simps [simp]:
  "tb_name user_table = ''users''" "tb_columns user_table = user_columns" "tb_values user_table = user_values"
  "tb_name buckets_table = ''buckets''" "tb_columns buckets_table = buckets_columns"
  "tb_values buckets_table = buckets_values" "tb_name bucket_user_table = ''users_buckets''"
  "tb_columns bucket_user_table = bucket_user_columns" "tb_values bucket_user_table = bucket_user_values"
  by (simp_all add: user_table_def buckets_table_def bucket_user_table_def tabla_user_def tabla_bucket_def)

interpretation users: sound_table user_table
  by unfold_locales (simp_all add: plain_table_def user_columns_def user_values_def)

interpretation user_buckets: sound_table bucket_user_table
  by unfold_locales (simp_all add: plain_table_def bucket_user_columns_def bucket_user_values_def)

lemma plain_buckets_table: "plain_table buckets_table"
  by (simp add: plain_table_def buckets_columns_def)

section \<open>Updates as maps\<close>

lemma hm_insert_mem: "set (hm_insert k v m) \<subseteq> insert (k, v) (set m)"
  by (induction k v m rule: hm_insert.induct) auto

lemma hm_insert_keys: "fst ` set (hm_insert k v m) = insert k (fst ` set m)"
  by (induction k v m rule: hm_insert.induct) auto

lemma hm_insert_distinct: "distinct (map fst m) \<Longrightarrow> distinct (map fst (hm_insert k v m))"
proof (induction k v m rule: hm_insert.induct)
  case (2 k v k' v' m)
  then show ?case using hm_insert_keys[of k v m] by (auto simp: image_iff)
qed simp

lemma hm_collect_subset: "set (hm_collect kvs) \<subseteq> set kvs"
proof -
  have "set (foldl (\<lambda>m (k, v). hm_insert k v m) m kvs) \<subseteq> set m \<union> set kvs" for m
  proof (induction kvs arbitrary: m)
    case (Cons x kvs)
    obtain k v where "x = (k, v)" by (cases x)
    then show ?case using Cons[of "hm_insert k v m"] hm_insert_mem[of k v m] by auto
  qed simp
  from this[of "[]"] show ?thesis by (simp add: hm_collect_def)
qed

lemma map_filter_mem: "y \<in> set (List.map_filter f xs) \<longleftrightarrow> (\<exists>x \<in> set xs. f x = Some y)"
  by (induction xs) (auto simp: map_filter_simps split: option.splits)

lemma present_fields_mem:
  "(k, v) \<in> set (present_fields kvs) \<Longrightarrow> \<exists>s. (k, Some s) \<in> set kvs \<and> v = TOptString (if s = [] then None else Some s)"
proof -
  assume "(k, v) \<in> set (present_fields kvs)"
  then have "(k, v) \<in> set (List.map_filter (\<lambda>(k, v). case v of None \<Rightarrow> None
       | Some x \<Rightarrow> Some (k, TOptString (if x = [] then None else Some x))) kvs)"
    unfolding present_fields_def using hm_collect_subset by blast
  then obtain x where x: "x \<in> set kvs" "(case x of (k, v) \<Rightarrow> case v of None \<Rightarrow> None
       | Some s \<Rightarrow> Some (k, TOptString (if s = [] then None else Some s))) = Some (k, v)"
    unfolding map_filter_mem by blast
  obtain k' v' where "x = (k', v')" by (cases x)
  with x obtain t where "v' = Some t" "k' = k" "v = TOptString (if t = [] then None else Some t)"
    by (cases v') simp_all
  with x(1) \<open>x = (k', v')\<close> have "(k, Some t) \<in> set kvs \<and> v = TOptString (if t = [] then None else Some t)" by simp
  then show ?thesis by (rule exI)
qed

lemma update_self_mem:
  "(k, v) \<in> set (update_self_map u) \<Longrightarrow> k \<in> {''email'', ''phone'', ''passwd''} \<and> (\<exists>x. v = TOptString x)"
  unfolding update_self_map_def by (drule present_fields_mem) auto

lemma update_self_plain: "\<forall>(k, v) \<in> set (update_self_map u). plain k"
  using update_self_mem by fastforce

text \<open>What the JSON of a permission is, its name, is not a number: the reply carries no permission.\<close>

lemma named_permissions_dropped: "List.map_filter json_as_i64 (map (\<lambda>p. JString (permissions_as_ref p)) ps) = []"
  by (induction ps) (simp_all add: map_filter_simps)

section \<open>Properties\<close>

text \<open>
  C22. Every statement the service builds to find users, from any conditions and in any order of the hash
  tables, asks for exactly these conditions, joined by \<^verbatim>\<open>AND\<close>, and binds exactly the values its
  placeholders name.
\<close>

theorem user_select_exact:
  assumes "hash_order it" "hash_order its" "\<forall>(k, v) \<in> set (wheres_of q). plain k" "qo_group_by q = []"
  shows "bound (query_build it its (table_query user_table) q)
    \<and> (\<exists>conds. mset conds = mset (wheres_of q)
      \<and> st_args (query_build it its (table_query user_table) q) = map snd conds
      \<and> st_text (query_build it its (table_query user_table) q) = ''SELECT * FROM users''
          @ (if conds = [] then [] else '' WHERE'' @ join_with '' AND'' (numbered condition_text 1 conds)))"
proof (intro conjI exI[of _ "it (wheres_of q)"])
  show "bound (query_build it its (table_query user_table) q)"
    by (rule users.select_sound[OF assms])
  show "mset (it (wheres_of q)) = mset (wheres_of q)" using assms(1) by (simp add: hash_order_def)
qed (use assms(4) in \<open>simp_all add: query_build_eq[OF assms(1)] hash_order_simps[OF assms(1)] table_query_def\<close>)

definition sample_query :: query_own where
  "sample_query = query_wh ''username'' (TString ''ann'') (query_wh ''id'' (TUuid nil_uuid) query_builder)"

lemma hash_order_same [simp]: "hash_order (\<lambda>xs. xs)" "hash_order rev"
  by (simp_all add: hash_order_def)

lemma sample_digits: "digit (Suc 0) = CHR ''1''" "digit (Suc (Suc 0)) = CHR ''2''"
  by code_simp+

theorem user_select_exact_witness:
  "bound (query_build rev (\<lambda>xs. xs) (table_query user_table) sample_query)
   \<and> st_text (query_build rev (\<lambda>xs. xs) (table_query user_table) sample_query)
       = ''SELECT * FROM users WHERE username = $1 AND id = $2''"
proof -
  have w: "wheres_of sample_query = [(''id'', TUuid nil_uuid), (''username'', TString ''ann'')]" "qo_group_by sample_query = []"
    by (simp_all add: wheres_of_def sample_query_def query_wh_def query_builder_def)
  have "bound (query_build rev (\<lambda>xs. xs) (table_query user_table) sample_query)"
    using user_select_exact[of rev "\<lambda>xs. xs" sample_query] by (simp add: w)
  then show ?thesis
    by (simp add: query_build_eq w table_query_def condition_text_def placeholder_def show_nat.simps sample_digits)
qed

text \<open>
  An update of a user is accepted only with at most one condition: the placeholder is not counted on
  and a second \<^verbatim>\<open>WHERE\<close> is written, so two conditions never make a well-formed statement.
\<close>

theorem user_update_bound_iff:
  assumes "hash_order it" "hash_order it'" "items \<noteq> []" "uo_items u = []"
    and "\<forall>(k, v) \<in> set items. plain k" "\<forall>(k, v) \<in> set (uo_wh u). plain k"
  shows "\<exists>st. fst (update_query it' (update_from it user_table items u)) = Inr st
    \<and> (bound st \<longleftrightarrow> length (uo_wh u) \<le> 1)"
  by (rule users.update_sound_iff[OF assms])

definition sample_update :: update_own where
  "sample_update = update_wh ''username'' (TString ''ann'') (update_wh ''id'' (TUuid nil_uuid) update_new)"

theorem user_update_bound_iff_witness:
  "\<exists>st. fst (update_query (\<lambda>xs. xs) (update_from (\<lambda>xs. xs) user_table [(''email'', TOptString None)] sample_update)) = Inr st
    \<and> \<not> bound st"
proof -
  have "\<exists>st. fst (update_query (\<lambda>xs. xs) (update_from (\<lambda>xs. xs) user_table [(''email'', TOptString None)] sample_update)) = Inr st
    \<and> (bound st \<longleftrightarrow> length (uo_wh sample_update) \<le> 1)"
    by (rule user_update_bound_iff) (simp_all add: sample_update_def update_wh_def update_new_def)
  then show ?thesis by (simp add: sample_update_def update_wh_def update_new_def)
qed


text \<open>
  A user read back from the row its insert wrote is the user, except that one without an id gets the
  nil UUID, the same for all of them.
\<close>

theorem user_row_roundtrip:
  "user_of_row (map_of (zip user_columns (user_values u))) = Inr (u\<lparr>us_id := Some (opt_default nil_uuid (us_id u))\<rparr>)"
  by (simp add: user_of_row_def row_get_def user_columns_def user_values_def)

text \<open>
  No permission sent over the wire is understood as itself: the numbers of the protocol start at zero,
  the conversion of the auth service at one, so that a permission to put is out of range.
\<close>

theorem permission_numbers_shifted:
  "permissions_of_i32 (proto_number p) \<noteq> Inr (permissions_of_proto p)
   \<and> (p = ProtoPut \<longleftrightarrow> permissions_of_i32 (proto_number p) = Inl PermissionsOutOfRange)"
  by (cases p) (simp_all add: permissions_of_i32_def)

end
