(* ===== verification/Auth_Repository.thy ===== *)
theory Auth_Repository
  imports Auth_Models Tokens
begin

text \<open>
  The repository of the auth service (auth/src/state/repository.rs, auth/src/state/error.rs) over a
  PostgreSQL database, and its responses (auth/src/handler/error.rs). The database is a parameter: what it
  answers to a query and what executing a statement does, each on a state of any type.
\<close>

section \<open>Errors\<close>

datatype sqlx_error =
    SqlxRowNotFound
  | SqlxTypeNotFound string
  | SqlxColumnNotFound string
  | SqlxDatabase "string option" string string
  | SqlxOther string

datatype repository_error =
    RowNotFound
  | ManyRows
  | ColumnNotFound string
  | TypeNotFound string
  | AlreadyExist string
  | SqlxErr sqlx_error

text \<open>A database error has a code, a message and the text it displays.\<close>

fun repository_error_of :: "sqlx_error \<Rightarrow> repository_error" where
  "repository_error_of SqlxRowNotFound = RowNotFound"
| "repository_error_of (SqlxTypeNotFound t) = TypeNotFound t"
| "repository_error_of (SqlxColumnNotFound c) = ColumnNotFound c"
| "repository_error_of (SqlxDatabase code message shown) =
     (if code = Some ''23505'' then AlreadyExist message else SqlxErr (SqlxDatabase code message shown))"
| "repository_error_of (SqlxOther e) = SqlxErr (SqlxOther e)"

definition repository_error_display :: "(sqlx_error \<Rightarrow> string) \<Rightarrow> repository_error \<Rightarrow> string" where
  "repository_error_display show_sqlx e =
     (case e of
        RowNotFound \<Rightarrow> ''Row not found''
      | ManyRows \<Rightarrow> ''Many rows''
      | TypeNotFound ty \<Rightarrow> ''Type '' @ ty @ '' not found''
      | ColumnNotFound c \<Rightarrow> ''Column '' @ c @ '' not found''
      | AlreadyExist m \<Rightarrow> m
      | SqlxErr e \<Rightarrow> show_sqlx e)"

section \<open>The repository\<close>

text \<open>The database, and the iteration order of the hash tables of conditions and of groups.\<close>

record 'db postgres =
  pg_fetch :: "statement \<Rightarrow> 'db \<Rightarrow> sqlx_error + row list"
  pg_execute :: "statement \<Rightarrow> 'db \<Rightarrow> (sqlx_error + nat) \<times> 'db"
  pg_wheres :: "where_map \<Rightarrow> where_map"
  pg_groups :: "string list \<Rightarrow> string list"

text \<open>\<^verbatim>\<open>fetch_one\<close>: the first row, and an error when there is none.\<close>

definition fetch_one :: "'db postgres \<Rightarrow> statement \<Rightarrow> 'db \<Rightarrow> sqlx_error + row" where
  "fetch_one pg st db =
     (case pg_fetch pg st db of
        Inl e \<Rightarrow> Inl e
      | Inr [] \<Rightarrow> Inl SqlxRowNotFound
      | Inr (r # _) \<Rightarrow> Inr r)"

datatype 'a query_result = SelectOne 'a | Select "'a list" | Inserted nat | Deleted nat | Updated nat

definition repo_get ::
    "'db postgres \<Rightarrow> string \<Rightarrow> (row \<Rightarrow> 'a run) \<Rightarrow> query_own \<Rightarrow> 'db \<Rightarrow> (repository_error + 'a) run" where
  "repo_get pg select of_row q db =
     (case fetch_one pg (query_build (pg_wheres pg) (pg_groups pg) select q) db of
        Inl e \<Rightarrow> Inr (Inl (repository_error_of e))
      | Inr r \<Rightarrow> and_then (of_row r) (\<lambda>x. Inr (Inr x)))"

definition repo_gets ::
    "'db postgres \<Rightarrow> string \<Rightarrow> (row \<Rightarrow> 'a run) \<Rightarrow> query_own \<Rightarrow> 'db \<Rightarrow> (repository_error + 'a list) run" where
  "repo_gets pg select of_row q db =
     (case pg_fetch pg (query_build (pg_wheres pg) (pg_groups pg) select q) db of
        Inl e \<Rightarrow> Inr (Inl (repository_error_of e))
      | Inr rs \<Rightarrow> and_then (collect_run of_row rs) (\<lambda>xs. Inr (Inr xs)))"

definition repo_execute ::
    "'db postgres \<Rightarrow> (nat \<Rightarrow> 'a query_result) \<Rightarrow> statement \<Rightarrow> 'db \<Rightarrow> (repository_error + 'a query_result) \<times> 'db" where
  "repo_execute pg res st db =
     (case pg_execute pg st db of
        (Inl e, db') \<Rightarrow> (Inl (repository_error_of e), db')
      | (Inr n, db') \<Rightarrow> (Inr (res n), db'))"

definition delete_statement :: "uuid \<Rightarrow> statement" where
  "delete_statement uid = \<lparr>st_text = ''DELETE FROM '' @ tabla_user @ '' WHERE id = $1'', st_args = [TUuid uid]\<rparr>"

definition repo_delete :: "'db postgres \<Rightarrow> uuid \<Rightarrow> 'db \<Rightarrow> (repository_error + user query_result) \<times> 'db" where
  "repo_delete pg uid db = repo_execute pg Deleted (delete_statement uid) db"

definition repo_insert ::
    "'db postgres \<Rightarrow> 'a sql_table \<Rightarrow> 'a insert_own \<Rightarrow> 'db \<Rightarrow> ((repository_error + 'a query_result) \<times> 'db) run" where
  "repo_insert pg t q db = and_then (insert_query t q) (\<lambda>(st, _). Inr (repo_execute pg Inserted st db))"

definition repo_update ::
    "'db postgres \<Rightarrow> update_own \<Rightarrow> 'db \<Rightarrow> ((repository_error + 'a query_result) \<times> 'db) run" where
  "repo_update pg u db =
     (case fst (update_query (pg_wheres pg) u) of
        Inl e \<Rightarrow> Inl UnwrapErr
      | Inr st \<Rightarrow> Inr (repo_execute pg Updated st db))"

text \<open>\<^verbatim>\<open>with_default_user\<close>, once connected: an error of the insert is logged only.\<close>

definition with_default_user :: "'db postgres \<Rightarrow> user \<Rightarrow> 'db \<Rightarrow> 'db run" where
  "with_default_user pg u db =
     and_then (repo_insert pg user_table (insert_insert user_table u) db) (\<lambda>(_, db'). Inr db')"

section \<open>Responses\<close>

datatype item = ItemUser user | ItemInfo user_all_info | ItemBucket buckets

datatype payload =
    JsonData item
  | JsonList nat "item list"
  | JsonRows nat
  | JsonToken string
  | PlainText string
  | NoBody

text \<open>\<open>rs_cookie\<close> is the token of the \<^verbatim>\<open>Set-Cookie\<close> header.\<close>

record response =
  rs_status :: nat
  rs_json :: bool
  rs_cookie :: "string option"
  rs_payload :: payload

definition json_response :: "payload \<Rightarrow> response" where
  "json_response p = \<lparr>rs_status = 200, rs_json = True, rs_cookie = None, rs_payload = p\<rparr>"

definition response_of_query_result :: "('a \<Rightarrow> item) \<Rightarrow> 'a query_result \<Rightarrow> response" where
  "response_of_query_result f r =
     (case r of
        SelectOne x \<Rightarrow> json_response (JsonData (f x))
      | Select xs \<Rightarrow> json_response (JsonList (length xs) (map f xs))
      | Inserted n \<Rightarrow> json_response (JsonRows n)
      | Deleted n \<Rightarrow> json_response (JsonRows n)
      | Updated n \<Rightarrow> json_response (JsonRows n))"

record response_err =
  re_detail :: "string option"
  re_status :: nat

definition response_err_new :: "string \<Rightarrow> nat \<Rightarrow> response_err" where
  "response_err_new d s = \<lparr>re_detail = Some d, re_status = s\<rparr>"

definition response_err_status :: "nat \<Rightarrow> response_err" where
  "response_err_status s = \<lparr>re_detail = None, re_status = s\<rparr>"

definition response_of_err :: "response_err \<Rightarrow> response" where
  "response_of_err e = \<lparr>rs_status = re_status e, rs_json = False, rs_cookie = None,
     rs_payload = (case re_detail e of Some d \<Rightarrow> PlainText d | None \<Rightarrow> NoBody)\<rparr>"

definition response_err_of_repository :: "(sqlx_error \<Rightarrow> string) \<Rightarrow> repository_error \<Rightarrow> response_err" where
  "response_err_of_repository show_sqlx e = response_err_new (repository_error_display show_sqlx e) 400"

definition response_err_of_encrypt :: "encrypt_err \<Rightarrow> response_err" where
  "response_err_of_encrypt e = response_err_new (encrypt_err_display e) 500"

end
