(* ===== verification/Auth_Handlers.thy ===== *)
theory Auth_Handlers
  imports Auth_Repository Http
begin

text \<open>
  The HTTP side of the auth service (auth/src/handler): the entry point with the login, the routes and the
  check for administrators, and the handlers of users and buckets. What is outside of the program is the
  record \<open>env\<close>: the database, bcrypt, the parsers of JSON and of UUIDs, checking and signing a token, the
  clock and the name of the host.
\<close>

record login =
  lg_username :: string
  lg_password :: string

record 'db env =
  en_pg :: "'db postgres"
  en_show_sqlx :: "sqlx_error \<Rightarrow> string"
  en_bcrypt :: "string \<Rightarrow> string option"
  en_verify :: "string \<Rightarrow> string \<Rightarrow> bool option"
  en_uuid :: "string \<Rightarrow> uuid option"
  en_login_json :: "string \<Rightarrow> login option"
  en_user_json :: "string \<Rightarrow> user option"
  en_self_json :: "string \<Rightarrow> update_self option"
  en_update_json :: "string \<Rightarrow> update_user option"
  en_bucket_json :: "string \<Rightarrow> buckets option"
  en_bucket_update_json :: "string \<Rightarrow> bucket_update option"
  en_check :: "string \<Rightarrow> (jwt_handle_error + uuid claim) run"
  en_sign :: "uuid claim \<Rightarrow> (jwt_handle_error + string) run"
  en_now :: int
  en_jti :: jti
  en_host :: string

text \<open>A request, with what is in its extensions: whether the state is there, and the claims of the caller.\<close>

record request =
  rq_method :: http_method
  rq_path :: string
  rq_headers :: header_map
  rq_body :: body
  rq_repo :: bool
  rq_claim :: "uuid claim option"

type_synonym 'db handler = "'db \<Rightarrow> ((response_err + response) \<times> 'db) run"

definition fail_new :: "string \<Rightarrow> nat \<Rightarrow> 'db handler" where
  "fail_new d s db = Inr (Inl (response_err_new d s), db)"

definition fail_status :: "nat \<Rightarrow> 'db handler" where
  "fail_status s db = Inr (Inl (response_err_status s), db)"

text \<open>\<^verbatim>\<open>GetRepo::get\<close>, with the rest of the handler that uses the repository.\<close>

definition get_repo :: "request \<Rightarrow> 'db handler \<Rightarrow> 'db handler" where
  "get_repo req next db = (if rq_repo req then next db else fail_new ''State not found'' 500 db)"

definition reply ::
    "'db env \<Rightarrow> ('a \<Rightarrow> item) \<Rightarrow> (repository_error + 'a query_result) \<times> 'db \<Rightarrow> (response_err + response) \<times> 'db" where
  "reply env f r =
     (case r of
        (Inl e, db) \<Rightarrow> (Inl (response_err_of_repository (en_show_sqlx env) e), db)
      | (Inr q, db) \<Rightarrow> (Inr (response_of_query_result f q), db))"

definition reply_read ::
    "'db env \<Rightarrow> ('a \<Rightarrow> response) \<Rightarrow> (repository_error + 'a) run \<Rightarrow> 'db handler" where
  "reply_read env f r db =
     and_then r (\<lambda>r. Inr
       (case r of
          Inl e \<Rightarrow> (Inl (response_err_of_repository (en_show_sqlx env) e), db)
        | Inr x \<Rightarrow> (Inr (f x), db)))"

section \<open>Users\<close>

definition find_user :: "'db env \<Rightarrow> query_own \<Rightarrow> 'db \<Rightarrow> (repository_error + user) run" where
  "find_user env q db = repo_get (en_pg env) (table_query user_table) user_of_row q db"

definition clear_passwd :: "user \<Rightarrow> user" where
  "clear_passwd u = u\<lparr>us_passwd := []\<rparr>"

definition user_new :: "'db env \<Rightarrow> request \<Rightarrow> 'db handler" where
  "user_new env req db =
     (case parse_body (en_user_json env) (rq_body req) of
        Inl e \<Rightarrow> fail_new e 400 db
      | Inr u \<Rightarrow>
          (case encrypt_from (en_bcrypt env) (us_passwd u) of
             Inl e \<Rightarrow> Inr (Inl (response_err_of_encrypt e), db)
           | Inr h \<Rightarrow>
               get_repo req (\<lambda>db.
                 and_then (repo_insert (en_pg env) user_table (insert_insert user_table (u\<lparr>us_passwd := h\<rparr>)) db)
                   (\<lambda>r. Inr (reply env ItemUser r))) db))"

definition user_get :: "'db env \<Rightarrow> request \<Rightarrow> uuid \<Rightarrow> 'db handler" where
  "user_get env req uid =
     get_repo req (\<lambda>db.
       reply_read env (\<lambda>u. response_of_query_result ItemUser (SelectOne (clear_passwd u)))
         (find_user env (query_wh ''id'' (TUuid uid) query_builder) db) db)"

definition user_get_all :: "'db env \<Rightarrow> request \<Rightarrow> 'db handler" where
  "user_get_all env req =
     get_repo req (\<lambda>db.
       reply_read env (\<lambda>us. response_of_query_result ItemUser (Select (map clear_passwd us)))
         (repo_gets (en_pg env) (table_query user_table) user_of_row query_builder db) db)"

definition get_user_info :: "'db env \<Rightarrow> request \<Rightarrow> uuid option \<Rightarrow> 'db handler" where
  "get_user_info env req uid db =
     (if \<not> rq_repo req then Inl UnwrapNone
      else
        let key = tabla_user @ ''.id'';
            q = (case uid of None \<Rightarrow> query_builder | Some x \<Rightarrow> query_wh key (TUuid x) query_builder)
        in reply_read env (\<lambda>xs. response_of_query_result ItemInfo (Select xs))
             (repo_gets (en_pg env) user_all_info_query user_all_info_of_row q db) db)"

definition user_delete :: "'db env \<Rightarrow> request \<Rightarrow> uuid \<Rightarrow> 'db handler" where
  "user_delete env req uid =
     get_repo req (\<lambda>db. Inr (reply env ItemUser (repo_delete (en_pg env) uid db)))"

text \<open>\<open>from_slice\<close> parses an update of some kind and \<open>items\<close> turns it into a map of new values.\<close>

definition user_update ::
    "'db env \<Rightarrow> (string \<Rightarrow> 'u option) \<Rightarrow> ('u \<Rightarrow> where_map) \<Rightarrow> request \<Rightarrow> uuid \<Rightarrow> 'db handler" where
  "user_update env from_slice items req uid =
     get_repo req (\<lambda>db.
       (case parse_body from_slice (rq_body req) of
          Inl e \<Rightarrow> fail_new e 400 db
        | Inr new \<Rightarrow>
            and_then
              (repo_update (en_pg env)
                (update_wh ''id'' (TUuid uid) (update_from (pg_wheres (en_pg env)) user_table (items new) update_new)) db)
              (\<lambda>r. Inr (reply env ItemUser r))))"

section \<open>Buckets\<close>

definition bucket_create :: "'db env \<Rightarrow> request \<Rightarrow> 'db handler" where
  "bucket_create env req db =
     (case parse_body (en_bucket_json env) (rq_body req) of
        Inl e \<Rightarrow> fail_new e 502 db
      | Inr b \<Rightarrow>
          get_repo req (\<lambda>db.
            and_then (repo_insert (en_pg env) buckets_table (insert_insert buckets_table b) db)
              (\<lambda>r. Inr (reply env ItemBucket r))) db)"

definition bucket_change :: "'db env \<Rightarrow> request \<Rightarrow> uuid \<Rightarrow> 'db handler" where
  "bucket_change env req uid db =
     (case parse_body (en_bucket_update_json env) (rq_body req) of
        Inl e \<Rightarrow> fail_status 400 db
      | Inr p \<Rightarrow>
          get_repo req (\<lambda>db.
            and_then
              (repo_update (en_pg env)
                (update_from (pg_wheres (en_pg env)) buckets_table (bucket_update_map p)
                  (update_wh ''id'' (TUuid uid) update_new)) db)
              (\<lambda>r. Inr (reply env ItemBucket r))) db)"

definition bucket_get :: "'db env \<Rightarrow> request \<Rightarrow> uuid \<Rightarrow> 'db handler" where
  "bucket_get env req uid =
     get_repo req (\<lambda>db.
       reply_read env (\<lambda>b. response_of_query_result ItemBucket (SelectOne b))
         (repo_get (en_pg env) (table_query buckets_table) buckets_of_row
           (query_wh ''id'' (TUuid uid) query_builder) db) db)"

definition bucket_get_all :: "'db env \<Rightarrow> request \<Rightarrow> 'db handler" where
  "bucket_get_all env req =
     get_repo req (\<lambda>db.
       reply_read env (\<lambda>bs. response_of_query_result ItemBucket (Select bs))
         (repo_gets (en_pg env) (table_query buckets_table) buckets_of_row query_builder db) db)"

text \<open>The \<^verbatim>\<open>force\<close> parameter is read and not used; the repository deletes by id from the users.\<close>

definition bucket_delete :: "'db env \<Rightarrow> request \<Rightarrow> uuid \<Rightarrow> 'db handler" where
  "bucket_delete env req uid =
     get_repo req (\<lambda>db. Inr (reply env ItemUser (repo_delete (en_pg env) uid db)))"

section \<open>Routes\<close>

definition prefix_path :: string where
  "prefix_path = ''/api/v1''"

definition detail_route :: "string \<Rightarrow> bool" where
  "detail_route path \<longleftrightarrow> prefix ''user/'' path \<and> suffix ''/detail'' path"

definition id_after_user :: "'db env \<Rightarrow> string \<Rightarrow> uuid option" where
  "id_after_user env path =
     (case nth_opt (split_str ''/user/'' path) 1 of None \<Rightarrow> None | Some x \<Rightarrow> en_uuid env x)"

definition id_before_detail :: "'db env \<Rightarrow> string \<Rightarrow> uuid option" where
  "id_before_detail env path =
     (case nth_opt (split_str ''/user/'' path) 1 of
        None \<Rightarrow> None
      | Some x \<Rightarrow> (case strip_suffix ''/detail'' x of None \<Rightarrow> None | Some y \<Rightarrow> en_uuid env y))"

text \<open>The arms of the match in their order.\<close>

definition route_admin :: "'db env \<Rightarrow> request \<Rightarrow> string \<Rightarrow> 'db handler" where
  "route_admin env req path =
     (let m = rq_method req in
      if path = ''/user'' \<and> m = POST then user_new env req
      else if path = ''/users'' \<and> m = GET then user_get_all env req
      else if m = GET \<and> detail_route path then
        (case id_before_detail env path of
           None \<Rightarrow> fail_new ''Invalid format'' 400
         | Some uid \<Rightarrow> get_user_info env req (Some uid))
      else if path = ''/users/detail'' \<and> m = GET then get_user_info env req None
      else if m \<in> {DELETE, PATCH, GET} \<and> prefix ''/user/'' path then
        (case id_after_user env path of
           None \<Rightarrow> fail_new ''Invalid format'' 400
         | Some uid \<Rightarrow>
             if m = DELETE then user_delete env req uid
             else if m = PATCH then user_update env (en_update_json env) update_user_map req uid
             else user_get env req uid)
      else if path = ''/bucket'' \<and> m = POST then bucket_create env req
      else if path = ''/bucket'' \<and> m = GET then bucket_get_all env req
      else if m \<in> {PATCH, GET, DELETE} \<and> prefix ''/bucket'' path then
        (case strip_prefix ''/bucket/'' path of
           None \<Rightarrow> fail_status 400
         | Some x \<Rightarrow>
             (case en_uuid env x of
                None \<Rightarrow> fail_new ''Invalid format'' 400
              | Some uid \<Rightarrow>
                  if m = PATCH then bucket_change env req uid
                  else if m = DELETE then bucket_delete env req uid
                  else bucket_get env req uid))
      else fail_new ''Path Not Found'' 400)"

definition endpoint_admin :: "'db env \<Rightarrow> request \<Rightarrow> 'db handler" where
  "endpoint_admin env req db =
     and_then (unwrap (strip_prefix prefix_path (rq_path req))) (\<lambda>path. route_admin env req path db)"

definition middleware_user_admin :: "'db env \<Rightarrow> request \<Rightarrow> (request \<Rightarrow> 'db handler) \<Rightarrow> 'db handler" where
  "middleware_user_admin env req next db =
     and_then (unwrap (rq_claim req)) (\<lambda>claim.
       get_repo req (\<lambda>db.
         and_then (find_user env (query_wh ''id'' (TUuid (cl_sub claim)) query_builder) db) (\<lambda>r.
           (case r of
              Inl e \<Rightarrow> Inr (Inl (response_err_of_repository (en_show_sqlx env) e), db)
            | Inr u \<Rightarrow> if is_admin u then next req db else fail_status 401 db))) db)"

definition api :: "'db env \<Rightarrow> request \<Rightarrow> 'db handler" where
  "api env req db =
     and_then (unwrap (strip_prefix prefix_path (rq_path req))) (\<lambda>path.
       if path = ''/user''
       then and_then (unwrap (rq_claim req)) (\<lambda>claim.
              if rq_method req = PATCH
              then user_update env (en_self_json env) update_self_map req (cl_sub claim) db
              else if rq_method req = GET then get_user_info env req (Some (cl_sub claim)) db
              else fail_new ''Path not found'' 400 db)
       else middleware_user_admin env req (endpoint_admin env) db)"

section \<open>The entry point\<close>

text \<open>The claims of a user: the id, six hours, and the time of issue.\<close>

definition claim_of_user :: "'db env \<Rightarrow> user \<Rightarrow> uuid claim run" where
  "claim_of_user env u =
     and_then (unwrap (us_id u)) (\<lambda>uid.
     and_then (builder_exp (en_now env) (6 * 3600) (builder_sub uid builder_default)) (\<lambda>b.
       builder_build (en_now env) (en_jti env) (builder_iat True b)))"

definition login_response :: "string \<Rightarrow> response" where
  "login_response token = \<lparr>rs_status = 200, rs_json = True, rs_cookie = Some token, rs_payload = JsonToken token\<rparr>"

definition ep_login :: "'db env \<Rightarrow> request \<Rightarrow> 'db handler" where
  "ep_login env req db =
     (if \<not> rq_repo req then Inr (Inr (response_of_err (response_err_status 500)), db)
      else
        (case parse_body (en_login_json env) (rq_body req) of
           Inl e \<Rightarrow> fail_new e 401 db
         | Inr login \<Rightarrow>
             and_then (find_user env (query_wh ''username'' (TString (lg_username login)) query_builder) db) (\<lambda>r.
               (case r of
                  Inl _ \<Rightarrow> Inr (Inr (response_of_err (response_err_new ''User not found'' 404)), db)
                | Inr u \<Rightarrow>
                    if en_verify env (lg_password login) (us_passwd u) = Some True
                    then and_then (claim_of_user env u) (\<lambda>c.
                         and_then (en_sign env (set_iss (en_host env) c)) (\<lambda>r.
                           (case r of
                              Inr token \<Rightarrow> Inr (Inr (login_response token), db)
                            | Inl err \<Rightarrow> fail_new (jwt_error_display err) 400 db)))
                    else fail_status 401 db))))"

definition ep_api :: "'db env \<Rightarrow> request \<Rightarrow> 'db handler" where
  "ep_api env req db =
     (case get_token jwt_both_search (rq_headers req) of
        None \<Rightarrow> Inr (Inr (response_of_err (response_err_new ''Token not found'' 401)), db)
      | Some token \<Rightarrow>
          and_then (en_check env token) (\<lambda>r.
            (case r of
               Inl err \<Rightarrow> Inr (Inr (response_of_err (response_err_new (jwt_error_display err) 401)), db)
             | Inr claim \<Rightarrow> api env (req\<lparr>rq_claim := Some claim\<rparr>) db)))"

definition ep_call :: "'db env \<Rightarrow> request \<Rightarrow> 'db \<Rightarrow> (response \<times> 'db) run" where
  "ep_call env req db =
     and_then
       (if rq_path req = ''/login'' \<and> rq_method req = POST then ep_login env req db
        else if prefix prefix_path (rq_path req) then ep_api env req db
        else fail_new ''Path not found'' 400 db)
       (\<lambda>(r, db'). Inr (case r of Inr resp \<Rightarrow> resp | Inl e \<Rightarrow> response_of_err e, db'))"

section \<open>What changes the database\<close>

definition keeps_db :: "'db handler \<Rightarrow> bool" where
  "keeps_db h \<longleftrightarrow> (\<forall>db r db'. h db = Inr (r, db') \<longrightarrow> db' = db)"

named_theorems keeps_intros

lemma keeps_dbD: "keeps_db h \<Longrightarrow> h db = Inr (r, db') \<Longrightarrow> db' = db"
  by (auto simp: keeps_db_def)

lemma keeps_fail [keeps_intros]: "keeps_db (fail_new d s)" "keeps_db (fail_status s)"
  by (auto simp: keeps_db_def fail_new_def fail_status_def)

lemma keeps_get_repo [keeps_intros]: "keeps_db next \<Longrightarrow> keeps_db (get_repo req next)"
  by (auto simp: keeps_db_def get_repo_def fail_new_def split: if_splits)

lemma keeps_reply_read [keeps_intros]: "keeps_db (\<lambda>db. reply_read env f (r db) db)"
  by (auto simp: keeps_db_def reply_read_def and_then_def split: sum.split_asm)

lemma keeps_get_user_info [keeps_intros]: "keeps_db (get_user_info env req uid)"
  by (auto simp: keeps_db_def get_user_info_def reply_read_def and_then_def Let_def
      split: sum.split_asm if_split_asm)

lemma keeps_login: "keeps_db (ep_login env req)"
  by (auto simp: keeps_db_def ep_login_def fail_new_def fail_status_def and_then_def
      split: sum.split_asm if_split_asm)

lemma ep_call_changes:
  assumes "ep_call env req db = Inr (resp, db')" "db' \<noteq> db"
  obtains tok c r where "get_token jwt_both_search (rq_headers req) = Some tok"
    "en_check env tok = Inr (Inr c)" "api env (req\<lparr>rq_claim := Some c\<rparr>) db = Inr (r, db')"
proof -
  obtain r where r: "(if rq_path req = ''/login'' \<and> rq_method req = POST then ep_login env req db
        else if prefix prefix_path (rq_path req) then ep_api env req db
        else fail_new ''Path not found'' 400 db) = Inr (r, db')"
    using assms(1) by (auto simp: ep_call_def and_then_eq_Inr)
  have "ep_api env req db = Inr (r, db')"
    using r assms(2) keeps_dbD[OF keeps_login] keeps_dbD[OF keeps_fail(1)] by (metis (full_types))
  then show thesis
    using that assms(2) by (auto simp: ep_api_def and_then_def split: option.split_asm sum.split_asm)
qed

text \<open>
  C18. Only two kinds of request change the database: a change of the caller's own account, and requests of
  a caller whose account, looked up by the id in a token that checks, is an administrator's.
\<close>

theorem changes_need_admin:
  assumes "ep_call env req db = Inr (resp, db')" "db' \<noteq> db"
  shows "\<exists>tok c. get_token jwt_both_search (rq_headers req) = Some tok \<and> en_check env tok = Inr (Inr c)
    \<and> (rq_path req = ''/api/v1/user'' \<and> rq_method req = PATCH
       \<or> (\<exists>u. find_user env (query_wh ''id'' (TUuid (cl_sub c)) query_builder) db = Inr (Inr u) \<and> is_admin u))"
proof -
  obtain tok c r where t: "get_token jwt_both_search (rq_headers req) = Some tok"
    "en_check env tok = Inr (Inr c)" "api env (req\<lparr>rq_claim := Some c\<rparr>) db = Inr (r, db')"
    using ep_call_changes[OF assms] by metis
  obtain path where path: "rq_path req = prefix_path @ path"
    using t(3) by (auto simp: api_def and_then_eq_Inr strip_prefix_Some)
  have "rq_path req = ''/api/v1/user'' \<and> rq_method req = PATCH
       \<or> (\<exists>u. find_user env (query_wh ''id'' (TUuid (cl_sub c)) query_builder) db = Inr (Inr u) \<and> is_admin u)"
  proof (cases "path = ''/user''")
    case True
    have "rq_method req = PATCH"
      using t(3) assms(2)
      by (auto simp: api_def path True dest: keeps_dbD[OF keeps_get_user_info] keeps_dbD[OF keeps_fail(1)]
          split: if_split_asm)
    with path True show ?thesis by (simp add: prefix_path_def)
  next
    case False
    then have "middleware_user_admin env (req\<lparr>rq_claim := Some c\<rparr>) (endpoint_admin env) db = Inr (r, db')"
      using t(3) by (simp add: api_def path)
    with assms(2) show ?thesis
      by (auto simp: middleware_user_admin_def get_repo_def fail_new_def fail_status_def and_then_def
          split: sum.split_asm if_split_asm)
  qed
  with t show ?thesis by blast
qed

section \<open>Changing one's own account\<close>

lemma snd_repo_execute: "snd (repo_execute pg f st db) = snd (pg_execute pg st db)"
  by (simp add: repo_execute_def split: prod.splits sum.splits)

lemma snd_reply: "snd (reply env f r) = snd r"
  by (simp add: reply_def split: prod.splits sum.splits)

lemma repo_update_new:
  assumes "hash_order (pg_wheres pg)" "repo_update pg (update_wh ''id'' (TUuid uid)
      (update_from (pg_wheres pg) user_table items update_new)) db = Inr (r, db')"
  shows "items \<noteq> []
    \<and> (\<exists>st. db' = snd (pg_execute pg st db)
       \<and> st_args st = map snd (pg_wheres pg items) @ [TUuid uid]
       \<and> st_text st = ''UPDATE users SET'' @ join_with '','' (numbered assign_text 1 (pg_wheres pg items))
           @ '' WHERE'' @ assign_text ''id'' (TUuid uid) (length items + 1))"
proof -
  let ?u = "update_from (pg_wheres pg) user_table items (update_wh ''id'' (TUuid uid) update_new)"
  have swap: "update_wh ''id'' (TUuid uid) (update_from (pg_wheres pg) user_table items update_new) = ?u"
    by (simp add: update_wh_def update_from_def update_new_def split: prod.splits)
  have u: "uo_wh (update_wh ''id'' (TUuid uid) update_new) = [(''id'', TUuid uid)]"
    "uo_items (update_wh ''id'' (TUuid uid) update_new) = []"
    by (simp_all add: update_wh_def update_new_def)
  have one: "pg_wheres pg [(''id'', TUuid uid)] = [(''id'', TUuid uid)]"
  proof -
    have "mset (pg_wheres pg [(''id'', TUuid uid)]) = {#(''id'', TUuid uid)#}"
      using assms(1) by (simp add: hash_order_def)
    then show ?thesis by (simp only: mset_single_iff)
  qed
  have ne: "items \<noteq> []"
  proof
    assume "items = []"
    then have "uo_items ?u = []"
      by (simp add: update_from_def hash_order_simps[OF assms(1)] u(2))
    then show False using assms(2) swap by (simp add: repo_update_def update_query_def)
  qed
  have eq: "fst (update_query (pg_wheres pg) ?u) = Inr
     \<lparr>st_text = update_text (pg_wheres pg) (pg_wheres pg) ''users'' items [(''id'', TUuid uid)],
      st_args = map snd (pg_wheres pg items) @ [TUuid uid]\<rparr>"
    using update_query_eq[OF assms(1,1) ne u(2), of user_table] by (simp add: u one)
  let ?st = "\<lparr>st_text = update_text (pg_wheres pg) (pg_wheres pg) ''users'' items [(''id'', TUuid uid)],
      st_args = map snd (pg_wheres pg items) @ [TUuid uid]\<rparr>"
  have "repo_execute pg Updated ?st db = (r, db')"
    using assms(2) by (simp add: swap repo_update_def eq)
  then have "db' = snd (pg_execute pg ?st db)"
    using snd_repo_execute by (metis snd_conv)
  moreover have "st_text ?st = ''UPDATE users SET'' @ join_with '','' (numbered assign_text 1 (pg_wheres pg items))
           @ '' WHERE'' @ assign_text ''id'' (TUuid uid) (length items + 1)"
    by (simp add: update_text_def one)
  ultimately show ?thesis using ne by (intro conjI exI[of _ ?st]) simp_all
qed

lemma update_self_passwd_plain:
  "up_passwd u = Some p \<Longrightarrow> p \<noteq> [] \<Longrightarrow> (''passwd'', TOptString (Some p)) \<in> set (update_self_map u)"
  by (cases "up_email u"; cases "up_phone u")
    (simp_all add: update_self_map_def present_fields_def hm_collect_def map_filter_simps)

text \<open>
  C19. Changing one's own account executes at most one statement, an update of the users that is
  well-formed, sets no other columns than email, phone and password, and changes the row whose id is the
  subject of the token that was checked.
\<close>

theorem own_account_update:
  assumes "ep_call env req db = Inr (resp, db')" "db' \<noteq> db" "hash_order (pg_wheres (en_pg env))"
    and "rq_path req = ''/api/v1/user''"
  shows "\<exists>tok c st items. get_token jwt_both_search (rq_headers req) = Some tok \<and> en_check env tok = Inr (Inr c)
    \<and> db' = snd (pg_execute (en_pg env) st db) \<and> bound st
    \<and> st_args st = map snd items @ [TUuid (cl_sub c)]
    \<and> st_text st = ''UPDATE users SET'' @ join_with '','' (numbered assign_text 1 items)
        @ '' WHERE'' @ assign_text ''id'' (TUuid (cl_sub c)) (length items + 1)
    \<and> fst ` set items \<subseteq> {''email'', ''phone'', ''passwd''}"
proof -
  let ?pg = "en_pg env"
  obtain tok c r where t: "get_token jwt_both_search (rq_headers req) = Some tok"
    "en_check env tok = Inr (Inr c)" "api env (req\<lparr>rq_claim := Some c\<rparr>) db = Inr (r, db')"
    using ep_call_changes[OF assms(1,2)] by metis
  have "strip_prefix prefix_path (rq_path req) = Some ''/user''"
    by (simp add: assms(4) prefix_path_def strip_prefix_def)
  then have "user_update env (en_self_json env) update_self_map (req\<lparr>rq_claim := Some c\<rparr>) (cl_sub c) db = Inr (r, db')"
    using t(3) assms(2)
    by (auto simp: api_def dest: keeps_dbD[OF keeps_get_user_info] keeps_dbD[OF keeps_fail(1)]
          split: if_split_asm)
  then obtain new and r' :: "repository_error + user query_result" where new: "repo_update ?pg (update_wh ''id'' (TUuid (cl_sub c))
      (update_from (pg_wheres ?pg) user_table (update_self_map new) update_new)) db = Inr (r', db')"
    using assms(2)
    by (auto simp: user_update_def get_repo_def fail_new_def reply_def and_then_def
        split: if_split_asm sum.split_asm prod.split_asm)
  let ?items = "pg_wheres ?pg (update_self_map new)"
  from repo_update_new[OF assms(3) new] obtain st where st: "update_self_map new \<noteq> []"
    "db' = snd (pg_execute ?pg st db)" "st_args st = map snd ?items @ [TUuid (cl_sub c)]"
    "st_text st = ''UPDATE users SET'' @ join_with '','' (numbered assign_text 1 ?items)
        @ '' WHERE'' @ assign_text ''id'' (TUuid (cl_sub c)) (length (update_self_map new) + 1)"
    by blast
  have len: "length ?items = length (update_self_map new)" by (simp add: hash_order_simps[OF assms(3)])
  have mem: "set ?items = set (update_self_map new)" by (simp add: hash_order_simps[OF assms(3)])
  have "bound st"
  proof -
    have "placeholders (update_text (\<lambda>x. x) (\<lambda>x. x) ''users'' ?items [(''id'', TUuid (cl_sub c))])
        = [1..<length ?items + 1] @ replicate 1 (length ?items + 1)"
      using update_placeholders[of "\<lambda>x. x" "\<lambda>x. x" "''users''" ?items "[(''id'', TUuid (cl_sub c))]"] update_self_plain
      by (simp add: mem del: upt_Suc)
    moreover have "st_text st = update_text (\<lambda>x. x) (\<lambda>x. x) ''users'' ?items [(''id'', TUuid (cl_sub c))]"
      by (simp add: st(4) update_text_def len)
    ultimately show ?thesis using st(3) by (auto simp: bound_def)
  qed
  moreover have "fst ` set ?items \<subseteq> {''email'', ''phone'', ''passwd''}"
    using update_self_mem by (fastforce simp: mem)
  ultimately show ?thesis
    using t(1,2) st(2,3) st(4)[folded len] by blast
qed

section \<open>A small service\<close>

text \<open>Two accounts, a database that records what it executes, and tokens that are the names of the accounts.\<close>

definition root_account :: user where
  "root_account = \<lparr>us_id = Some ''aaaaaaaaaaaaaaaa'', us_username = ''root'', us_passwd = ''h1'', us_email = None,
     us_phone = None, us_state = Active, us_role = SuperUser, us_description = None\<rparr>"

definition ann_account :: user where
  "ann_account = \<lparr>us_id = Some ''bbbbbbbbbbbbbbbb'', us_username = ''ann'', us_passwd = ''h2'', us_email = None,
     us_phone = None, us_state = Inactive, us_role = Operador, us_description = None\<rparr>"

definition sample_claim :: "user \<Rightarrow> uuid claim" where
  "sample_claim u = \<lparr>cl_iss = None, cl_sub = opt_default [] (us_id u), cl_exp = 0, cl_nbf = None, cl_iat = None,
     cl_jti = None, cl_aud = None\<rparr>"

type_synonym sample_db = "user list \<times> statement list"

definition sample_pg :: "sample_db postgres" where
  "sample_pg = \<lparr>
     pg_fetch = (\<lambda>st db. Inr (map (\<lambda>u. map_of (zip user_columns (user_values u)))
       (filter (\<lambda>u. list_all (\<lambda>v. List.member (user_values u) v) (st_args st)) (fst db)))),
     pg_execute = (\<lambda>st db. (Inr 1, (fst db, snd db @ [st]))),
     pg_wheres = (\<lambda>xs. xs), pg_groups = (\<lambda>xs. xs)\<rparr>"

definition sample_env :: "sample_db env" where
  "sample_env = \<lparr>
     en_pg = sample_pg, en_show_sqlx = (\<lambda>_. []), en_bcrypt = (\<lambda>p. Some (CHR ''h'' # p)),
     en_verify = (\<lambda>p h. Some (h = CHR ''h'' # p)), en_uuid = (\<lambda>x. if length x = 16 then Some x else None),
     en_login_json = (\<lambda>x. Some \<lparr>lg_username = x, lg_password = ''2''\<rparr>), en_user_json = (\<lambda>_. None),
     en_self_json = (\<lambda>x. Some \<lparr>up_passwd = None, up_email = (if x = [] then None else Some x), up_phone = None\<rparr>),
     en_update_json = (\<lambda>_. None), en_bucket_json = (\<lambda>_. None), en_bucket_update_json = (\<lambda>_. None),
     en_check = (\<lambda>t. if t = ''root'' then Inr (Inr (sample_claim root_account))
       else if t = ''ann'' then Inr (Inr (sample_claim ann_account)) else Inl UnwrapErr),
     en_sign = (\<lambda>c. Inr (Inr (cl_sub c))), en_now = 1000, en_jti = [], en_host = ''host''\<rparr>"

definition sample_db :: sample_db where
  "sample_db = ([root_account, ann_account], [])"

definition sample_request :: "http_method \<Rightarrow> string \<Rightarrow> string \<Rightarrow> string \<Rightarrow> request" where
  "sample_request m path tok b = \<lparr>rq_method = m, rq_path = path,
     rq_headers = [(''authorization'', ''Bearer '' @ tok)], rq_body = BodyBytes b, rq_repo = True, rq_claim = None\<rparr>"

definition own_email :: request where
  "own_email = sample_request PATCH ''/api/v1/user'' ''ann'' ''e''"

definition own_email_statement :: statement where
  "own_email_statement = \<lparr>st_text = ''UPDATE users SET email = $1 WHERE id = $2'',
     st_args = [TOptString (Some ''e''), TUuid ''bbbbbbbbbbbbbbbb'']\<rparr>"

lemma own_email_call:
  "ep_call sample_env own_email sample_db
     = Inr (json_response (JsonRows 1), ([root_account, ann_account], [own_email_statement]))"
  by code_simp

lemma own_email_token: "get_token jwt_both_search (rq_headers own_email) = Some ''ann''"
  by code_simp

theorem changes_need_admin_witness:
  "\<exists>c. en_check sample_env ''ann'' = Inr (Inr c)
     \<and> (rq_path own_email = ''/api/v1/user'' \<or>
        (\<exists>u. find_user sample_env (query_wh ''id'' (TUuid (cl_sub c)) query_builder) sample_db = Inr (Inr u) \<and> is_admin u))"
proof -
  have "([root_account, ann_account], [own_email_statement]) \<noteq> sample_db" by (simp add: sample_db_def)
  from changes_need_admin[OF own_email_call this] own_email_token show ?thesis by auto
qed

theorem own_account_update_witness:
  "\<exists>st. ([root_account, ann_account], [own_email_statement]) = snd (pg_execute sample_pg st sample_db) \<and> bound st"
proof -
  have "([root_account, ann_account], [own_email_statement]) \<noteq> sample_db" by (simp add: sample_db_def)
  moreover have "hash_order (pg_wheres (en_pg sample_env))"
    by (simp add: sample_env_def sample_pg_def hash_order_def)
  moreover have "rq_path own_email = ''/api/v1/user''" by (simp add: own_email_def sample_request_def)
  ultimately have "\<exists>tok c st items. get_token jwt_both_search (rq_headers own_email) = Some tok
    \<and> en_check sample_env tok = Inr (Inr c)
    \<and> ([root_account, ann_account], [own_email_statement]) = snd (pg_execute (en_pg sample_env) st sample_db)
    \<and> bound st
    \<and> st_args st = map snd items @ [TUuid (cl_sub c)]
    \<and> st_text st = ''UPDATE users SET'' @ join_with '','' (numbered assign_text 1 items)
        @ '' WHERE'' @ assign_text ''id'' (TUuid (cl_sub c)) (length items + 1)
    \<and> fst ` set items \<subseteq> {''email'', ''phone'', ''passwd''}"
    by (rule own_account_update[OF own_email_call])
  moreover have "en_pg sample_env = sample_pg" by (simp add: sample_env_def)
  ultimately show ?thesis by metis
qed

section \<open>What responses show\<close>

fun hides_password :: "item \<Rightarrow> bool" where
  "hides_password (ItemUser u) \<longleftrightarrow> us_passwd u = []"
| "hides_password _ \<longleftrightarrow> True"

fun hides_passwords :: "payload \<Rightarrow> bool" where
  "hides_passwords (JsonData i) \<longleftrightarrow> hides_password i"
| "hides_passwords (JsonList n is) \<longleftrightarrow> list_all hides_password is"
| "hides_passwords _ \<longleftrightarrow> True"

text \<open>Responses of a signed-in request: no password and no new token.\<close>

definition discreet_response :: "response \<Rightarrow> bool" where
  "discreet_response resp \<longleftrightarrow> hides_passwords (rs_payload resp) \<and> rs_cookie resp = None"

definition discreet :: "'db handler \<Rightarrow> bool" where
  "discreet h \<longleftrightarrow> (\<forall>db resp db'. h db = Inr (Inr resp, db') \<longrightarrow> discreet_response resp)"

lemma discreet_json [simp]: "discreet_response (json_response p) \<longleftrightarrow> hides_passwords p"
  by (simp add: discreet_response_def json_response_def)

lemma discreetI:
  "(\<And>db resp db'. h db = Inr (Inr resp, db') \<Longrightarrow> discreet_response resp) \<Longrightarrow> discreet h"
  by (auto simp: discreet_def)

lemma discreetD: "discreet h \<Longrightarrow> h db = Inr (Inr resp, db') \<Longrightarrow> discreet_response resp"
  by (auto simp: discreet_def)

named_theorems discreet_intros

lemma discreet_fail [discreet_intros]: "discreet (fail_new d s)" "discreet (fail_status s)"
  by (auto simp: discreet_def fail_new_def fail_status_def)

lemma discreet_get_repo [discreet_intros]: "discreet next \<Longrightarrow> discreet (get_repo req next)"
  by (auto simp: discreet_def get_repo_def fail_new_def)

lemma discreet_reply_read [discreet_intros]:
  "(\<And>x. discreet_response (f x)) \<Longrightarrow> discreet (\<lambda>db. reply_read env f (r db) db)"
  by (auto simp: discreet_def reply_read_def and_then_def split: sum.split_asm)

lemma reply_execute:
  assumes "reply env f (x, db1) = (Inr resp, db')" "repo_execute pg res st db = (x, db1)"
    "res \<in> {Inserted, Deleted, Updated}"
  shows "discreet_response resp"
  using assms
  by (auto simp: reply_def repo_execute_def response_of_query_result_def
      split: prod.split_asm sum.split_asm)

lemma reply_executed:
  "reply env f (repo_execute pg res st db) = (Inr resp, db') \<Longrightarrow> res \<in> {Inserted, Deleted, Updated} \<Longrightarrow>
     discreet_response resp"
  by (cases "repo_execute pg res st db") (metis reply_execute)

lemmas handler_defs = get_repo_def fail_new_def fail_status_def and_then_def repo_insert_def repo_update_def
  repo_delete_def

lemma discreet_handlers [discreet_intros]:
  "discreet (user_new env req)" "discreet (user_get env req uid)" "discreet (user_get_all env req)"
  "discreet (get_user_info env req o1)" "discreet (user_delete env req uid)"
  "discreet (user_update env slice items req uid)" "discreet (bucket_create env req)"
  "discreet (bucket_change env req uid)" "discreet (bucket_get env req uid)"
  "discreet (bucket_get_all env req)" "discreet (bucket_delete env req uid)"
proof -
  show "discreet (user_new env req)"
    by (rule discreetI) (auto simp: user_new_def handler_defs dest: reply_execute
        split: sum.split_asm if_split_asm prod.split_asm)
  show "discreet (user_get env req uid)" unfolding user_get_def
    by (intro discreet_intros) (simp add: response_of_query_result_def clear_passwd_def)
  show "discreet (user_get_all env req)" unfolding user_get_all_def
    by (intro discreet_intros)
      (simp add: response_of_query_result_def clear_passwd_def list_all_iff)
  show "discreet (get_user_info env req o1)"
    by (rule discreetI) (auto simp: get_user_info_def reply_read_def and_then_def Let_def
        response_of_query_result_def list_all_iff split: if_split_asm sum.split_asm)
  show "discreet (user_delete env req uid)"
    by (rule discreetI) (auto simp: user_delete_def handler_defs dest: reply_executed split: if_split_asm)
  show "discreet (user_update env slice items req uid)"
    by (rule discreetI) (auto simp: user_update_def handler_defs dest: reply_execute
        split: sum.split_asm if_split_asm)
  show "discreet (bucket_create env req)"
    by (rule discreetI) (auto simp: bucket_create_def handler_defs dest: reply_execute
        split: sum.split_asm if_split_asm prod.split_asm)
  show "discreet (bucket_change env req uid)"
    by (rule discreetI) (auto simp: bucket_change_def handler_defs dest: reply_execute
        split: sum.split_asm if_split_asm)
  show "discreet (bucket_get env req uid)" unfolding bucket_get_def
    by (intro discreet_intros) (simp add: response_of_query_result_def)
  show "discreet (bucket_get_all env req)" unfolding bucket_get_all_def
    by (intro discreet_intros) (simp add: response_of_query_result_def list_all_iff)
  show "discreet (bucket_delete env req uid)"
    by (rule discreetI) (auto simp: bucket_delete_def handler_defs dest: reply_executed split: if_split_asm)
qed

lemma discreet_route: "discreet (route_admin env req path)"
  by (simp add: route_admin_def Let_def discreet_intros split: option.split)

lemma discreet_api: "discreet (api env req)"
proof -
  have "discreet (middleware_user_admin env req (endpoint_admin env))"
    by (rule discreetI) (auto simp: middleware_user_admin_def endpoint_admin_def handler_defs
        dest: discreetD[OF discreet_route] split: sum.split_asm if_split_asm)
  note d = discreetD[OF this] discreetD[OF discreet_handlers(6)] discreetD[OF discreet_handlers(4)]
  show ?thesis
    by (rule discreetI) (auto simp: api_def fail_new_def and_then_def dest: d split: sum.split_asm if_split_asm)
qed

lemma discreet_err [simp]: "discreet_response (response_of_err e)"
  by (simp add: discreet_response_def response_of_err_def split: option.split)

lemma discreet_ep_api: "discreet (ep_api env req)"
  by (rule discreetI) (auto simp: ep_api_def and_then_def dest: discreetD[OF discreet_api]
      split: option.split_asm sum.split_asm)

lemma ep_call_discreet:
  assumes "ep_call env req db = Inr (resp, db')"
  shows "(rq_path req = ''/login'' \<and> rq_method req = POST \<and> ep_login env req db = Inr (Inr resp, db'))
    \<or> discreet_response resp"
  using assms
  by (auto simp: ep_call_def and_then_def dest: discreetD[OF discreet_ep_api] discreetD[OF discreet_fail(1)]
      split: sum.split_asm if_split_asm prod.split_asm)

lemma ep_login_cases:
  "ep_login env req db = Inr (Inr resp, db') \<Longrightarrow> (\<exists>t. resp = login_response t) \<or> discreet_response resp"
  by (auto simp: ep_login_def fail_new_def fail_status_def and_then_def split: sum.split_asm if_split_asm)



section \<open>Logging in\<close>

text \<open>
  C21. A token is handed out only to a request to log in whose password is verified against the hash of the
  account of that name, and it signs the id of that account for six hours from now, issued by this host.
  That the account is active is not asked for.
\<close>

theorem login_token:
  assumes "ep_call env req db = Inr (resp, db')" "rs_cookie resp = Some token"
  shows "\<exists>login u uid. rq_path req = ''/login'' \<and> rq_method req = POST \<and> db' = db
    \<and> parse_body (en_login_json env) (rq_body req) = Inr login
    \<and> find_user env (query_wh ''username'' (TString (lg_username login)) query_builder) db = Inr (Inr u)
    \<and> en_verify env (lg_password login) (us_passwd u) = Some True \<and> us_id u = Some uid
    \<and> en_sign env \<lparr>cl_iss = Some (en_host env), cl_sub = uid, cl_exp = en_now env + 21600, cl_nbf = None,
         cl_iat = Some (en_now env), cl_jti = None, cl_aud = None\<rparr> = Inr (Inr token)"
proof -
  have nd: "\<not> discreet_response resp" using assms(2) by (simp add: discreet_response_def)
  then have l: "rq_path req = ''/login''" "rq_method req = POST" "ep_login env req db = Inr (Inr resp, db')"
    using ep_call_discreet[OF assms(1)] by auto
  then show ?thesis
    using nd assms(2)
    by (auto simp: ep_login_def fail_new_def fail_status_def and_then_def login_response_def
        claim_of_user_def builder_exp_def builder_build_def add_duration_def unwrap_def set_iss_def
        builder_sub_def builder_default_def builder_iat_def
        split: sum.split_asm if_split_asm option.split_asm)
qed

theorem login_token_witness:
  "\<exists>u. find_user sample_env (query_wh ''username'' (TString ''ann'') query_builder) sample_db = Inr (Inr u)
     \<and> us_id u = Some ''bbbbbbbbbbbbbbbb''"
proof -
  have c: "ep_call sample_env (sample_request POST ''/login'' [] ''ann'') sample_db
      = Inr (login_response ''bbbbbbbbbbbbbbbb'', sample_db)"
    by code_simp
  have t: "rs_cookie (login_response ''bbbbbbbbbbbbbbbb'') = Some ''bbbbbbbbbbbbbbbb''"
    by (simp add: login_response_def)
  from login_token[OF c t] show ?thesis
    by (auto simp: sample_env_def sample_request_def parse_body_def)
qed

section \<open>Routes that miss\<close>

text \<open>
  No account can be created: a post to the path of the users is answered with an error for every
  caller, administrators included, since the path is taken before the route that creates.
\<close>

theorem user_creation_unreachable:
  assumes "rq_path req = ''/api/v1/user''" "rq_method req = POST"
    and "get_token jwt_both_search (rq_headers req) = Some token" "en_check env token = Inr (Inr claim)"
  shows "ep_call env req db = Inr (response_of_err (response_err_new ''Path not found'' 400), db)"
proof -
  have "strip_prefix prefix_path (rq_path req) = Some ''/user''" "prefix prefix_path (rq_path req)"
    by (simp_all add: assms(1) prefix_path_def strip_prefix_def)
  then show ?thesis
    using assms by (simp add: ep_call_def ep_api_def api_def fail_new_def)
qed

theorem user_creation_unreachable_witness:
  "rs_status (fst (case ep_call sample_env (sample_request POST ''/api/v1/user'' ''root'' []) sample_db of Inr r \<Rightarrow> r)) = 400"
proof -
  let ?req = "sample_request POST ''/api/v1/user'' ''root'' []"
  have t: "get_token jwt_both_search (rq_headers ?req) = Some ''root''" by code_simp
  have c: "en_check sample_env ''root'' = Inr (Inr (sample_claim root_account))" by (simp add: sample_env_def)
  have "ep_call sample_env ?req sample_db = Inr (response_of_err (response_err_new ''Path not found'' 400), sample_db)"
    by (rule user_creation_unreachable[OF _ _ t c]) (simp_all add: sample_request_def)
  then show ?thesis by (simp add: response_of_err_def response_err_new_def)
qed

text \<open>
  C26. Deleting a bucket deletes, as an administrator, the user of that id, and no bucket.
\<close>

theorem bucket_delete_hits_users:
  assumes "get_token jwt_both_search (rq_headers req) = Some token" "en_check env token = Inr (Inr claim)"
    and "find_user env (query_wh ''id'' (TUuid (cl_sub claim)) query_builder) db = Inr (Inr admin)" "is_admin admin"
    and "rq_repo req" "rq_method req = DELETE" "rq_path req = ''/api/v1/bucket/'' @ x" "en_uuid env x = Some uid"
  shows "\<exists>resp. ep_call env req db = Inr (resp, snd (pg_execute (en_pg env)
    \<lparr>st_text = ''DELETE FROM users WHERE id = $1'', st_args = [TUuid uid]\<rparr> db))"
proof -
  have p: "prefix prefix_path (rq_path req)" "strip_prefix prefix_path (rq_path req) = Some (''/bucket/'' @ x)"
    using assms(7) by (simp_all add: prefix_path_def strip_prefix_def)
  obtain r where "bucket_delete env (req\<lparr>rq_claim := Some claim\<rparr>) uid db = Inr (r, snd (pg_execute (en_pg env)
    \<lparr>st_text = ''DELETE FROM users WHERE id = $1'', st_args = [TUuid uid]\<rparr> db))"
    using assms(5) snd_reply[of env ItemUser "repo_execute (en_pg env) Deleted (delete_statement uid) db"]
    by (cases "reply env ItemUser (repo_execute (en_pg env) Deleted (delete_statement uid) db)")
      (simp add: bucket_delete_def get_repo_def repo_delete_def delete_statement_def tabla_user_def
        snd_repo_execute)
  moreover have "route_admin env (req\<lparr>rq_claim := Some claim\<rparr>) (''/bucket/'' @ x) db
      = bucket_delete env (req\<lparr>rq_claim := Some claim\<rparr>) uid db"
    using assms(6,8) by (simp add: route_admin_def detail_route_def Let_def strip_prefix_def)
  ultimately have "ep_api env req db = Inr (r, snd (pg_execute (en_pg env)
    \<lparr>st_text = ''DELETE FROM users WHERE id = $1'', st_args = [TUuid uid]\<rparr> db))"
    using assms p by (simp add: ep_api_def api_def middleware_user_admin_def endpoint_admin_def get_repo_def)
  then show ?thesis
    using assms(6) p by (simp add: ep_call_def and_then_def)
qed

theorem bucket_delete_hits_users_witness:
  "\<exists>resp. ep_call sample_env (sample_request DELETE ''/api/v1/bucket/bbbbbbbbbbbbbbbb'' ''root'' []) sample_db
     = Inr (resp, ([root_account, ann_account],
         [\<lparr>st_text = ''DELETE FROM users WHERE id = $1'', st_args = [TUuid ''bbbbbbbbbbbbbbbb'']\<rparr>]))"
proof -
  let ?req = "sample_request DELETE ''/api/v1/bucket/bbbbbbbbbbbbbbbb'' ''root'' []"
  have t: "get_token jwt_both_search (rq_headers ?req) = Some ''root''" by code_simp
  have c: "en_check sample_env ''root'' = Inr (Inr (sample_claim root_account))" by (simp add: sample_env_def)
  have f: "find_user sample_env (query_wh ''id'' (TUuid (cl_sub (sample_claim root_account))) query_builder) sample_db
      = Inr (Inr root_account)" by code_simp
  have "\<exists>resp. ep_call sample_env ?req sample_db = Inr (resp, snd (pg_execute (en_pg sample_env)
    \<lparr>st_text = ''DELETE FROM users WHERE id = $1'', st_args = [TUuid ''bbbbbbbbbbbbbbbb'']\<rparr> sample_db))"
    by (rule bucket_delete_hits_users[OF t c f, where x = "''bbbbbbbbbbbbbbbb''"])
      (simp_all add: is_admin_def root_account_def sample_request_def sample_env_def)
  then show ?thesis by (simp add: sample_env_def sample_pg_def sample_db_def)
qed

text \<open>An update without a value is not refused: the repository unwraps the builder's error.\<close>

lemma empty_update_panics:
  assumes "rq_repo req" "parse_body slice (rq_body req) = Inr new" "items new = []"
    "hash_order (pg_wheres (en_pg env))"
  shows "user_update env slice items req uid db = Inl UnwrapErr"
  using assms
  by (simp add: user_update_def get_repo_def repo_update_def update_query_def update_wh_def update_from_def
      update_new_def hash_order_simps)

end
