(* ===== verification/Auth_Service.thy ===== *)
theory Auth_Service
  imports Proxy_Info Auth_Handlers
begin

text \<open>
  The auth service as it is started (auth/src/main.rs): its entry point below the state, the cross-origin
  headers, the log and the layer for proxies, and the cross-origin configuration it builds from its own
  host. The functions for the log only write lines of it, so they leave the state as it is.
\<close>

section \<open>The entry point as a layer\<close>

record auth_exts = exts +
  ae_repo :: bool

definition auth_request :: "auth_exts http_request \<Rightarrow> request" where
  "auth_request req = \<lparr>rq_method = hq_method req, rq_path = hq_path req, rq_headers = hq_headers req,
     rq_body = hq_body req, rq_repo = ae_repo (hq_ext req), rq_claim = None\<rparr>"

text \<open>The argument \<open>show_cookie\<close> is the text of the login cookie with a token.\<close>

definition http_of_response :: "(string \<Rightarrow> string) \<Rightarrow> response \<Rightarrow> payload http_response" where
  "http_of_response show_cookie r =
     \<lparr>hr_status = rs_status r,
      hr_headers = (if rs_json r then [(''content-type'', ''application/json'')] else [])
        @ (case rs_cookie r of None \<Rightarrow> [] | Some t \<Rightarrow> [(''set-cookie'', show_cookie t)]),
      hr_body = rs_payload r\<rparr>"

type_synonym ('db, 'e) auth_layer = "(auth_exts, 'db, 'e, payload) layer"

definition auth_entry :: "'db env \<Rightarrow> (string \<Rightarrow> string) \<Rightarrow> ('db, 'e) auth_layer" where
  "auth_entry env show_cookie req db =
     and_then (ep_call env (auth_request req) db) (\<lambda>(r, db').
       Inr (Inr (http_of_response show_cookie r), db'))"

section \<open>The stack\<close>

text \<open>\<^verbatim>\<open>CorsBuilder\<close> as main configures it; \<open>own\<close> is the text of the host of the service.\<close>

definition localhost_origin :: string where
  "localhost_origin = ''http://localhost:5173''"

definition auth_cors_builder :: "string \<Rightarrow> origin cors_builder run" where
  "auth_cors_builder own =
     and_then (cors_first_origin localhost_origin cors_builder_default) (\<lambda>b.
     and_then (cors_allow_origin own b) (\<lambda>b.
       Inr (cors_allow_credentials True
         (cors_allow_header ''authorization'' (cors_allow_header ''cookie'' (cors_allow_header ''content-type''
           (cors_allow_method PATCH (cors_allow_method OPTIONS (cors_allow_method GET (cors_allow_method PUT b))))))))))"

definition auth_cors ::
    "(http_method list \<Rightarrow> http_method list) \<Rightarrow> (string list \<Rightarrow> string list) \<Rightarrow> string \<Rightarrow> cors run" where
  "auth_cors itm ith own =
     and_then (auth_cors_builder own) (\<lambda>b. and_then (cors_build itm ith b) cors_into_layer)"

definition auth_log :: "((auth_exts, 'db) on_request, ('db, payload) on_response) log" where
  "auth_log = log_into_layer (log_build (log_on_response (\<lambda>resp instant db. Inr db)
     (log_on_request (\<lambda>req db. Inr db) log_builder_default)))"

definition auth_stack ::
    "'db env \<Rightarrow> (string \<Rightarrow> string) \<Rightarrow> ('db \<Rightarrow> nat) \<Rightarrow> cors \<Rightarrow> ('db, 'e) auth_layer stack" where
  "auth_stack env show_cookie clock co =
     stack_layer proxy_info_layer
       (stack_layer (log_call clock auth_log)
         (stack_layer (cors_call NoBody co)
           (stack_state (\<lambda>k x. x\<lparr>ae_repo := k\<rparr>) True
             (stack_entry (auth_entry env show_cookie) middleware_stack_default))))"

text \<open>What the service does with a request that comes in on a connection from \<open>peer\<close>.\<close>

definition auth_serve ::
    "'db env \<Rightarrow> (string \<Rightarrow> string) \<Rightarrow> ('db \<Rightarrow> nat) \<Rightarrow> cors \<Rightarrow> peer \<Rightarrow> auth_exts http_request
     \<Rightarrow> 'db \<Rightarrow> (('e + payload http_response) \<times> 'db) run" where
  "auth_serve env show_cookie clock co peer req db =
     stack_call (auth_stack env show_cookie clock co)
       (req\<lparr>hq_ext := (hq_ext req)\<lparr>ex_peer := Some peer\<rparr>\<rparr>) db"

section \<open>What the stack adds to the entry point\<close>

definition served_request :: "auth_exts http_request \<Rightarrow> request" where
  "served_request req = (auth_request req)\<lparr>rq_repo := True\<rparr>"

lemma auth_log_call: "log_call clock auth_log inner req db = inner req db"
  by (rule log_call_silent) (simp_all add: auth_log_def log_into_layer_def log_build_def
      log_on_request_def log_on_response_def log_builder_default_def)

lemma cors_kind_ext: "cors_kind_of co (req\<lparr>hq_ext := x\<rparr>) = cors_kind_of co req"
  by (simp add: cors_kind_of_def split: option.split)

lemma auth_serve_unfold:
  "auth_serve env show_cookie clock co peer req db =
     and_then (proxy_info_of (hq_headers req) (Some peer)) (\<lambda>info.
       cors_future NoBody (cors_kind_of co req)
         (\<lambda>r db. and_then (ep_call env (served_request req) db) (\<lambda>(r, db'). Inr (Inr (http_of_response show_cookie r), db')))
         req db)"
proof (cases "proxy_info_of (hq_headers req) (Some peer)")
  case (Inl p)
  then show ?thesis
    by (simp add: auth_serve_def stack_call_def auth_stack_def stack_layer_def proxy_info_layer_def
        proxy_info_call_def Let_def)
next
  case (Inr info)
  then show ?thesis
    by (cases "cors_kind_of co req")
      (simp_all add: auth_serve_def stack_call_def auth_stack_def stack_layer_def stack_state_def stack_entry_def
        proxy_info_layer_def proxy_info_call_def auth_log_call cors_call_def cors_kind_ext state_call_def
        auth_entry_def auth_request_def served_request_def Let_def)
qed

definition malformed_forwarded :: "header_map \<Rightarrow> bool" where
  "malformed_forwarded hs \<longleftrightarrow> (case text_header hs ''forwarded'' of
     None \<Rightarrow> False | Some fw \<Rightarrow> list_ex (\<lambda>x. \<not> has_pairs x) (split_ch CHR '','' fw))"

lemma proxy_info_malformed:
  "malformed_forwarded hs \<Longrightarrow> proxy_info_of hs peer = Inl UnwrapNone"
  "\<not> malformed_forwarded hs \<Longrightarrow> \<exists>info. proxy_info_of hs peer = Inr info"
proof -
  have "(\<exists>p. proxy_info_of hs peer = Inl p) \<longleftrightarrow> malformed_forwarded hs"
    by (auto simp: proxy_info_panics malformed_forwarded_def list_ex_iff split: option.splits)
  then show "malformed_forwarded hs \<Longrightarrow> proxy_info_of hs peer = Inl UnwrapNone"
    "\<not> malformed_forwarded hs \<Longrightarrow> \<exists>info. proxy_info_of hs peer = Inr info"
    using proxy_info_panics[of hs peer] by (auto, cases "proxy_info_of hs peer", auto)
qed

lemma auth_builder:
  assumes "auth_cors_builder own = Inr b"
  shows "cob_origin b = Origin [localhost_origin, own]" "cob_methods b = [PATCH, OPTIONS, GET, PUT]"
    "cob_headers b = [''authorization'', ''cookie'', ''content-type'']" "cob_credentials b = Some True"
  using assms
  by (auto simp: auth_cors_builder_def cors_first_origin_def cors_allow_origin_def cors_builder_default_def
      cors_allow_credentials_def cors_allow_header_def cors_allow_method_def origin_new_def localhost_origin_def
      and_then_eq_Inr split: if_split_asm)

lemma auth_cors_built:
  assumes "auth_cors itm ith own = Inr co"
  obtains b l where "auth_cors_builder own = Inr b" "cors_build itm ith b = Inr l" "cors_into_layer l = Inr co"
  using assms by (auto simp: auth_cors_def and_then_eq_Inr)

lemma auth_cors_kind:
  assumes "auth_cors itm ith own = Inr co"
  shows "case header_get (hq_headers req) ''origin'' of
      None \<Rightarrow> cors_kind_of co req = Pass
    | Some x \<Rightarrow>
        if x = localhost_origin \<or> x = own
        then \<exists>hm. cors_kind_of co req = (if hq_method req = OPTIONS then Preflight hm else CorsHeaders hm)
          \<and> distinct (map fst hm)
          \<and> (hq_method req = OPTIONS \<longrightarrow> header_get hm ''access-control-allow-methods''
              = Some (or_star (join_with '', '' (map method_as_str (itm [PATCH, OPTIONS, GET, PUT])))))
        else cors_kind_of co req = Pass"
proof -
  obtain b l where b: "auth_cors_builder own = Inr b" "cors_build itm ith b = Inr l" "cors_into_layer l = Inr co"
    using auth_cors_built[OF assms] .
  have kinds: "case origin_allowed b req of
      None \<Rightarrow> cors_kind_of co req = Pass
    | Some x \<Rightarrow> \<exists>hm. distinct (map fst hm) \<and> (\<forall>n. header_get hm n = cors_sets itm ith b (hq_method req = OPTIONS) x n)
        \<and> cors_kind_of co req = (if hq_method req = OPTIONS then Preflight hm else CorsHeaders hm)"
    using cors_kind_cases[OF b(2,3)] .
  show ?thesis
  proof (cases "header_get (hq_headers req) ''origin''")
    case None
    then show ?thesis using kinds by (simp add: origin_allowed_def)
  next
    case (Some x)
    show ?thesis
    proof (cases "x = localhost_origin \<or> x = own")
      case True
      then have "origin_allowed b req = Some x"
        by (simp add: origin_allowed_def Some auth_builder(1)[OF b(1)])
      with kinds obtain hm where hm: "distinct (map fst hm)"
        "\<forall>n. header_get hm n = cors_sets itm ith b (hq_method req = OPTIONS) x n"
        "cors_kind_of co req = (if hq_method req = OPTIONS then Preflight hm else CorsHeaders hm)"
        by auto
      from hm(2) have "hq_method req = OPTIONS \<longrightarrow> header_get hm ''access-control-allow-methods''
              = Some (or_star (join_with '', '' (map method_as_str (itm [PATCH, OPTIONS, GET, PUT]))))"
        by (simp add: cors_sets_def auth_builder(2)[OF b(1)])
      with hm True Some show ?thesis by auto
    next
      case False
      then have "origin_allowed b req = None"
        by (simp add: origin_allowed_def Some auth_builder(1)[OF b(1)])
      then show ?thesis using kinds False Some by simp
    qed
  qed
qed

section \<open>What the service answers\<close>

definition preflight :: "string \<Rightarrow> 'x http_request \<Rightarrow> bool" where
  "preflight own req \<longleftrightarrow> hq_method req = OPTIONS
     \<and> (header_get (hq_headers req) ''origin'' = Some localhost_origin
        \<or> header_get (hq_headers req) ''origin'' = Some own)"


text \<open>A service on \<open>http://a/\<close> with the sample accounts, and a request for the list of users.\<close>

definition sample_cors :: cors where
  "sample_cors = \<lparr>co_origin = [localhost_origin, ''http://a/''],
     co_methods = (''access-control-allow-methods'', ''PATCH, OPTIONS, GET, PUT''),
     co_headers = (''access-control-allow-headers'', ''authorization, cookie, content-type''),
     co_credential = Some (''access-control-allow-credentials'', ''true'')\<rparr>"

lemma sample_cors_built: "auth_cors (\<lambda>x. x) (\<lambda>x. x) ''http://a/'' = Inr sample_cors"
  by (simp add: auth_cors_def auth_cors_builder_def cors_first_origin_def cors_allow_origin_def origin_new_def
      localhost_origin_def cors_builder_default_def cors_allow_credentials_def cors_allow_header_def
      cors_allow_method_def cors_build_def cors_into_layer_def header_to_str_def header_value_of_str_def
      visible_def or_star_def sample_cors_def)

definition sample_http :: "http_method \<Rightarrow> header_map \<Rightarrow> auth_exts http_request" where
  "sample_http m hs = \<lparr>hq_method = m, hq_path = ''/api/v1/users'', hq_headers = hs, hq_body = BodyBytes [],
     hq_ext = \<lparr>ex_peer = None, ex_proxy = None, ae_repo = False\<rparr>\<rparr>"


section \<open>Which pages may use the service\<close>

lemma header_get_extend_new:
  "distinct (map fst hm) \<Longrightarrow> header_get (header_extend hm []) n = header_get hm n"
  by (simp add: header_get_extend split: option.split)

lemma join_methods_neq:
  "ms \<noteq> [] \<Longrightarrow> set ms = {PUT, GET, OPTIONS, PATCH} \<Longrightarrow> join_with '', '' (map method_as_str ms) \<noteq> []"
proof -
  assume ms: "ms \<noteq> []" "set ms = {PUT, GET, OPTIONS, PATCH}"
  then obtain m ms' where c: "ms = m # ms'" by (cases ms) auto
  with ms(2) have "m \<in> {PUT, GET, OPTIONS, PATCH}" by auto
  then have "method_as_str m \<noteq> []" by auto
  with c show ?thesis by (cases ms') auto
qed

text \<open>
  C28. The service's own origin is written with a slash at its end, which no origin a browser sends has: of
  the pages elsewhere only those of \<open>http://localhost:5173\<close> are given cross-origin headers, and their
  preflight answers allow PUT, GET, OPTIONS and PATCH, but neither the POST of a login nor DELETE.
\<close>

theorem auth_cross_origin:
  assumes "auth_cors itm ith (host_text h) = Inr co" "hash_order itm"
    "header_get (hq_headers req) ''origin'' = Some x" "x \<noteq> []" "last x \<noteq> CHR ''/''"
    "\<not> malformed_forwarded (hq_headers req)"
  shows "if x \<noteq> localhost_origin
    then (auth_serve env show_cookie clock co peer req db :: (('e + payload http_response) \<times> 'db) run)
      = and_then (ep_call env (served_request req) db) (\<lambda>(r, db'). Inr (Inr (http_of_response show_cookie r), db'))
    else hq_method req = OPTIONS \<longrightarrow> (\<exists>hs ms. set ms = {PUT, GET, OPTIONS, PATCH} \<and> distinct ms
      \<and> header_get hs ''access-control-allow-methods'' = Some (join_with '', '' (map method_as_str ms))
      \<and> (auth_serve env show_cookie clock co peer req db :: (('e + payload http_response) \<times> 'db) run)
        = Inr (Inr \<lparr>hr_status = 200, hr_headers = hs, hr_body = NoBody\<rparr>, db))"
proof -
  obtain info where info: "proxy_info_of (hq_headers req) (Some peer) = Inr info"
    using proxy_info_malformed(2)[OF assms(6)] by blast
  have own: "x \<noteq> host_text h" using assms(4,5) by (auto simp: host_text_def)
  have kind: "if x = localhost_origin
        then \<exists>hm. cors_kind_of co req = (if hq_method req = OPTIONS then Preflight hm else CorsHeaders hm)
          \<and> distinct (map fst hm)
          \<and> (hq_method req = OPTIONS \<longrightarrow> header_get hm ''access-control-allow-methods''
              = Some (or_star (join_with '', '' (map method_as_str (itm [PATCH, OPTIONS, GET, PUT])))))
        else cors_kind_of co req = Pass"
    using auth_cors_kind[OF assms(1), of req] own by (simp add: assms(3))
  show ?thesis
  proof (cases "x = localhost_origin")
    case False
    then show ?thesis using kind info by (simp add: auth_serve_unfold)
  next
    case True
    let ?ms = "itm [PATCH, OPTIONS, GET, PUT]"
    have ms: "set ?ms = {PUT, GET, OPTIONS, PATCH}" "distinct ?ms" "?ms \<noteq> []"
      using hash_order_simps[OF assms(2)] by (auto simp: hash_order_simps(3)[OF assms(2)])
    have ne: "join_with '', '' (map method_as_str ?ms) \<noteq> []"
      by (rule join_methods_neq) (use ms in simp_all)
    have "\<exists>hs ms. set ms = {PUT, GET, OPTIONS, PATCH} \<and> distinct ms
      \<and> header_get hs ''access-control-allow-methods'' = Some (join_with '', '' (map method_as_str ms))
      \<and> (auth_serve env show_cookie clock co peer req db :: (('e + payload http_response) \<times> 'db) run)
        = Inr (Inr \<lparr>hr_status = 200, hr_headers = hs, hr_body = NoBody\<rparr>, db)" if "hq_method req = OPTIONS"
    proof -
      obtain hm where hm: "cors_kind_of co req = Preflight hm" "distinct (map fst hm)"
        "header_get hm ''access-control-allow-methods'' = Some (join_with '', '' (map method_as_str ?ms))"
        using kind True \<open>hq_method req = OPTIONS\<close> ne by (auto simp: or_star_def)
      show ?thesis
        using hm ms(1,2) info
        by (intro exI[of _ "header_extend hm []"] exI[of _ ?ms])
          (simp add: header_get_extend_new auth_serve_unfold plain_response_def)
    qed
    with True show ?thesis by simp
  qed
qed

theorem auth_cross_origin_witness:
  "\<exists>hs ms. set ms = {PUT, GET, OPTIONS, PATCH} \<and> distinct ms
      \<and> header_get hs ''access-control-allow-methods'' = Some (join_with '', '' (map method_as_str ms))
      \<and> auth_serve sample_env (\<lambda>t. t) (\<lambda>_. 0) sample_cors (Peer None) (sample_http OPTIONS [(''origin'', localhost_origin)]) sample_db
        = (Inr (Inr \<lparr>hr_status = 200, hr_headers = hs, hr_body = NoBody\<rparr>, sample_db) :: ((unit + payload http_response) \<times> sample_db) run)"
proof -
  have host: "host_text (host_new_domain Http ''a'') = ''http://a/''"
    by (simp add: host_text_def host_new_domain_def)
  have "\<not> malformed_forwarded (hq_headers (sample_http OPTIONS [(''origin'', localhost_origin)]))"
    "header_get (hq_headers (sample_http OPTIONS [(''origin'', localhost_origin)])) ''origin'' = Some localhost_origin"
    "localhost_origin \<noteq> []" "last localhost_origin \<noteq> CHR ''/''" "hash_order (\<lambda>x. x :: http_method list)"
    by (simp_all add: malformed_forwarded_def sample_http_def text_header_def localhost_origin_def hash_order_def)
  from auth_cross_origin[where h="host_new_domain Http ''a''", unfolded host, OF sample_cors_built this(5,2,3,4,1),
      of sample_env "\<lambda>t. t" "\<lambda>_. 0" "Peer None" sample_db, where 'e=unit]
  show ?thesis by (simp add: sample_http_def)
qed

end
