(* ===== verification/Auth_Start.thy ===== *)
theory Auth_Start
  imports Auth_Service
begin

text \<open>
  How the auth service starts (auth/src/main.rs): the environment variables, the connection to the database
  with the insert of the default administrator, the key pair for tokens, and the stack. The record
  \<open>auth_outside\<close> is what lies outside: the environment, the hash of passwords, the driver, the port, files,
  the key pair that is drawn, the regular expression of the host. A panic is the left side of the outcome,
  \<open>AuthRefused\<close> is an error that \<^verbatim>\<open>main\<close> returns. Beside the outcome stand the database, once it is connected
  to, and the files; what a panic in the middle of writing the keys leaves of them is not told.
\<close>

section \<open>The environment\<close>

type_synonym environ = "string \<Rightarrow> string option"

text \<open>\<^verbatim>\<open>HOST\<close>, a lazy value that panics when it is first asked for.\<close>

definition app_host :: "(string \<Rightarrow> url_captures option) \<Rightarrow> environ \<Rightarrow> host run" where
  "app_host captures var = unwrap (Option.bind (var ''APP_HOST'') (host_from_url captures))"

definition env_expect :: "environ \<Rightarrow> string \<Rightarrow> string run" where
  "env_expect var name = unwrap_ok (var name)"

definition database_uri :: "string \<Rightarrow> string \<Rightarrow> string \<Rightarrow> string \<Rightarrow> string \<Rightarrow> string" where
  "database_uri host port user secret name =
     ''postgres://'' @ user @ '':'' @ secret @ ''@'' @ host @ '':'' @ port @ ''/'' @ name"

definition uri_of_env :: "environ \<Rightarrow> string run" where
  "uri_of_env var =
     and_then (env_expect var ''DB_HOST'') (\<lambda>host.
     and_then (env_expect var ''DB_PORT'') (\<lambda>port.
     and_then (env_expect var ''DB_USERNAME'') (\<lambda>user.
     and_then (env_expect var ''DB_PASSWD'') (\<lambda>secret.
     and_then (env_expect var ''DB_NAME'') (\<lambda>name.
       Inr (database_uri host port user secret name))))))"

definition auth_listen :: "environ \<Rightarrow> string" where
  "auth_listen var = opt_default ''0.0.0.0'' (var ''APP_LISTEN'') @ '':'' @ opt_default ''3000'' (var ''PORT'')"

section \<open>The start\<close>

record ('db, 'fs) auth_outside =
  ao_subscriber :: bool
  ao_var :: environ
  ao_bcrypt :: "string \<Rightarrow> string option"
  ao_connect :: "string \<Rightarrow> sqlx_error + 'db"
  ao_postgres :: "'db postgres"
  ao_log_info :: bool
  ao_captures :: "string \<Rightarrow> url_captures option"
  ao_listen :: "string \<Rightarrow> bool"
  ao_exists :: "'fs \<Rightarrow> string \<Rightarrow> bool"
  ao_mkdir :: "'fs \<Rightarrow> string \<Rightarrow> 'fs option"
  ao_write :: "'fs \<Rightarrow> string \<Rightarrow> string \<Rightarrow> 'fs option"
  ao_private_pem :: string
  ao_public_pem :: string

datatype auth_started = AuthRefused | AuthServing cors

text \<open>
  The database the service goes on with. The password of the default account is hashed before the
  connection is made, and an insert that fails is only logged.
\<close>

definition connect_repo :: "('db, 'fs) auth_outside \<Rightarrow> string \<Rightarrow> (unit + 'db) run" where
  "connect_repo o' uri =
     (case default_account_admin (ao_bcrypt o') of
        Inl _ \<Rightarrow> Inr (Inl ())
      | Inr admin \<Rightarrow>
          (case ao_connect o' uri of
             Inl _ \<Rightarrow> Inr (Inl ())
           | Inr db \<Rightarrow> and_then (with_default_user (ao_postgres o') admin db) (\<lambda>db. Inr (Inr db))))"

text \<open>
  The rest, with the database. The host is asked for by a log entry, which is made only at a level that is
  turned on, and again by the configuration of the origins.
\<close>

definition serve_auth ::
    "(http_method list \<Rightarrow> http_method list) \<Rightarrow> (string list \<Rightarrow> string list) \<Rightarrow> ('db, 'fs) auth_outside \<Rightarrow> 'fs
     \<Rightarrow> auth_started run \<times> 'fs" where
  "serve_auth itm ith o' fs =
     (case (if ao_log_info o' then map_sum id (\<lambda>_. ()) (app_host (ao_captures o') (ao_var o')) else Inr ()) of
        Inl e \<Rightarrow> (Inl e, fs)
      | Inr _ \<Rightarrow>
          if \<not> ao_listen o' (auth_listen (ao_var o')) then (Inr AuthRefused, fs)
          else
            (case gen_ecdsa (ao_exists o') (ao_mkdir o') (ao_write o') (ao_private_pem o') (ao_public_pem o') None fs of
               Inl e \<Rightarrow> (Inl e, fs)
             | Inr (Inl _, fs') \<Rightarrow> (Inr AuthRefused, fs')
             | Inr (Inr _, fs') \<Rightarrow>
                 (and_then (app_host (ao_captures o') (ao_var o')) (\<lambda>h.
                  and_then (auth_cors itm ith (host_text h)) (\<lambda>co. Inr (AuthServing co))), fs')))"

definition auth_main ::
    "(http_method list \<Rightarrow> http_method list) \<Rightarrow> (string list \<Rightarrow> string list) \<Rightarrow> ('db, 'fs) auth_outside \<Rightarrow> 'fs
     \<Rightarrow> auth_started run \<times> 'db option \<times> 'fs" where
  "auth_main itm ith o' fs =
     (if \<not> ao_subscriber o' then (Inr AuthRefused, None, fs)
      else case and_then (uri_of_env (ao_var o')) (connect_repo o') of
        Inl e \<Rightarrow> (Inl e, None, fs)
      | Inr (Inl _) \<Rightarrow> (Inr AuthRefused, None, fs)
      | Inr (Inr db) \<Rightarrow> (case serve_auth itm ith o' fs of (out, fs') \<Rightarrow> (out, Some db, fs')))"

section \<open>What a start does\<close>

text \<open>The insert of the default administrator, whose identifier is the nil UUID; \<open>h\<close> is the hash of its password.\<close>

definition default_admin :: "string \<Rightarrow> user" where
  "default_admin h = \<lparr>us_id = None, us_username = ''admin'', us_passwd = h, us_email = None, us_phone = None,
     us_state = Active, us_role = SuperUser, us_description = Some ''Default account''\<rparr>"

definition admin_statement :: "string \<Rightarrow> statement" where
  "admin_statement h =
     \<lparr>st_text = io_query (insert_insert user_table (default_admin h)), st_args = user_values (default_admin h)\<rparr>"

lemma default_account_admin_eq:
  "default_account_admin bcrypt = (case bcrypt ''admin'' of None \<Rightarrow> Inl EncryptErr | Some h \<Rightarrow> Inr (default_admin h))"
  by (simp add: default_account_admin_def encrypt_from_def default_admin_def split: option.split)

lemma with_default_user_eq:
  "with_default_user pg (default_admin h) db = Inr (snd (pg_execute pg (admin_statement h) db))"
  by (simp add: with_default_user_def repo_insert_def insert_query_def insert_insert_def repo_execute_def
      admin_statement_def user_table_def split: prod.split sum.split)

text \<open>A connection made, with what it leaves in the database.\<close>

definition connected :: "('db, 'fs) auth_outside \<Rightarrow> 'db \<Rightarrow> bool" where
  "connected o' db \<longleftrightarrow> ao_subscriber o' \<and> (\<exists>uri h db0. uri_of_env (ao_var o') = Inr uri
     \<and> ao_bcrypt o' ''admin'' = Some h \<and> ao_connect o' uri = Inr db0
     \<and> db = snd (pg_execute (ao_postgres o') (admin_statement h) db0))"

lemma connect_repo_eq:
  "connect_repo o' uri =
     (case ao_bcrypt o' ''admin'' of
        None \<Rightarrow> Inr (Inl ())
      | Some h \<Rightarrow>
          (case ao_connect o' uri of
             Inl _ \<Rightarrow> Inr (Inl ())
           | Inr db \<Rightarrow> Inr (Inr (snd (pg_execute (ao_postgres o') (admin_statement h) db)))))"
  by (simp add: connect_repo_def default_account_admin_eq with_default_user_eq split: option.split sum.split)

lemma auth_main_connected:
  "if \<exists>db. connected o' db
   then \<exists>db. connected o' db \<and> auth_main itm ith o' fs = (fst (serve_auth itm ith o' fs), Some db, snd (serve_auth itm ith o' fs))
   else (\<exists>e. auth_main itm ith o' fs = (Inl e, None, fs)) \<or> auth_main itm ith o' fs = (Inr AuthRefused, None, fs)"
proof (cases "ao_subscriber o' \<and> (\<exists>uri. uri_of_env (ao_var o') = Inr uri)")
  case False
  then have "\<not> (\<exists>db. connected o' db)" by (auto simp: connected_def)
  with False show ?thesis by (cases "uri_of_env (ao_var o')") (auto simp: auth_main_def)
next
  case True
  then obtain uri where uri: "ao_subscriber o'" "uri_of_env (ao_var o') = Inr uri" by blast
  then show ?thesis
    by (cases "ao_bcrypt o' ''admin''"; cases "ao_connect o' uri")
      (auto simp: auth_main_def connect_repo_eq connected_def split: prod.split)
qed

text \<open>Serving, with the keys that then stand in the files.\<close>

definition serves ::
    "(http_method list \<Rightarrow> http_method list) \<Rightarrow> (string list \<Rightarrow> string list) \<Rightarrow> ('db, 'fs) auth_outside \<Rightarrow> 'fs
     \<Rightarrow> cors \<Rightarrow> 'fs \<Rightarrow> bool" where
  "serves itm ith o' fs co fs' \<longleftrightarrow>
     (\<exists>h. app_host (ao_captures o') (ao_var o') = Inr h \<and> auth_cors itm ith (host_text h) = Inr co)
     \<and> ao_listen o' (auth_listen (ao_var o'))
     \<and> gen_ecdsa (ao_exists o') (ao_mkdir o') (ao_write o') (ao_private_pem o') (ao_public_pem o') None fs = Inr (Inr (), fs')"

lemma serve_auth_serves: "serve_auth itm ith o' fs = (Inr (AuthServing co), fs') \<longleftrightarrow> serves itm ith o' fs co fs'"
  by (cases "app_host (ao_captures o') (ao_var o')")
    (auto simp: serve_auth_def serves_def and_then_eq_Inr split: sum.splits prod.splits if_splits)

lemma gen_ecdsa_files:
  assumes "gen_ecdsa ex mkdir wr priv pub None fs = Inr (Inr (), fs')"
  obtains fs1 fs2 where "wr fs1 ''pki_auth/ec_priv_key.pem'' priv = Some fs2" "wr fs2 ''pki_auth/ec_pub_key.pem'' pub = Some fs'"
  using assms
  by (auto simp: gen_ecdsa_def and_then_def unwrap_ok_def pki_path_def pki_def ecds_priv_file_def ecds_pub_file_def Let_def
      split: sum.splits option.splits if_splits)

section \<open>Property\<close>

text \<open>
  C39. What starting the auth service does. It is connected to its database exactly when every variable for
  the address is set, a password can be hashed and the database answers; all it then does to it is to
  execute the insert of the default administrator, whether that succeeds or not. It serves exactly when,
  beyond that, the host of the service is well formed, the port is free and the keys could be written; then
  the key that tokens are checked with is the one just drawn, whatever key earlier tokens were signed for.
\<close>

theorem auth_start_exact:
  assumes "\<forall>fs p t fs'. ao_write o' fs p t = Some fs' \<longrightarrow> rd fs' p = Some t"
  shows "case auth_main itm ith o' fs of (r, db', fs') \<Rightarrow>
      (case db' of
         None \<Rightarrow> fs' = fs \<and> (\<forall>db. \<not> connected o' db)
       | Some db \<Rightarrow> connected o' db)
    \<and> (\<forall>co. r = Inr (AuthServing co) \<longleftrightarrow> db' \<noteq> None \<and> serves itm ith o' fs co fs')
    \<and> (\<forall>co. r = Inr (AuthServing co) \<longrightarrow> rd fs' ''pki_auth/ec_pub_key.pem'' = Some (ao_public_pem o'))"
proof -
  have key: "rd fs' ''pki_auth/ec_pub_key.pem'' = Some (ao_public_pem o')" if s: "serves itm ith o' fs co fs'" for co fs'
  proof -
    from s obtain fs2 where "ao_write o' fs2 ''pki_auth/ec_pub_key.pem'' (ao_public_pem o') = Some fs'"
      unfolding serves_def by (blast elim: gen_ecdsa_files)
    then show ?thesis using assms by blast
  qed
  show ?thesis
  proof (cases "\<exists>db. connected o' db")
    case False
    with auth_main_connected[of o' itm ith fs] show ?thesis by auto
  next
    case True
    obtain r fs' where serve: "serve_auth itm ith o' fs = (r, fs')" by fastforce
    with True auth_main_connected[of o' itm ith fs] obtain db where
      db: "connected o' db" "auth_main itm ith o' fs = (r, Some db, fs')" by auto
    have "r = Inr (AuthServing co) \<longleftrightarrow> serves itm ith o' fs co fs'" for co
      using serve_auth_serves[of itm ith o' fs co fs'] serve by auto
    with db key[of _ fs'] show ?thesis by auto
  qed
qed

definition sample_environ :: environ where
  "sample_environ = map_of [(''DB_HOST'', ''db''), (''DB_PORT'', ''5432''), (''DB_USERNAME'', ''u''),
     (''DB_PASSWD'', ''p''), (''DB_NAME'', ''auth''), (''APP_HOST'', ''http://a/'')]"

definition sample_auth_start :: "(statement list, string \<Rightarrow> string option) auth_outside" where
  "sample_auth_start = \<lparr>ao_subscriber = True, ao_var = sample_environ, ao_bcrypt = (\<lambda>s. Some (CHR ''#'' # s)),
     ao_connect = (\<lambda>u. if u = ''postgres://u:p@db:5432/auth'' then Inr [] else Inl (SqlxOther ''refused'')),
     ao_postgres = \<lparr>pg_fetch = (\<lambda>_ _. Inr []), pg_execute = (\<lambda>st db. (Inr 1, db @ [st])), pg_wheres = id, pg_groups = id\<rparr>,
     ao_log_info = True,
     ao_captures = (\<lambda>_. Some \<lparr>uc_proto = ''http'', uc_ip = None, uc_domain = Some ''a'', uc_port = None\<rparr>),
     ao_listen = (\<lambda>a. a = ''0.0.0.0:3000''), ao_exists = (\<lambda>_ _. True), ao_mkdir = (\<lambda>_ _. None),
     ao_write = map_write, ao_private_pem = ''priv'', ao_public_pem = ''pub''\<rparr>"

theorem auth_start_exact_witness:
  "\<exists>co fs'. auth_main (\<lambda>x. x) (\<lambda>x. x) sample_auth_start Map.empty = (Inr (AuthServing co), Some [admin_statement ''#admin''], fs')
     \<and> map_read fs' ''pki_auth/ec_pub_key.pem'' = Some ''pub''"
proof -
  have files: "\<forall>fs p t fs'. ao_write sample_auth_start fs p t = Some fs' \<longrightarrow> map_read fs' p = Some t"
    by (auto simp: sample_auth_start_def map_write_def map_read_def)
  have uri: "uri_of_env sample_environ = Inr ''postgres://u:p@db:5432/auth''"
    by (simp add: uri_of_env_def env_expect_def sample_environ_def database_uri_def)
  have db: "connected sample_auth_start [admin_statement ''#admin'']"
    using uri by (simp add: connected_def sample_auth_start_def)
  have unique: "connected sample_auth_start d \<Longrightarrow> d = [admin_statement ''#admin'']" for d
    using uri by (auto simp: connected_def sample_auth_start_def)
  have host: "app_host (ao_captures sample_auth_start) (ao_var sample_auth_start) = Inr (host_new_domain Http ''a'')"
    by (simp add: app_host_def sample_auth_start_def sample_environ_def host_from_url_def proto_of_str_def)
  have own: "host_text (host_new_domain Http ''a'') = ''http://a/''"
    by (simp add: host_text_def host_new_domain_def)
  have listen: "ao_listen sample_auth_start (auth_listen (ao_var sample_auth_start))"
    by (simp add: auth_listen_def sample_auth_start_def sample_environ_def)
  obtain fs' where "gen_ecdsa (ao_exists sample_auth_start) (ao_mkdir sample_auth_start) (ao_write sample_auth_start)
      (ao_private_pem sample_auth_start) (ao_public_pem sample_auth_start) None Map.empty = Inr (Inr (), fs')"
    by (simp add: sample_auth_start_def gen_ecdsa_def map_write_def Let_def)
  with host own listen have serves: "serves (\<lambda>x. x) (\<lambda>x. x) sample_auth_start Map.empty sample_cors fs'"
    using sample_cors_built by (simp add: serves_def)
  obtain r db' fs'' where m: "auth_main (\<lambda>x. x) (\<lambda>x. x) sample_auth_start Map.empty = (r, db', fs'')"
    by (metis prod_cases3)
  note exact = auth_start_exact[OF files, where itm = "\<lambda>x. x" and ith = "\<lambda>x. x" and fs = Map.empty, unfolded m prod.case]
  have "db' \<noteq> None" using conjunct1[OF exact] db by (cases db') simp_all
  then obtain d where d: "db' = Some d" by blast
  with conjunct1[OF exact] have "connected sample_auth_start d" by simp
  with d unique have d': "db' = Some [admin_statement ''#admin'']" by blast
  have "serve_auth (\<lambda>x. x) (\<lambda>x. x) sample_auth_start Map.empty = (Inr (AuthServing sample_cors), fs')"
    using serves by (simp only: serve_auth_serves)
  with auth_main_connected[of sample_auth_start "\<lambda>x. x" "\<lambda>x. x" Map.empty] db m
  have r: "r = Inr (AuthServing sample_cors)" by (metis Pair_inject fst_conv)
  have "map_read fs'' ''pki_auth/ec_pub_key.pem'' = Some (ao_public_pem sample_auth_start)"
    using conjunct2[OF conjunct2[OF exact]] r by blast
  moreover have "ao_public_pem sample_auth_start = ''pub''" by (simp add: sample_auth_start_def)
  moreover note r d'
  ultimately show ?thesis using m by auto
qed

end
