(* ===== verification/Fhs.thy ===== *)
theory Fhs
  imports Bucket_Map_Spec
begin

text \<open>
  The answer shape of the directory listing (directory/src/bucket/fhs.rs): a branch per directory,
  with its subdirectories and objects, or the names only. \<open>fhs_at\<close> reads such an answer back.
\<close>

datatype fhs =
    Branch "segment option" "fhs list option" "object list option"
  | Leaf segment

fun create_branch :: "segment option \<Rightarrow> key_entry \<Rightarrow> fhs" where
  "create_branch key (KeyEntry obs ks br) =
     Branch key (map_option (map (\<lambda>(k, v). create_branch (Some k) v)) ks) obs"

definition fhs_of_entry :: "key_entry \<Rightarrow> fhs" where
  "fhs_of_entry e = Branch None (map_option (\<lambda>ks. map (\<lambda>p. Leaf (fst p)) ks) (ke_keys e)) (ke_objects e)"

definition fhs_of_buckets :: "bucket list \<Rightarrow> fhs" where
  "fhs_of_buckets bs = Branch None (Some (map (\<lambda>b. Leaf (segment_of_bucket b)) bs)) None"

definition fhs_of_map :: "bucket_map \<Rightarrow> fhs" where
  "fhs_of_map m =
     Branch (Some (Segment ''/''))
       (Some (map (\<lambda>(k, v). create_branch (Some (segment_of_bucket k)) v) (bm_tree m))) None"

text \<open>Reading an answer: the part of it that describes the directory below some segments.\<close>

fun fhs_key :: "fhs \<Rightarrow> segment option" where
  "fhs_key (Branch k i obs) = k"
| "fhs_key (Leaf s) = Some s"

fun fhs_inner :: "fhs \<Rightarrow> fhs list option" where
  "fhs_inner (Branch k i obs) = i"
| "fhs_inner (Leaf s) = None"

fun fhs_objects :: "fhs \<Rightarrow> object list option" where
  "fhs_objects (Branch k i obs) = obs"
| "fhs_objects (Leaf s) = None"

fun fhs_at :: "fhs \<Rightarrow> segment list \<Rightarrow> fhs option" where
  "fhs_at f [] = Some f"
| "fhs_at f (s # ss) =
     (case Option.bind (fhs_inner f) (find (\<lambda>g. fhs_key g = Some s)) of
        None \<Rightarrow> None
      | Some g \<Rightarrow> fhs_at g ss)"

lemma create_branch_sel [simp]:
  "fhs_key (create_branch k e) = k" "fhs_objects (create_branch k e) = ke_objects e"
  "fhs_inner (create_branch k e) = map_option (map (\<lambda>p. create_branch (Some (fst p)) (snd p))) (ke_keys e)"
  by (cases e; simp add: case_prod_unfold)+

lemma find_branch:
  "find (\<lambda>g. fhs_key g = Some s) (map (\<lambda>p. create_branch (Some (fst p)) (snd p)) ks)
   = map_option (create_branch (Some s)) (bt_get ks s)"
  by (induction ks) (auto simp: bt_get_def)

lemma fhs_at_branch:
  "fhs_at (create_branch k e) ss =
     map_option (create_branch (if ss = [] then k else Some (last ss))) (descend e ss)"
proof (induction e ss arbitrary: k rule: descend.induct)
  case (2 e s ss)
  then show ?case
    by (cases "ke_keys e") (auto simp: find_branch split: option.splits)
qed simp

lemma find_bucket_branch:
  "find (\<lambda>g. fhs_key g = Some (segment_of_bucket b))
     (map (\<lambda>(k, v). create_branch (Some (segment_of_bucket k)) v) t)
   = map_option (create_branch (Some (segment_of_bucket b))) (bt_get t b)"
  by (induction t) (auto simp: bt_get_def segment_of_bucket_def bucket.expand)

text \<open>
  C11. The answer that shows the whole tree shows it faithfully: read at any address it gives that
  directory's objects exactly when the tree has them there, and nothing where the tree has nothing.
\<close>

theorem fhs_faithful:
  "map_option fhs_objects (fhs_at (fhs_of_map m) (segment_of_bucket b # ss))
   = map_option nd_objects (view m (b, ss))"
  by (cases "bt_get (bm_tree m) b")
    (auto simp: fhs_of_map_def find_bucket_branch fhs_at_branch view_bucket option.map_comp comp_def)

end
