(* ===== verification/Directory_Http.thy ===== *)
theory Directory_Http
  imports Proxy_Info Fhs
begin

text \<open>
  The HTTP side of the directory service (directory/src/handlers, directory/src/main.rs): the entry point
  that lists directories and connects observers, the layer that asks for a token, and the stack of main.

  The world of a request is the tree behind its lock. A handler that never returns is the error value
  \<open>Blocked\<close> of its layer, whose own error type has no values in the code (\<^verbatim>\<open>Infallible\<close>): layers pass
  errors on at once and nothing is done after them. What is outside is the record \<open>dir_env\<close>: the text of a
  listing, checking a token, and the websocket crate, whose handshake may depend on whether the response of
  the upgrade has been sent.
\<close>

section \<open>Errors of handlers\<close>

record dir_response_error =
  dr_detail :: "string option"
  dr_status :: nat

definition dir_response_error_new :: "string \<Rightarrow> nat \<Rightarrow> dir_response_error" where
  "dir_response_error_new d st = \<lparr>dr_detail = Some d, dr_status = st\<rparr>"

definition dir_response_error_status :: "nat \<Rightarrow> dir_response_error" where
  "dir_response_error_status st = \<lparr>dr_detail = None, dr_status = st\<rparr>"

definition response_of_dir_error :: "dir_response_error \<Rightarrow> string http_response" where
  "response_of_dir_error e = plain_response (opt_default [] (dr_detail e)) (dr_status e)"

text \<open>\<^verbatim>\<open>not_found\<close>; \<open>show_debug\<close> is how \<^verbatim>\<open>{:?}\<close> prints a path.\<close>

definition not_found :: "(string \<Rightarrow> string) \<Rightarrow> 'x http_request \<Rightarrow> dir_response_error" where
  "not_found show_debug req = dir_response_error_new (''Path '' @ show_debug (hq_path req) @ '' not found'') 404"

section \<open>The state and what is outside\<close>

datatype blocked = Blocked

record dir_exts = exts +
  de_state :: bool
  de_claims :: "int claim option"

type_synonym dir_request = "dir_exts http_request"

text \<open>\<open>ds_locked\<close>: a task that will not end holds the write lock of the tree.\<close>

record dir_state =
  ds_map :: bucket_map
  ds_locked :: bool
  ds_observers :: "nat list"

type_synonym dir_layer = "(dir_exts, dir_state, blocked, string) layer"

record dir_env =
  dv_json :: "fhs \<Rightarrow> string"
  dv_check :: "string \<Rightarrow> (jwt_handle_error + int claim) run"
  dv_is_upgrade :: "header_map \<Rightarrow> bool"
  dv_upgrade :: "header_map \<Rightarrow> string http_response option"
  dv_handshake :: "header_map \<Rightarrow> bool \<Rightarrow> bool option"

section \<open>The entry point\<close>

text \<open>
  \<^verbatim>\<open>BucketMap::subscriber\<close> under the write lock, before the response is sent. A handshake that does not
  complete keeps the lock; one that fails is only logged.
\<close>

definition subscribe_locked ::
    "dir_env \<Rightarrow> dir_request \<Rightarrow> bucket option \<Rightarrow> bkey option \<Rightarrow> dir_state \<Rightarrow> blocked option \<times> dir_state" where
  "subscribe_locked env req b k st =
     (if ds_locked st then (Some Blocked, st)
      else
        (case dv_handshake env (hq_headers req) False of
           None \<Rightarrow> (Some Blocked, st\<lparr>ds_locked := True\<rparr>)
         | Some True \<Rightarrow>
             (case subscriber (ds_map st) b k of
                Some broker \<Rightarrow> (None, st\<lparr>ds_observers := ds_observers st @ [broker]\<rparr>)
              | None \<Rightarrow> (None, st))
         | Some False \<Rightarrow> (None, st)))"

definition json_listing :: "dir_env \<Rightarrow> key_entry \<Rightarrow> string http_response" where
  "json_listing env e = \<lparr>hr_status = 200, hr_headers = [(''content-type'', ''application/json'')],
     hr_body = dv_json env (fhs_of_entry e)\<rparr>"

definition tree_path :: "string \<Rightarrow> string option" where
  "tree_path p = map_option (\<lambda>x. opt_default x (strip_prefix ''/'' x)) (strip_prefix ''/tree'' p)"

definition path_pair :: "string \<Rightarrow> bucket \<times> bkey" where
  "path_pair p = (case opt_default (p, ''.'') (split_once ''/'' p) of (b, k) \<Rightarrow> (Bucket b, Key k))"

definition entry_fn :: "dir_env \<Rightarrow> dir_layer" where
  "entry_fn env req st =
     (case tree_path (hq_path req) of
        None \<Rightarrow> Inr (Inr (plain_response [] 400), st)
      | Some p \<Rightarrow>
          if hq_method req \<noteq> GET then Inr (Inr (plain_response [] 405), st)
          else if \<not> de_state (hq_ext req) then Inl UnwrapNone
          else if p = [] then Inl TodoReached
          else
            (case path_pair p of (b, k) \<Rightarrow>
               if dv_is_upgrade env (hq_headers req)
               then and_then (unwrap_ok (dv_upgrade env (hq_headers req))) (\<lambda>res.
                      (case subscribe_locked env req (Some b) (Some k) st of
                         (Some blk, st') \<Rightarrow> Inr (Inl blk, st')
                       | (None, st') \<Rightarrow> Inr (Inr res, st')))
               else if ds_locked st then Inr (Inl Blocked, st)
               else and_then (unwrap (get_entry (ds_map st) b k)) (\<lambda>e. Inr (Inr (json_listing env e), st))))"

section \<open>The layer for tokens\<close>

datatype auth_future = Aunauthorized | UnsupportedMediaType | PassAuth "int claim"

definition auth_decide :: "dir_env \<Rightarrow> dir_request \<Rightarrow> auth_future run" where
  "auth_decide env req =
     (if (case header_get (hq_headers req) ''content-type'' of
            None \<Rightarrow> False
          | Some v \<Rightarrow> (case header_to_str v of None \<Rightarrow> False | Some x \<Rightarrow> x \<noteq> ''application/json''))
      then Inr UnsupportedMediaType
      else
        (case get_token jwt_both_search (hq_headers req) of
           None \<Rightarrow> Inr Aunauthorized
         | Some token \<Rightarrow>
             and_then (dv_check env token) (\<lambda>r.
               (case r of Inl err \<Rightarrow> Inr Aunauthorized | Inr claims \<Rightarrow> Inr (PassAuth claims)))))"

definition auth_call :: "dir_env \<Rightarrow> dir_layer \<Rightarrow> dir_layer" where
  "auth_call env inner req st =
     and_then (auth_decide env req) (\<lambda>f.
       (case f of
          PassAuth claims \<Rightarrow> inner (req\<lparr>hq_ext := (hq_ext req)\<lparr>de_claims := Some claims\<rparr>\<rparr>) st
        | Aunauthorized \<Rightarrow> Inr (Inr (plain_response [] 401), st)
        | UnsupportedMediaType \<Rightarrow> Inr (Inr (plain_response [] 415), st)))"

section \<open>The stack of main\<close>

definition dir_cors_builder :: "origin cors_builder run" where
  "dir_cors_builder =
     and_then (cors_first_origin ''http://localhost:8080'' cors_builder_default) (\<lambda>b.
       Inr (cors_allow_credentials True
         (cors_allow_header ''authorization'' (cors_allow_header ''cookie'' (cors_allow_header ''content-type''
           (cors_allow_method PATCH (cors_allow_method OPTIONS (cors_allow_method GET (cors_allow_method PUT b)))))))))"

definition dir_cors ::
    "(http_method list \<Rightarrow> http_method list) \<Rightarrow> (string list \<Rightarrow> string list) \<Rightarrow> cors run" where
  "dir_cors itm ith = and_then dir_cors_builder (\<lambda>b. and_then (cors_build itm ith b) cors_into_layer)"

definition dir_log :: "((dir_exts, dir_state) on_request, (dir_state, string) on_response) log" where
  "dir_log = log_into_layer (log_build (log_on_response (\<lambda>resp instant st. Inr st)
     (log_on_request (\<lambda>req st. Inr st) log_builder_default)))"

definition dir_stack :: "dir_env \<Rightarrow> (dir_state \<Rightarrow> nat) \<Rightarrow> cors \<Rightarrow> dir_layer stack" where
  "dir_stack env clock co =
     stack_layer (log_call clock dir_log)
       (stack_layer (cors_call [] co)
         (stack_state (\<lambda>k x. x\<lparr>de_state := k\<rparr>) True
           (stack_layer (auth_call env)
             (stack_entry_fn (entry_fn env) middleware_stack_default))))"

definition dir_serve ::
    "dir_env \<Rightarrow> (dir_state \<Rightarrow> nat) \<Rightarrow> cors \<Rightarrow> peer \<Rightarrow> dir_request \<Rightarrow> dir_state
     \<Rightarrow> ((blocked + string http_response) \<times> dir_state) run" where
  "dir_serve env clock co peer req st =
     stack_call (dir_stack env clock co) (req\<lparr>hq_ext := (hq_ext req)\<lparr>ex_peer := Some peer\<rparr>\<rparr>) st"

section \<open>The service as seen from below the stack\<close>

lemma dir_log_call: "log_call clock dir_log inner req st = inner req st"
  by (rule log_call_silent) (simp_all add: dir_log_def log_into_layer_def log_build_def
      log_on_request_def log_on_response_def log_builder_default_def)

definition with_exts :: "peer \<Rightarrow> dir_request \<Rightarrow> dir_request" where
  "with_exts peer req = req\<lparr>hq_ext := (hq_ext req)\<lparr>ex_peer := Some peer, de_state := True\<rparr>\<rparr>"

lemma with_exts_sel [simp]:
  "hq_method (with_exts peer req) = hq_method req" "hq_path (with_exts peer req) = hq_path req"
  "hq_headers (with_exts peer req) = hq_headers req" "de_state (hq_ext (with_exts peer req))"
  by (simp_all add: with_exts_def)

lemma dir_serve_below:
  obtains hs deco where "only_headers deco" "dir_serve env clock co peer req st =
     (if cors_preflight co req then Inr (Inr \<lparr>hr_status = 200, hr_headers = hs, hr_body = []\<rparr>, st)
      else and_then (auth_call env (entry_fn env) (with_exts peer req) st) (\<lambda>(r, w). Inr (map_sum id deco r, w)))"
proof -
  let ?req = "req\<lparr>hq_ext := (hq_ext req)\<lparr>ex_peer := Some peer\<rparr>\<rparr>"
  let ?inner = "state_call (\<lambda>k x. x\<lparr>de_state := k\<rparr>) True (auth_call env (entry_fn_call (entry_fn env)))"
  have "dir_serve env clock co peer req st = cors_call [] co ?inner ?req st"
    by (simp add: dir_serve_def stack_call_def dir_stack_def stack_layer_def stack_state_def stack_entry_fn_def
        dir_log_call)
  moreover have "?inner ?req st = auth_call env (entry_fn env) (with_exts peer req) st"
    by (simp add: state_call_def with_exts_def auth_call_def entry_fn_call_def)
  moreover have "cors_preflight co ?req = cors_preflight co req" by (simp add: cors_preflight_def)
  ultimately show thesis
    using that cors_call_below[of "[]" co ?inner ?req st] by auto
qed

section \<open>Who is answered, and with what\<close>

definition json_content :: "header_map \<Rightarrow> bool" where
  "json_content hs \<longleftrightarrow> (case Option.bind (header_get hs ''content-type'') header_to_str of
     None \<Rightarrow> True | Some x \<Rightarrow> x = ''application/json'')"

definition token_checks :: "dir_env \<Rightarrow> header_map \<Rightarrow> bool" where
  "token_checks env hs \<longleftrightarrow> (case get_token jwt_both_search hs of
     None \<Rightarrow> False
   | Some token \<Rightarrow> (case dv_check env token of Inr (Inr claims) \<Rightarrow> True | _ \<Rightarrow> False))"

lemma auth_decide_pass:
  "(\<exists>claims. auth_decide env req = Inr (PassAuth claims))
     \<longleftrightarrow> json_content (hq_headers req) \<and> token_checks env (hq_headers req)"
  by (auto simp: auth_decide_def json_content_def token_checks_def and_then_def
      split: option.splits sum.splits bind_splits if_splits)

lemma auth_call_pass:
  assumes "json_content (hq_headers req)" "token_checks env (hq_headers req)"
  obtains claims where "auth_call env inner req st = inner (req\<lparr>hq_ext := (hq_ext req)\<lparr>de_claims := Some claims\<rparr>\<rparr>) st"
proof -
  from assms auth_decide_pass obtain claims where "auth_decide env req = Inr (PassAuth claims)" by blast
  then show thesis using that by (simp add: auth_call_def)
qed

lemma auth_call_cases:
  assumes "auth_call env inner req st = Inr (r, st')"
  obtains (refused) code where "r = Inr (plain_response [] code)" "st' = st"
  | (passed) claims where "json_content (hq_headers req)" "token_checks env (hq_headers req)"
      "inner (req\<lparr>hq_ext := (hq_ext req)\<lparr>de_claims := Some claims\<rparr>\<rparr>) st = Inr (r, st')"
proof -
  obtain f where f: "auth_decide env req = Inr f" using assms by (auto simp: auth_call_def and_then_eq_Inr)
  show thesis
  proof (cases f)
    case (PassAuth claims)
    then show thesis using passed assms f auth_decide_pass[of env req] by (auto simp: auth_call_def)
  qed (use assms f refused in \<open>auto simp: auth_call_def\<close>)
qed

lemma entry_fn_answer:
  assumes "entry_fn env req st = Inr (Inr resp, st')" "hr_body resp \<noteq> []"
  obtains p where "tree_path (hq_path req) = Some p" "p \<noteq> []" "hq_method req = GET"
    "dv_is_upgrade env (hq_headers req) \<or>
     (\<exists>e. get_entry (ds_map st) (fst (path_pair p)) (snd (path_pair p)) = Some e \<and> resp = json_listing env e)"
  using assms by (auto simp: entry_fn_def plain_response_def and_then_eq_Inr split: option.split_asm if_split_asm prod.split_asm)

lemma entry_fn_map:
  "entry_fn env req st = Inr (r, st') \<Longrightarrow> ds_map st' = ds_map st"
  by (auto simp: entry_fn_def subscribe_locked_def and_then_eq_Inr
      split: option.split_asm if_split_asm prod.split_asm bool.split_asm)


lemma dir_serve_get:
  assumes "json_content (hq_headers req)" "token_checks env (hq_headers req)" "hq_method req = GET"
  obtains deco claims where "only_headers deco" "dir_serve env clock co peer req st =
     and_then (entry_fn env (req\<lparr>hq_ext := (hq_ext req)\<lparr>ex_peer := Some peer, de_state := True, de_claims := Some claims\<rparr>\<rparr>) st)
       (\<lambda>(r, w). Inr (map_sum id deco r, w))"
proof -
  obtain hs deco where deco: "only_headers deco" "dir_serve env clock co peer req st =
     (if cors_preflight co req then Inr (Inr \<lparr>hr_status = 200, hr_headers = hs, hr_body = []\<rparr>, st)
      else and_then (auth_call env (entry_fn env) (with_exts peer req) st) (\<lambda>(r, w). Inr (map_sum id deco r, w)))"
    by (rule dir_serve_below)
  obtain claims where "auth_call env (entry_fn env) (with_exts peer req) st
      = entry_fn env ((with_exts peer req)\<lparr>hq_ext := (hq_ext (with_exts peer req))\<lparr>de_claims := Some claims\<rparr>\<rparr>) st"
    by (rule auth_call_pass[of "with_exts peer req" env "entry_fn env" st]) (simp_all add: assms)
  then show thesis
    using that[of deco claims] deco assms(3) by (simp add: cors_preflight_def with_exts_def)
qed

text \<open>
  C30. What a caller with a token that checks gets from the listing: of a directory that is in the tree its
  listing, and a panic of the connection for every other directory and for the list of buckets.
\<close>

theorem listing_exact:
  assumes "json_content (hq_headers req)" "token_checks env (hq_headers req)" "hq_method req = GET"
    "tree_path (hq_path req) = Some p" "\<not> dv_is_upgrade env (hq_headers req)" "\<not> ds_locked st"
  shows "\<exists>deco. only_headers deco \<and> dir_serve env clock co peer req st =
    (if p = [] then Inl TodoReached
     else case lookup (ds_map st) (fst (path_pair p)) (key_segs (snd (path_pair p))) of
            None \<Rightarrow> Inl UnwrapNone
          | Some e \<Rightarrow> Inr (Inr (deco (json_listing env e)), st))"
proof -
  obtain deco claims where s: "only_headers deco" "dir_serve env clock co peer req st =
     and_then (entry_fn env (req\<lparr>hq_ext := (hq_ext req)\<lparr>ex_peer := Some peer, de_state := True, de_claims := Some claims\<rparr>\<rparr>) st)
       (\<lambda>(r, w). Inr (map_sum id deco r, w))"
    using dir_serve_get[OF assms(1-3)] .
  have "dir_serve env clock co peer req st =
    (if p = [] then Inl TodoReached
     else case lookup (ds_map st) (fst (path_pair p)) (key_segs (snd (path_pair p))) of
            None \<Rightarrow> Inl UnwrapNone
          | Some e \<Rightarrow> Inr (Inr (deco (json_listing env e)), st))"
    using assms(3-6)
    by (simp add: s(2) entry_fn_def get_entry_lookup case_prod_unfold split: option.split)
  with s(1) show ?thesis by blast
qed

section \<open>The service over time\<close>

text \<open>
  What happens to the state: requests, and the changes the manager applies under the write lock. A panic
  of a request ends its connection only. A blocked request keeps the lock while its client stays connected,
  so a client that leaves would be another kind of event.
\<close>

datatype dir_event = Serve peer dir_request | Apply change

fun dir_event_step ::
    "dir_env \<Rightarrow> (dir_state \<Rightarrow> nat) \<Rightarrow> cors \<Rightarrow> dir_event \<Rightarrow> dir_state \<Rightarrow> dir_state" where
  "dir_event_step env clock co (Serve peer req) st =
     (case dir_serve env clock co peer req st of Inl _ \<Rightarrow> st | Inr (_, st') \<Rightarrow> st')"
| "dir_event_step env clock co (Apply ch) st =
     (if ds_locked st then st
      else case apply_change ch (ds_map st) of Inl _ \<Rightarrow> st | Inr m \<Rightarrow> st\<lparr>ds_map := m\<rparr>)"

definition reaches_tree :: "dir_env \<Rightarrow> dir_request \<Rightarrow> bool" where
  "reaches_tree env req \<longleftrightarrow> json_content (hq_headers req) \<and> token_checks env (hq_headers req)
     \<and> hq_method req = GET
     \<and> (case tree_path (hq_path req) of None \<Rightarrow> False | Some p \<Rightarrow> p \<noteq> [])
     \<and> (\<not> dv_is_upgrade env (hq_headers req) \<or> (\<exists>res. dv_upgrade env (hq_headers req) = Some res))"

lemma locked_entry:
  "ds_locked st \<Longrightarrow> entry_fn env req st = Inr (r, st') \<Longrightarrow> st' = st"
  by (auto simp: entry_fn_def subscribe_locked_def and_then_eq_Inr
      split: option.split_asm if_split_asm prod.split_asm)

lemma locked_serve:
  assumes "ds_locked st" "dir_serve env clock co peer req st = Inr (r, st')"
  shows "st' = st"
proof -
  obtain hs deco where deco: "dir_serve env clock co peer req st =
     (if cors_preflight co req then Inr (Inr \<lparr>hr_status = 200, hr_headers = hs, hr_body = []\<rparr>, st)
      else and_then (auth_call env (entry_fn env) (with_exts peer req) st) (\<lambda>(r, w). Inr (map_sum id deco r, w)))"
    by (rule dir_serve_below)
  show ?thesis
  proof (cases "cors_preflight co req")
    case False
    then obtain q where "auth_call env (entry_fn env) (with_exts peer req) st = Inr (q, st')"
      using assms(2) deco by (auto simp: and_then_eq_Inr)
    then show ?thesis by (cases rule: auth_call_cases) (auto dest: locked_entry[OF assms(1)])
  qed (use assms deco in simp)
qed

lemma locked_event: "ds_locked st \<Longrightarrow> dir_event_step env clock co ev st = st"
  by (cases ev) (auto split: sum.split dest: locked_serve)

lemma locked_events: "ds_locked st \<Longrightarrow> fold (dir_event_step env clock co) evs st = st"
  by (induction evs) (simp_all add: locked_event)

lemma locked_reaches:
  assumes "ds_locked st" "reaches_tree env req"
  shows "dir_serve env clock co peer req st = Inr (Inl Blocked, st)"
proof -
  from assms(2) have r: "json_content (hq_headers req)" "token_checks env (hq_headers req)" "hq_method req = GET"
    by (simp_all add: reaches_tree_def)
  obtain deco claims where s: "dir_serve env clock co peer req st =
     and_then (entry_fn env (req\<lparr>hq_ext := (hq_ext req)\<lparr>ex_peer := Some peer, de_state := True, de_claims := Some claims\<rparr>\<rparr>) st)
       (\<lambda>(r, w). Inr (map_sum id deco r, w))"
    using dir_serve_get[OF r] .
  show ?thesis
    using assms r by (auto simp: s entry_fn_def subscribe_locked_def reaches_tree_def split: option.splits prod.splits)
qed


section \<open>A sample service\<close>

definition sample_tree :: dir_state where
  "sample_tree = \<lparr>ds_map = \<lparr>bm_path = [''srv''],
     bm_tree = [(Bucket ''b'', KeyEntry None (Some [(Segment ''k'', KeyEntry None None 2)]) 1)], bm_broker = 0, next_broker = 3\<rparr>, ds_locked = False, ds_observers = []\<rparr>"

definition sample_dir_env :: dir_env where
  "sample_dir_env = \<lparr>dv_json = (\<lambda>_. ''json''),
     dv_check = (\<lambda>t. if t = ''good'' then Inr (Inr \<lparr>cl_iss = None, cl_sub = 1, cl_exp = 0, cl_nbf = None,
       cl_iat = None, cl_jti = None, cl_aud = None\<rparr>) else Inl UnwrapErr),
     dv_is_upgrade = (\<lambda>hs. header_get hs ''upgrade'' \<noteq> None), dv_upgrade = (\<lambda>_. Some (plain_response [] 101)),
     dv_handshake = (\<lambda>_ sent. if sent then Some True else None)\<rparr>"

definition sample_dir_request :: "string \<Rightarrow> header_map \<Rightarrow> dir_request" where
  "sample_dir_request path hs = \<lparr>hq_method = GET, hq_path = path,
     hq_headers = (''authorization'', ''Bearer good'') # hs, hq_body = BodyBytes [],
     hq_ext = \<lparr>ex_peer = None, ex_proxy = None, de_state = False, de_claims = None\<rparr>\<rparr>"

definition sample_dir_cors :: cors where
  "sample_dir_cors = \<lparr>co_origin = [''http://localhost:8080''],
     co_methods = (''access-control-allow-methods'', ''PATCH, OPTIONS, GET, PUT''),
     co_headers = (''access-control-allow-headers'', ''authorization, cookie, content-type''),
     co_credential = Some (''access-control-allow-credentials'', ''true'')\<rparr>"

lemma sample_dir_cors_built: "dir_cors (\<lambda>x. x) (\<lambda>x. x) = Inr sample_dir_cors"
  by (simp add: dir_cors_def dir_cors_builder_def cors_first_origin_def origin_new_def
      cors_builder_default_def cors_allow_credentials_def cors_allow_header_def
      cors_allow_method_def cors_build_def cors_into_layer_def header_to_str_def header_value_of_str_def
      visible_def or_star_def sample_dir_cors_def)

lemma sample_dir_checks:
  "header_get hs ''cookie'' = None \<Longrightarrow> token_checks sample_dir_env (hq_headers (sample_dir_request path hs))"
  by (simp add: token_checks_def sample_dir_request_def get_token_def jwt_both_search_def jwt_cookie_search_def
      jwt_header_search_def header_to_str_def visible_def strip_prefix_def sample_dir_env_def)

lemma sample_dir_sel [simp]:
  "hq_method (sample_dir_request path hs) = GET" "hq_path (sample_dir_request path hs) = path"
  "hq_headers (sample_dir_request path hs) = (''authorization'', ''Bearer good'') # hs"
  by (simp_all add: sample_dir_request_def)

lemma sample_paths: "tree_path ''/tree/b/k'' = Some ''b/k''" "tree_path ''/tree/b'' = Some ''b''"
  "path_pair ''b/k'' = (Bucket ''b'', Key ''k'')" "path_pair ''b'' = (Bucket ''b'', Key ''.'')"
  by (simp_all add: tree_path_def strip_prefix_def path_pair_def)

lemma sample_listing: "get_entry (ds_map sample_tree) (Bucket ''b'') (Key ''k'') = Some (KeyEntry None None 2)"
  by (simp add: sample_tree_def get_entry_def is_root_def key_iter_def bt_get_def)

theorem listing_exact_witness:
  "\<exists>deco. only_headers deco \<and> dir_serve sample_dir_env (\<lambda>_. 0) sample_dir_cors (Peer None) (sample_dir_request ''/tree/b/k'' []) sample_tree
    = Inr (Inr (deco (json_listing sample_dir_env (KeyEntry None None 2))), sample_tree)"
proof -
  have "json_content (hq_headers (sample_dir_request ''/tree/b/k'' []))" by (simp add: json_content_def)
  from listing_exact[OF this sample_dir_checks, of "''b/k''" sample_tree "\<lambda>_. 0" sample_dir_cors "Peer None"]
  show ?thesis
    using sample_listing by (simp add: sample_paths get_entry_lookup) (simp add: sample_dir_env_def sample_tree_def)
qed


lemma sample_dir_served:
  obtains deco where "only_headers deco" "dir_serve sample_dir_env (\<lambda>_. 0) sample_dir_cors (Peer None) (sample_dir_request ''/tree/b/k'' []) sample_tree
    = Inr (Inr (deco (json_listing sample_dir_env (KeyEntry None None 2))), sample_tree)"
proof -
  have "json_content (hq_headers (sample_dir_request ''/tree/b/k'' []))" by (simp add: json_content_def)
  from dir_serve_get[OF this sample_dir_checks, of "\<lambda>_. 0" sample_dir_cors "Peer None" sample_tree]
  obtain deco claims where s: "only_headers deco" "dir_serve sample_dir_env (\<lambda>_. 0) sample_dir_cors (Peer None) (sample_dir_request ''/tree/b/k'' []) sample_tree =
     and_then (entry_fn sample_dir_env ((sample_dir_request ''/tree/b/k'' [])\<lparr>hq_ext :=
       (hq_ext (sample_dir_request ''/tree/b/k'' []))\<lparr>ex_peer := Some (Peer None), de_state := True, de_claims := Some claims\<rparr>\<rparr>) sample_tree)
       (\<lambda>(r, w). Inr (map_sum id deco r, w))" by auto
  have "\<not> dv_is_upgrade sample_dir_env [(''authorization'', ''Bearer good'')]" "\<not> ds_locked sample_tree"
    by (simp_all add: sample_dir_env_def sample_tree_def)
  then show thesis
    using that[OF s(1)] s(2) sample_listing by (simp add: entry_fn_def sample_paths)
qed


end
