(* ===== verification/Auth_Grpc.thy ===== *)
theory Auth_Grpc
  imports Auth_Repository
begin

text \<open>
  The gRPC side of the auth service (auth/src/grpc_v1/user_control.rs): what the other services ask about
  users and their buckets. Each answer is a function of the database, which none of them changes.
\<close>

definition uuid_from_slice :: "string \<Rightarrow> uuid option" where
  "uuid_from_slice bytes = (if length bytes = 16 then Some bytes else None)"

definition grpc_user_by_id ::
    "'db postgres \<Rightarrow> (string \<Rightarrow> json list option) \<Rightarrow> string \<Rightarrow> 'db \<Rightarrow> user_reply run" where
  "grpc_user_by_id pg parse uid db =
     and_then (unwrap_ok (uuid_from_slice uid)) (\<lambda>u.
     and_then
       (repo_get pg user_reply_query (user_reply_of_row parse)
         (query_group_by ''user_id'' (query_wh ''user_id'' (TUuid u) query_builder)) db) (\<lambda>r.
       (case r of Inl e \<Rightarrow> Inl UnwrapErr | Inr reply \<Rightarrow> Inr reply)))"

text \<open>Any row is read as allowed, \<^verbatim>\<open>From<PgRow> for AllowedBucketReply\<close>.\<close>

definition allowed_of_row :: "row \<Rightarrow> bool run" where
  "allowed_of_row r = Inr True"

definition bucket_is_allowed :: "'db postgres \<Rightarrow> string \<Rightarrow> string \<Rightarrow> int \<Rightarrow> 'db \<Rightarrow> bool run" where
  "bucket_is_allowed pg uid name ps db =
     and_then (unwrap_ok (uuid_from_slice uid)) (\<lambda>u.
     and_then (case permissions_of_i32 ps of Inl _ \<Rightarrow> Inl UnwrapErr | Inr p \<Rightarrow> Inr p) (\<lambda>p.
     and_then
       (repo_get pg allowed_bucket_query allowed_of_row
         (query_wh_vec_any ''permissions'' [p] (query_wh ''user_id'' (TUuid u) (query_wh ''name'' (TString name) query_builder)))
         db) (\<lambda>r.
       Inr (case r of Inl e \<Rightarrow> False | Inr a \<Rightarrow> a))))"

definition bucket_reply_of :: "bucket_user list \<Rightarrow> string list" where
  "bucket_reply_of bs = map bu_bucket bs"

definition grpc_get_bucket :: "'db postgres \<Rightarrow> string option \<Rightarrow> 'db \<Rightarrow> string list run" where
  "grpc_get_bucket pg name db =
     (let q = (case name of None \<Rightarrow> query_builder | Some n \<Rightarrow> query_wh ''name'' (TString n) query_builder)
      in and_then (repo_gets pg (table_query bucket_user_table) bucket_user_of_row q db) (\<lambda>r.
           Inr (bucket_reply_of (case r of Inl e \<Rightarrow> [] | Inr bs \<Rightarrow> bs))))"

section \<open>Properties\<close>

text \<open>The permission the service looks for when it is asked for one.\<close>

fun understood_as :: "proto_permissions \<Rightarrow> permissions option" where
  "understood_as ProtoPut = None"
| "understood_as ProtoGet = Some Put"
| "understood_as ProtoDelete = Some Get"
| "understood_as ProtoRead = Some Delete"

text \<open>
  C24. Asked whether a user may do something with a bucket, the service panics for the permission to put;
  for each other permission it answers whether there is a row for that user, that bucket and the
  permission numbered one below, never the one asked for.
\<close>

theorem bucket_is_allowed_exact:
  assumes "length uid = 16"
  shows "bucket_is_allowed pg uid name (proto_number p) db =
      (case understood_as p of
         None \<Rightarrow> Inl UnwrapErr
       | Some q \<Rightarrow> Inr (\<exists>r rs. pg_fetch pg (query_build (pg_wheres pg) (pg_groups pg) ''SELECT * FROM users_buckets''
           \<lparr>qo_wh = Some [(''name'', TString name), (''user_id'', TUuid uid), (''permissions'', TVecAnyPermission [q])],
            qo_query = [], qo_group_by = []\<rparr>) db = Inr (r # rs)))
    \<and> understood_as p \<noteq> Some (permissions_of_proto p)"
  using assms
  by (cases p)
    (auto simp: bucket_is_allowed_def uuid_from_slice_def permissions_of_i32_def repo_get_def fetch_one_def
      allowed_bucket_query_def query_wh_vec_any_def query_wh_def query_builder_def allowed_of_row_def
      split: sum.split list.split)

definition no_rows :: "unit postgres" where
  "no_rows = \<lparr>pg_fetch = (\<lambda>st db. Inr []), pg_execute = (\<lambda>st db. (Inr 0, db)), pg_wheres = (\<lambda>xs. xs), pg_groups = (\<lambda>xs. xs)\<rparr>"

theorem bucket_is_allowed_exact_witness:
  "bucket_is_allowed no_rows ''aaaaaaaaaaaaaaaa'' ''films'' 0 () = Inl UnwrapErr
   \<and> bucket_is_allowed no_rows ''aaaaaaaaaaaaaaaa'' ''films'' 1 () = Inr False"
  using bucket_is_allowed_exact[of "''aaaaaaaaaaaaaaaa''" no_rows "''films''" ProtoPut "()"]
    bucket_is_allowed_exact[of "''aaaaaaaaaaaaaaaa''" no_rows "''films''" ProtoGet "()"]
  by (simp add: no_rows_def)

text \<open>Without a user the query by id panics: an aggregate over no row, or an error, is unwrapped.\<close>

lemma user_by_id_panics:
  "length uid = 16 \<Longrightarrow>
   fetch_one pg (query_build (pg_wheres pg) (pg_groups pg) user_reply_query
     (query_group_by ''user_id'' (query_wh ''user_id'' (TUuid uid) query_builder))) db = Inl e \<Longrightarrow>
   grpc_user_by_id pg parse uid db = Inl UnwrapErr"
  by (simp add: grpc_user_by_id_def uuid_from_slice_def repo_get_def)

end
