(* ===== verification/Directory_Grpc.thy ===== *)
theory Directory_Grpc
  imports Bucket_Map_Spec Auth_Grpc
begin

text \<open>
  The gRPC sides of the directory service: the server other services ask for files
  (directory/src/grpc_v1_server/mod.rs) and the client with which it asks the auth service
  (directory/src/grpc_v1/mod.rs, directory/src/models/mod.rs).

  The generated code is an argument. A message is the record its proto file has, a call of the client a
  function from the request to an error or a reply. \<open>create_new\<close> makes a file that does not exist yet, or
  gives the text of its error.
\<close>

section \<open>The server\<close>

record file_name_req =
  fq_bucket :: string
  fq_key :: string
  fq_name :: string

datatype status = NotFound string | Cancelled string

record bucket_grpc_srv =
  bg_map :: bucket_map
  bg_path :: string

definition bucket_grpc_srv_new :: "bucket_map \<Rightarrow> string \<Rightarrow> bucket_grpc_srv" where
  "bucket_grpc_srv_new m root = \<lparr>bg_map = m, bg_path = root\<rparr>"

definition bucket_new_unchecked :: "string \<Rightarrow> bucket" where
  "bucket_new_unchecked name = Bucket name"

definition key_new :: "string \<Rightarrow> bkey" where
  "key_new inner = Key inner"

definition bucket_display :: "bucket \<Rightarrow> string" where
  "bucket_display b = bucket_name b"

definition grpc_file_name :: "bucket_grpc_srv \<Rightarrow> file_name_req \<Rightarrow> status + string" where
  "grpc_file_name srv req =
     (let b = bucket_new_unchecked (fq_bucket req); k = key_new (fq_key req)
      in case map_option file_name (get_object (bg_map srv) b k (fq_name req)) of
           Some f \<Rightarrow> Inr f
         | None \<Rightarrow> Inl (NotFound (bucket_display b @ ''/'' @ key_name k @ ''/'' @ fq_name req @ '' not found'')))"

definition create_object_path :: "bucket_grpc_srv \<Rightarrow> file_name_req \<Rightarrow> string" where
  "create_object_path srv req = path_push (path_push (path_push (bg_path srv) (fq_bucket req)) (fq_key req)) (fq_name req)"

definition grpc_create_object ::
    "('fs \<Rightarrow> string \<Rightarrow> string + 'fs) \<Rightarrow> bucket_grpc_srv \<Rightarrow> file_name_req \<Rightarrow> 'fs
     \<Rightarrow> ((status + string) \<times> 'fs) run" where
  "grpc_create_object create_new srv req fs =
     (let path = create_object_path srv req
      in case create_new fs path of
           Inl er \<Rightarrow> Inr (Inl (Cancelled er), fs)
         | Inr fs' \<Rightarrow> and_then (unwrap (os_to_str path)) (\<lambda>p. Inr (Inr p, fs')))"

section \<open>The client\<close>

record allowed_bucket_req =
  aq_id :: string
  aq_name :: string
  aq_permissions :: int

record 'call info_client =
  ic_get_bucket :: "'call \<Rightarrow> string option \<Rightarrow> string + string list"
  ic_bucket_is_allowed :: "'call \<Rightarrow> allowed_bucket_req \<Rightarrow> string + bool"
  ic_user_by_id :: "'call \<Rightarrow> string \<Rightarrow> string + user_reply"

definition ok :: "'e + 'a \<Rightarrow> 'a option" where
  "ok r = (case r of Inl e \<Rightarrow> None | Inr x \<Rightarrow> Some x)"

definition client_get_buckets :: "'call info_client \<Rightarrow> 'call \<Rightarrow> string list option" where
  "client_get_buckets cl c = ok (ic_get_bucket cl c None)"

definition client_allowed :: "'call info_client \<Rightarrow> 'call \<Rightarrow> uuid \<Rightarrow> string \<Rightarrow> proto_permissions \<Rightarrow> bool" where
  "client_allowed cl c i name p =
     (case ic_bucket_is_allowed cl c \<lparr>aq_id = i, aq_name = name, aq_permissions = proto_number p\<rparr> of
        Inl e \<Rightarrow> False
      | Inr a \<Rightarrow> a)"

definition client_buckets_user :: "'call info_client \<Rightarrow> 'call \<Rightarrow> uuid \<Rightarrow> user_reply option" where
  "client_buckets_user cl c i = ok (ic_user_by_id cl c i)"

text \<open>The names of permissions in this service.\<close>

datatype permissions_user = UserPut | UserGet | UserRead | UserDelete

fun permissions_user_of :: "proto_permissions \<Rightarrow> permissions_user" where
  "permissions_user_of ProtoPut = UserPut"
| "permissions_user_of ProtoGet = UserGet"
| "permissions_user_of ProtoDelete = UserDelete"
| "permissions_user_of ProtoRead = UserRead"

fun permissions_user_display :: "permissions_user \<Rightarrow> string" where
  "permissions_user_display UserPut = ''Put''"
| "permissions_user_display UserGet = ''Get''"
| "permissions_user_display UserRead = ''Read''"
| "permissions_user_display UserDelete = ''Delete''"

section \<open>What the server answers\<close>

lemma get_object_name: "get_object m b k name = Some ob \<Longrightarrow> file_name ob = name"
  by (auto simp: get_object_def find_Some_iff split: bind_splits)

text \<open>A found file is answered with the name that was asked for.\<close>

lemma grpc_file_name_iff:
  "grpc_file_name srv req = Inr f \<longleftrightarrow>
   f = fq_name req \<and> get_object (bg_map srv) (Bucket (fq_bucket req)) (Key (fq_key req)) (fq_name req) \<noteq> None"
  by (auto simp: grpc_file_name_def bucket_new_unchecked_def key_new_def Let_def split: option.splits
      dest: get_object_name)

lemma path_push_relative:
  "p \<noteq> [] \<Longrightarrow> last p \<noteq> CHR ''/'' \<Longrightarrow> \<not> prefix ''/'' n \<Longrightarrow> path_push p n = p @ ''/'' @ n"
  by (auto simp: path_push_def suffix_def)

lemma path_push_absolute: "prefix ''/'' n \<Longrightarrow> path_push p n = n"
  by (simp add: path_push_def)

definition plain_component :: "string \<Rightarrow> bool" where
  "plain_component c \<longleftrightarrow> c \<noteq> [] \<and> hd c \<noteq> CHR ''/'' \<and> last c \<noteq> CHR ''/''"

lemma plain_component_prefix: "plain_component c \<Longrightarrow> \<not> prefix ''/'' c"
  by (cases c) (auto simp: plain_component_def)

text \<open>
  Where a file is created: below the root for components without slashes at their ends, but nothing looks
  for dots, and an absolute name is created where it says.
\<close>

lemma create_object_path_plain:
  assumes "bg_path srv \<noteq> []" "last (bg_path srv) \<noteq> CHR ''/''"
    and "plain_component (fq_bucket req)" "plain_component (fq_key req)" "plain_component (fq_name req)"
  shows "create_object_path srv req = bg_path srv @ ''/'' @ fq_bucket req @ ''/'' @ fq_key req @ ''/'' @ fq_name req"
  using assms plain_component_prefix
  by (simp add: create_object_path_def path_push_relative plain_component_def last_append)

lemma create_object_absolute:
  assumes "prefix ''/'' (fq_name req)" "create_new fs (fq_name req) = Inr fs'" "utf8_valid (fq_name req)"
  shows "grpc_create_object create_new srv req fs = Inr (Inr (fq_name req), fs')"
  using assms by (simp add: grpc_create_object_def create_object_path_def path_push_absolute Let_def)

lemma create_object_dots:
  "create_object_path (bucket_grpc_srv_new m ''/srv'') \<lparr>fq_bucket = ''..'', fq_key = ''..'', fq_name = ''x''\<rparr> = ''/srv/../../x''"
  by (simp add: create_object_path_def bucket_grpc_srv_new_def path_push_def suffix_def)

section \<open>Asking the auth service\<close>

text \<open>
  The client connected to the auth service: a panic of the server is an error of the call. It is told
  what \<open>bucket_is_allowed\<close> answers, so never for the permission it asks for.
\<close>

definition auth_client :: "'db postgres \<Rightarrow> (string \<Rightarrow> json list option) \<Rightarrow> 'db info_client" where
  "auth_client pg parse = \<lparr>
     ic_get_bucket = (\<lambda>db name. case grpc_get_bucket pg name db of Inl p \<Rightarrow> Inl [] | Inr bs \<Rightarrow> Inr bs),
     ic_bucket_is_allowed = (\<lambda>db req.
       case bucket_is_allowed pg (aq_id req) (aq_name req) (aq_permissions req) db of Inl p \<Rightarrow> Inl [] | Inr a \<Rightarrow> Inr a),
     ic_user_by_id = (\<lambda>db i. case grpc_user_by_id pg parse i db of Inl p \<Rightarrow> Inl [] | Inr u \<Rightarrow> Inr u)\<rparr>"

lemma client_never_puts: "length i = 16 \<Longrightarrow> \<not> client_allowed (auth_client pg parse) db i name ProtoPut"
  by (simp add: client_allowed_def auth_client_def bucket_is_allowed_def uuid_from_slice_def permissions_of_i32_def
      split: sum.splits)

end
