(* ===== verification/Actor.thy ===== *)
theory Actor
  imports Prelude
begin

text \<open>
  Actors (directory/src/actor): a task that serves a mailbox, and the references others talk to it through.
  Messages travel in envelopes, with somebody to reply to or without. A reference holds the sending half of
  the mailbox; one with a shutdown shares with its copies a cell that holds the sender of the signal until it
  is used.
\<close>

section \<open>Mailboxes\<close>

text \<open>
  Sending into a channel: \<open>None\<close> while the sender has to wait for room, and the message is dropped when the
  receiver is gone. Without a bound nothing waits.
\<close>

definition channel_send :: "nat option \<Rightarrow> bool \<Rightarrow> 'm \<Rightarrow> 'm list \<Rightarrow> 'm list option" where
  "channel_send bnd alive m q =
     (if \<not> alive then Some q
      else case bnd of
        None \<Rightarrow> Some (q @ [m])
      | Some n \<Rightarrow> if length q < n then Some (q @ [m]) else None)"

definition channel_try_send :: "nat option \<Rightarrow> bool \<Rightarrow> 'm \<Rightarrow> 'm list \<Rightarrow> 'm list" where
  "channel_try_send bnd alive m q = opt_default q (channel_send bnd alive m q)"

record ('m, 'r) envelope =
  env_message :: 'm
  env_reply_to :: "'r option"

definition envelope_tell :: "'m \<Rightarrow> ('m, 'r) envelope" where
  "envelope_tell m = \<lparr>env_message = m, env_reply_to = None\<rparr>"

definition envelope_ask :: "'m \<Rightarrow> 'r \<Rightarrow> ('m, 'r) envelope" where
  "envelope_ask m sender = \<lparr>env_message = m, env_reply_to = Some sender\<rparr>"

definition actor_tell :: "nat option \<Rightarrow> bool \<Rightarrow> 'm \<Rightarrow> ('m, 'r) envelope list \<Rightarrow> ('m, 'r) envelope list option" where
  "actor_tell bnd alive m q = channel_send bnd alive (envelope_tell m) q"

definition actor_try_tell :: "nat option \<Rightarrow> bool \<Rightarrow> 'm \<Rightarrow> ('m, 'r) envelope list \<Rightarrow> ('m, 'r) envelope list" where
  "actor_try_tell bnd alive m q = channel_try_send bnd alive (envelope_tell m) q"

definition actor_ask :: "nat option \<Rightarrow> bool \<Rightarrow> 'm \<Rightarrow> 'r \<Rightarrow> ('m, 'r) envelope list \<Rightarrow> ('m, 'r) envelope list option" where
  "actor_ask bnd alive m sender q = channel_send bnd alive (envelope_ask m sender) q"

section \<open>References\<close>

record 's actor_ref =
  rf_sender :: 's

definition actor_ref_new :: "'s \<Rightarrow> 's actor_ref" where
  "actor_ref_new sender = \<lparr>rf_sender = sender\<rparr>"

definition actor_ref_clone :: "'s actor_ref \<Rightarrow> 's actor_ref" where
  "actor_ref_clone r = \<lparr>rf_sender = rf_sender r\<rparr>"

record 's actor_context =
  cx_self_ref :: "'s actor_ref"

definition context_new :: "'s actor_ref \<Rightarrow> 's actor_context" where
  "context_new r = \<lparr>cx_self_ref = r\<rparr>"

text \<open>
  The cell behind the copies of a reference: whether the sender is still in it, and whether the signal has
  gone out to a receiver that was there.
\<close>

record shutdown_cell =
  sc_sender :: bool
  sc_signal :: bool

record 's actor_ref_with_shutdown =
  rs_actor_ref :: "'s actor_ref"
  rs_shutdown :: shutdown_cell

definition shutdown_cell_new :: shutdown_cell where
  "shutdown_cell_new = \<lparr>sc_sender = True, sc_signal = False\<rparr>"

definition actor_ref_with_shutdown_new :: "'s actor_ref \<Rightarrow> 's actor_ref_with_shutdown" where
  "actor_ref_with_shutdown_new r = \<lparr>rs_actor_ref = r, rs_shutdown = shutdown_cell_new\<rparr>"

definition actor_ref_with_shutdown_clone :: "'s actor_ref_with_shutdown \<Rightarrow> 's actor_ref_with_shutdown" where
  "actor_ref_with_shutdown_clone r =
     \<lparr>rs_actor_ref = actor_ref_clone (rs_actor_ref r), rs_shutdown = rs_shutdown r\<rparr>"

definition shutdown :: "bool \<Rightarrow> shutdown_cell \<Rightarrow> shutdown_cell" where
  "shutdown alive c = (if sc_sender c then \<lparr>sc_sender = False, sc_signal = alive\<rparr> else c)"

text \<open>The first shutdown decides: further ones, through whichever copy, change nothing.\<close>

lemma shutdown_once: "shutdown alive' (shutdown alive c) = shutdown alive c"
  by (simp add: shutdown_def)

lemma actor_ref_clone_id [simp]: "actor_ref_clone r = r" "actor_ref_with_shutdown_clone w = w"
  by (simp_all add: actor_ref_clone_def actor_ref_with_shutdown_clone_def)

end
