(* ===== verification/Websocket.thy ===== *)
theory Websocket
  imports Actor
begin

text \<open>
  Observers of directories (directory/src/manager/websocket), which talk through the mailboxes of Actor: a
  broker per directory that passes every message on to the handlers of the connected clients, and the
  handlers, which subscribe, send to their client, and unsubscribe when the client is gone. Tasks interleave
  at their waits, so the system is a step relation; \<open>wb_log\<close>, \<open>hn_sent\<close> and \<open>hn_start\<close> record what was taken
  from the mailbox, sent to the client, and where in the log the handler was subscribed, and nothing depends
  on them.
\<close>

section \<open>Brokers and handlers\<close>

definition mailbox :: nat where
  "mailbox = 32"

text \<open>Handlers are numbered in the order they start; a reply goes to the handler that asked.\<close>

datatype broker_message = Subscriber nat | Ubsubscriber nat | Message string

datatype handler_phase = Starting | AwaitReply | Running nat | Leaving nat | Gone

record handler =
  hn_queue :: "(string, unit) envelope list"
  hn_phase :: handler_phase
  hn_shutdown :: shutdown_cell
  hn_sent :: "string list"
  hn_start :: nat

datatype broker_phase = BrokerIdle | BrokerSending string "nat list"

record websockets =
  wb_queue :: "(broker_message, nat) envelope list"
  wb_phase :: broker_phase
  wb_observers :: "(nat \<times> nat) list"
  wb_next :: nat
  ws_handlers :: "handler list"
  wb_log :: "string list"

definition handler_new :: handler where
  "handler_new = \<lparr>hn_queue = [], hn_phase = Starting, hn_shutdown = shutdown_cell_new, hn_sent = [], hn_start = 0\<rparr>"

definition broker_start :: websockets where
  "broker_start = \<lparr>wb_queue = [], wb_phase = BrokerIdle, wb_observers = [], wb_next = 0, ws_handlers = [], wb_log = []\<rparr>"

definition on_handler :: "nat \<Rightarrow> (handler \<Rightarrow> handler) \<Rightarrow> websockets \<Rightarrow> websockets" where
  "on_handler h f s = s\<lparr>ws_handlers := (ws_handlers s)[h := f (ws_handlers s ! h)]\<rparr>"

text \<open>
  What the broker does with a message. Identifiers are drawn at random, never twice the same: they are
  counted here. A subscriber that does not ask for a reply is not taken. \<open>order\<close> is the order in which the
  table of observers is iterated.
\<close>

definition broker_reply :: "nat \<Rightarrow> nat \<Rightarrow> websockets \<Rightarrow> websockets" where
  "broker_reply h u s =
     on_handler h (\<lambda>x. if hn_phase x = AwaitReply then x\<lparr>hn_phase := Running u, hn_start := length (wb_log s)\<rparr> else x) s"

definition broker_handle :: "nat list \<Rightarrow> (broker_message, nat) envelope \<Rightarrow> websockets \<Rightarrow> websockets" where
  "broker_handle order e s =
     (case env_message e of
        Ubsubscriber u \<Rightarrow> s\<lparr>wb_observers := filter (\<lambda>p. fst p \<noteq> u) (wb_observers s)\<rparr>
      | Subscriber h \<Rightarrow>
          (case env_reply_to e of
             Some sender \<Rightarrow>
               (broker_reply sender (wb_next s) s)
                 \<lparr>wb_observers := (wb_next s, h) # wb_observers s, wb_next := Suc (wb_next s)\<rparr>
           | None \<Rightarrow> s\<lparr>wb_next := Suc (wb_next s)\<rparr>)
      | Message m \<Rightarrow> s\<lparr>wb_phase := BrokerSending m order, wb_log := wb_log s @ [m]\<rparr>)"

text \<open>\<^verbatim>\<open>UserObserver::update\<close> is a \<^verbatim>\<open>tell\<close> to the handler, whose mailbox lives until it is gone.\<close>

definition observer_update :: "string \<Rightarrow> handler \<Rightarrow> handler option" where
  "observer_update m x =
     map_option (\<lambda>q. x\<lparr>hn_queue := q\<rparr>) (actor_tell (Some mailbox) (hn_phase x \<noteq> Gone) m (hn_queue x))"

text \<open>The handler's loop: sending to the client may fail, which ends the loop like a shutdown does.\<close>

definition handler_send :: "bool \<Rightarrow> handler \<Rightarrow> handler" where
  "handler_send ok x =
     (case (hn_phase x, hn_queue x) of
        (Running u, e # q) \<Rightarrow>
          if ok then x\<lparr>hn_queue := q, hn_sent := hn_sent x @ [env_message e]\<rparr>
          else x\<lparr>hn_queue := q, hn_phase := Leaving u\<rparr>
      | _ \<Rightarrow> x)"

definition handler_close :: "handler \<Rightarrow> handler" where
  "handler_close x = (case hn_phase x of Running u \<Rightarrow> x\<lparr>hn_phase := Leaving u\<rparr> | _ \<Rightarrow> x)"

text \<open>
  The task that reads what a client says: it logs messages and errors, and shuts the handler down at the end
  of the stream, whatever was in it. \<open>alive\<close> says whether the handler is there to hear it.
\<close>

datatype peer_entry = PeerSaid string | PeerError string

fun peer_listen :: "bool \<Rightarrow> shutdown_cell \<Rightarrow> (string + string) list \<Rightarrow> peer_entry list \<times> shutdown_cell" where
  "peer_listen alive c [] = ([], shutdown alive c)"
| "peer_listen alive c (Inr msg # rest) = apfst (Cons (PeerSaid msg)) (peer_listen alive c rest)"
| "peer_listen alive c (Inl er # rest) = apfst (Cons (PeerError er)) (peer_listen alive c rest)"

lemma peer_listen_exact: "peer_listen alive c xs = (map (case_sum PeerError PeerSaid) xs, shutdown alive c)"
  by (induction alive c xs rule: peer_listen.induct) simp_all

inductive ws_step :: "websockets \<Rightarrow> websockets \<Rightarrow> bool" where
  connect: "ws_step s (s\<lparr>ws_handlers := ws_handlers s @ [handler_new]\<rparr>)"
| publish: "actor_tell (Some mailbox) True (Message m) (wb_queue s) = Some q \<Longrightarrow> ws_step s (s\<lparr>wb_queue := q\<rparr>)"
| ask: "h < length (ws_handlers s) \<Longrightarrow> hn_phase (ws_handlers s ! h) = Starting
    \<Longrightarrow> actor_ask (Some mailbox) True (Subscriber h) h (wb_queue s) = Some q
    \<Longrightarrow> ws_step s (on_handler h (\<lambda>x. x\<lparr>hn_phase := AwaitReply\<rparr>) (s\<lparr>wb_queue := q\<rparr>))"
| broker_take: "wb_phase s = BrokerIdle \<Longrightarrow> wb_queue s = e # q \<Longrightarrow> mset order = mset (map snd (wb_observers s))
    \<Longrightarrow> ws_step s (broker_handle order e (s\<lparr>wb_queue := q\<rparr>))"
| broker_send: "wb_phase s = BrokerSending m (h # hs) \<Longrightarrow> observer_update m (ws_handlers s ! h) = Some x
    \<Longrightarrow> ws_step s ((on_handler h (\<lambda>_. x) s)\<lparr>wb_phase := BrokerSending m hs\<rparr>)"
| broker_sent: "wb_phase s = BrokerSending m [] \<Longrightarrow> ws_step s (s\<lparr>wb_phase := BrokerIdle\<rparr>)"
| send: "h < length (ws_handlers s) \<Longrightarrow> hn_phase (ws_handlers s ! h) = Running u \<Longrightarrow> hn_queue (ws_handlers s ! h) \<noteq> []
    \<Longrightarrow> ws_step s (on_handler h (handler_send ok) s)"
| client_leaves: "h < length (ws_handlers s)
    \<Longrightarrow> ws_step s (on_handler h (\<lambda>x. x\<lparr>hn_shutdown := shutdown (hn_phase x \<noteq> Gone) (hn_shutdown x)\<rparr>) s)"
| close: "h < length (ws_handlers s) \<Longrightarrow> hn_phase (ws_handlers s ! h) = Running u \<Longrightarrow> sc_signal (hn_shutdown (ws_handlers s ! h))
    \<Longrightarrow> ws_step s (on_handler h handler_close s)"
| leave: "h < length (ws_handlers s) \<Longrightarrow> hn_phase (ws_handlers s ! h) = Leaving u
    \<Longrightarrow> actor_tell (Some mailbox) True (Ubsubscriber u) (wb_queue s) = Some q
    \<Longrightarrow> ws_step s (on_handler h (\<lambda>x. x\<lparr>hn_phase := Gone\<rparr>) (s\<lparr>wb_queue := q\<rparr>))"

inductive ws_run :: "websockets \<Rightarrow> websockets \<Rightarrow> bool" where
  ws_refl: "ws_run s s"
| ws_next: "ws_run s s1 \<Longrightarrow> ws_step s1 s2 \<Longrightarrow> ws_run s s2"

text \<open>The end of that task is the step \<open>client_leaves\<close>.\<close>

lemma peer_listen_leaves:
  assumes "h < length (ws_handlers s)"
  shows "ws_step s (on_handler h (\<lambda>x. x\<lparr>hn_shutdown := snd (peer_listen (hn_phase x \<noteq> Gone) (hn_shutdown x) xs)\<rparr>) s)"
  using ws_step.client_leaves[OF assms] by (simp add: peer_listen_exact)

lemma ws_run_trans: "ws_run a b \<Longrightarrow> ws_run b c \<Longrightarrow> ws_run a c"
  by (rotate_tac, induction rule: ws_run.induct) (auto intro: ws_run.intros)

lemma ws_run_step: "ws_step a b \<Longrightarrow> ws_run a b"
  by (auto intro: ws_run.intros)

lemma on_handler_sel [simp]:
  "wb_queue (on_handler h f s) = wb_queue s" "wb_phase (on_handler h f s) = wb_phase s"
  "wb_observers (on_handler h f s) = wb_observers s" "wb_next (on_handler h f s) = wb_next s"
  "wb_log (on_handler h f s) = wb_log s"
  "ws_handlers (on_handler h f s) = (ws_handlers s)[h := f (ws_handlers s ! h)]"
  by (simp_all add: on_handler_def)

lemma channel_sends:
  "actor_tell (Some n) True m q = (if length q < n then Some (q @ [envelope_tell m]) else None)"
  "actor_ask (Some n) True m r q = (if length q < n then Some (q @ [envelope_ask m r]) else None)"
  "actor_tell (Some n) False m q = Some q"
  by (simp_all add: actor_tell_def actor_ask_def channel_send_def)

section \<open>A broker and a handler waiting for each other\<close>

definition stuck_at :: "string \<Rightarrow> nat \<Rightarrow> nat list \<Rightarrow> nat \<Rightarrow> websockets \<Rightarrow> bool" where
  "stuck_at m h hs u s \<longleftrightarrow> mailbox \<le> length (wb_queue s) \<and> wb_phase s = BrokerSending m (h # hs)
     \<and> h < length (ws_handlers s) \<and> hn_phase (ws_handlers s ! h) = Leaving u
     \<and> mailbox \<le> length (hn_queue (ws_handlers s ! h))"

definition broker_stuck :: "websockets \<Rightarrow> bool" where
  "broker_stuck s \<longleftrightarrow> (\<exists>m h hs u. stuck_at m h hs u s)"

lemma stuck_at_step:
  assumes "ws_step s s'" "stuck_at m h hs u s"
  shows "stuck_at m h hs u s' \<and> wb_queue s' = wb_queue s \<and> wb_log s' = wb_log s"
  using assms
proof (cases rule: ws_step.cases)
  case connect
  then show ?thesis using assms(2) by (simp add: stuck_at_def nth_append)
next
  case (broker_send m' h' hs' x)
  then show ?thesis using assms(2) by (simp add: stuck_at_def observer_update_def channel_sends)
next
  case (send h' u' ok)
  then show ?thesis using assms(2) by (auto simp: stuck_at_def nth_list_update)
next
  case (client_leaves h')
  then show ?thesis using assms(2) by (simp add: stuck_at_def nth_list_update)
next
  case (close h' u')
  then show ?thesis using assms(2) by (auto simp: stuck_at_def nth_list_update)
qed (simp_all add: stuck_at_def channel_sends)

lemma stuck_step:
  "ws_step s s' \<Longrightarrow> broker_stuck s \<Longrightarrow> broker_stuck s' \<and> wb_queue s' = wb_queue s \<and> wb_log s' = wb_log s"
  unfolding broker_stuck_def using stuck_at_step by blast

lemma stuck_run:
  "ws_run s s' \<Longrightarrow> broker_stuck s \<Longrightarrow> broker_stuck s' \<and> wb_queue s' = wb_queue s \<and> wb_log s' = wb_log s"
  by (induction rule: ws_run.induct) (auto dest: stuck_step)

text \<open>A run that leads there: one handler that is subscribed and whose client reads nothing.\<close>

definition one_observer :: "nat \<Rightarrow> websockets" where
  "one_observer k = \<lparr>wb_queue = [], wb_phase = BrokerIdle, wb_observers = [(0, 0)], wb_next = 1,
     ws_handlers = [\<lparr>hn_queue = replicate k (envelope_tell ''m''), hn_phase = Running 0, hn_shutdown = shutdown_cell_new,
       hn_sent = [], hn_start = 0\<rparr>], wb_log = replicate k ''m''\<rparr>"

lemma one_observer_run: "ws_run broker_start (one_observer 0)"
proof -
  let ?s1 = "broker_start\<lparr>ws_handlers := [handler_new]\<rparr>"
  let ?s2 = "on_handler 0 (\<lambda>x. x\<lparr>hn_phase := AwaitReply\<rparr>) (?s1\<lparr>wb_queue := [envelope_ask (Subscriber 0) 0]\<rparr>)"
  have 1: "ws_step broker_start ?s1" using ws_step.connect[of broker_start] by (simp add: broker_start_def)
  have 2: "ws_step ?s1 ?s2"
    by (rule ws_step.ask) (simp_all add: broker_start_def handler_new_def channel_sends mailbox_def)
  have "ws_step ?s2 (broker_handle [] (envelope_ask (Subscriber 0) 0) (?s2\<lparr>wb_queue := []\<rparr>))"
    by (rule ws_step.broker_take) (simp_all add: broker_start_def)
  moreover have "broker_handle [] (envelope_ask (Subscriber 0) 0) (?s2\<lparr>wb_queue := []\<rparr>) = one_observer 0"
    by (simp add: broker_handle_def envelope_ask_def broker_reply_def on_handler_def broker_start_def
        handler_new_def one_observer_def)
  ultimately have 3: "ws_step ?s2 (one_observer 0)" by simp
  show ?thesis by (rule ws_next[OF ws_next[OF ws_next[OF ws_refl 1] 2] 3])
qed

lemma one_observer_more:
  assumes "k < mailbox"
  shows "ws_run (one_observer k) (one_observer (Suc k))"
proof -
  let ?e = "envelope_tell (Message ''m'')"
  let ?s1 = "(one_observer k)\<lparr>wb_queue := [?e]\<rparr>"
  let ?s2 = "(one_observer k)\<lparr>wb_phase := BrokerSending ''m'' [0], wb_log := replicate (Suc k) ''m''\<rparr>"
  let ?s3 = "(one_observer (Suc k))\<lparr>wb_phase := BrokerSending ''m'' []\<rparr>"
  have 1: "ws_step (one_observer k) ?s1"
    by (rule ws_step.publish) (simp add: channel_sends mailbox_def one_observer_def)
  have "ws_step ?s1 (broker_handle [0] ?e (?s1\<lparr>wb_queue := []\<rparr>))"
    by (rule ws_step.broker_take) (simp_all add: one_observer_def)
  moreover have "broker_handle [0] ?e (?s1\<lparr>wb_queue := []\<rparr>) = ?s2"
    by (simp add: broker_handle_def envelope_tell_def one_observer_def replicate_append_same)
  ultimately have 2: "ws_step ?s1 ?s2" by simp
  have "ws_step ?s2 ((on_handler 0 (\<lambda>_. ws_handlers (one_observer (Suc k)) ! 0) ?s2)\<lparr>wb_phase := BrokerSending ''m'' []\<rparr>)"
    using assms by (intro ws_step.broker_send)
      (simp_all add: observer_update_def one_observer_def channel_sends replicate_append_same)
  moreover have "(on_handler 0 (\<lambda>_. ws_handlers (one_observer (Suc k)) ! 0) ?s2)\<lparr>wb_phase := BrokerSending ''m'' []\<rparr> = ?s3"
    by (simp add: on_handler_def one_observer_def)
  ultimately have 3: "ws_step ?s2 ?s3" by simp
  have "ws_step ?s3 (?s3\<lparr>wb_phase := BrokerIdle\<rparr>)" by (rule ws_step.broker_sent) simp
  then have 4: "ws_step ?s3 (one_observer (Suc k))" by (simp add: one_observer_def)
  show ?thesis by (rule ws_next[OF ws_next[OF ws_next[OF ws_next[OF ws_refl 1] 2] 3] 4])
qed

lemma one_observer_many: "k \<le> mailbox \<Longrightarrow> ws_run broker_start (one_observer k)"
  by (induction k) (auto intro: one_observer_run ws_run_trans[OF _ one_observer_more])

lemma publish_many:
  "length (wb_queue s) + n \<le> mailbox \<Longrightarrow>
   ws_run s (s\<lparr>wb_queue := wb_queue s @ replicate n (envelope_tell (Message ''m''))\<rparr>)"
proof (induction n)
  case (Suc n)
  let ?s = "s\<lparr>wb_queue := wb_queue s @ replicate n (envelope_tell (Message ''m''))\<rparr>"
  have "ws_step ?s (?s\<lparr>wb_queue := wb_queue ?s @ [envelope_tell (Message ''m'')]\<rparr>)"
    using Suc.prems by (intro ws_step.publish) (simp add: channel_sends)
  then show ?case using Suc ws_next by (fastforce simp: replicate_append_same)
qed (simp add: ws_refl)

lemma stuck_reachable: "\<exists>s. ws_run broker_start s \<and> broker_stuck s"
proof -
  let ?e = "envelope_tell (Message ''m'')"
  let ?s0 = "one_observer mailbox"
  let ?s1 = "on_handler 0 (\<lambda>x. x\<lparr>hn_shutdown := shutdown (hn_phase x \<noteq> Gone) (hn_shutdown x)\<rparr>) ?s0"
  let ?s2 = "on_handler 0 handler_close ?s1"
  let ?s3 = "?s2\<lparr>wb_queue := [?e]\<rparr>"
  let ?s4 = "broker_handle [0] ?e (?s3\<lparr>wb_queue := []\<rparr>)"
  let ?s5 = "?s4\<lparr>wb_queue := wb_queue ?s4 @ replicate mailbox ?e\<rparr>"
  have 1: "ws_step ?s0 ?s1" by (rule ws_step.client_leaves) (simp add: one_observer_def)
  have 2: "ws_step ?s1 ?s2"
    by (rule ws_step.close[where u = 0]) (simp_all add: one_observer_def shutdown_def shutdown_cell_new_def)
  have 3: "ws_step ?s2 ?s3"
    by (rule ws_step.publish) (simp add: channel_sends mailbox_def one_observer_def)
  have 4: "ws_step ?s3 ?s4" by (rule ws_step.broker_take) (simp_all add: one_observer_def)
  have 5: "ws_run ?s4 ?s5"
    by (rule publish_many) (simp add: broker_handle_def envelope_tell_def one_observer_def)
  have "stuck_at ''m'' 0 [] 0 ?s5"
    by (simp add: stuck_at_def broker_handle_def envelope_tell_def handler_close_def one_observer_def)
  moreover have "ws_run ?s0 ?s5"
    by (rule ws_run_trans[OF ws_next[OF ws_next[OF ws_next[OF ws_next[OF ws_refl 1] 2] 3] 4] 5])
  ultimately show ?thesis
    using ws_run_trans[OF one_observer_many[OF order_refl]] unfolding broker_stuck_def by blast
qed

text \<open>
  C32. A broker and a handler can wait for each other for ever: the handler of a client that left waits to
  unsubscribe while the broker's mailbox is full, and the broker waits for room in that handler's mailbox.
  Such a state is reached from the start, and from it the broker takes no message any more, whatever
  happens next.
\<close>

theorem broker_deadlock:
  "\<exists>s. ws_run broker_start s \<and> broker_stuck s
     \<and> {s'. ws_run s s'} \<subseteq> {s'. broker_stuck s' \<and> wb_queue s' = wb_queue s \<and> wb_log s' = wb_log s}"
proof -
  obtain s where s: "ws_run broker_start s" "broker_stuck s" using stuck_reachable by blast
  have "{s'. ws_run s s'} \<subseteq> {s'. broker_stuck s' \<and> wb_queue s' = wb_queue s \<and> wb_log s' = wb_log s}"
    using stuck_run[OF _ s(2)] by blast
  with s show ?thesis by blast
qed

section \<open>What observers are told\<close>

definition queued :: "websockets \<Rightarrow> broker_message list" where
  "queued s = map env_message (wb_queue s)"

definition pending :: "websockets \<Rightarrow> nat \<Rightarrow> string list" where
  "pending s h = (case wb_phase s of BrokerSending m hs \<Rightarrow> if h \<in> set hs then [m] else [] | BrokerIdle \<Rightarrow> [])"

text \<open>A handler has, sent or on the way, the messages since it was subscribed.\<close>

definition follows :: "websockets \<Rightarrow> nat \<Rightarrow> bool" where
  "follows s h \<longleftrightarrow> (let x = ws_handlers s ! h in hn_start x \<le> length (wb_log s)
     \<and> hn_sent x @ map env_message (hn_queue x) @ pending s h = drop (hn_start x) (wb_log s))"

definition bounded :: "websockets \<Rightarrow> bool" where
  "bounded s \<longleftrightarrow> length (wb_queue s) \<le> mailbox \<and> (\<forall>h < length (ws_handlers s). length (hn_queue (ws_handlers s ! h)) \<le> mailbox)"

definition observers_ok :: "websockets \<Rightarrow> bool" where
  "observers_ok s \<longleftrightarrow> distinct (map fst (wb_observers s)) \<and> distinct (map snd (wb_observers s))
     \<and> (\<forall>(u, h) \<in> set (wb_observers s). u < wb_next s \<and> h < length (ws_handlers s)
          \<and> hn_phase (ws_handlers s ! h) \<in> {Running u, Leaving u, Gone})"

definition sending_ok :: "websockets \<Rightarrow> bool" where
  "sending_ok s \<longleftrightarrow> (\<forall>m hs. wb_phase s = BrokerSending m hs \<longrightarrow> distinct hs \<and> set hs \<subseteq> snd ` set (wb_observers s))"

definition subscribers_ok :: "websockets \<Rightarrow> bool" where
  "subscribers_ok s \<longleftrightarrow> distinct [h. Subscriber h \<leftarrow> queued s]
     \<and> (\<forall>e \<in> set (wb_queue s). \<forall>h. env_message e = Subscriber h \<longrightarrow> env_reply_to e = Some h
          \<and> h < length (ws_handlers s) \<and> hn_phase (ws_handlers s ! h) = AwaitReply)"

definition leavers_ok :: "websockets \<Rightarrow> bool" where
  "leavers_ok s \<longleftrightarrow> (\<forall>u. Ubsubscriber u \<in> set (queued s) \<longrightarrow> u < wb_next s
     \<and> (\<forall>h < length (ws_handlers s). hn_phase (ws_handlers s ! h) \<noteq> Running u \<and> hn_phase (ws_handlers s ! h) \<noteq> Leaving u))"

definition handlers_ok :: "websockets \<Rightarrow> bool" where
  "handlers_ok s \<longleftrightarrow> (\<forall>h < length (ws_handlers s).
     (case hn_phase (ws_handlers s ! h) of
        Starting \<Rightarrow> hn_queue (ws_handlers s ! h) = [] \<and> hn_sent (ws_handlers s ! h) = []
      | AwaitReply \<Rightarrow> hn_queue (ws_handlers s ! h) = [] \<and> hn_sent (ws_handlers s ! h) = []
      | Running u \<Rightarrow> (u, h) \<in> set (wb_observers s) \<and> follows s h
      | Leaving u \<Rightarrow> (u, h) \<in> set (wb_observers s)
      | Gone \<Rightarrow> True))"

definition ws_inv :: "websockets \<Rightarrow> bool" where
  "ws_inv s \<longleftrightarrow> bounded s \<and> observers_ok s \<and> sending_ok s \<and> subscribers_ok s \<and> leavers_ok s \<and> handlers_ok s"

lemma ws_inv_start: "ws_inv broker_start"
  by (simp add: ws_inv_def bounded_def observers_ok_def sending_ok_def subscribers_ok_def leavers_ok_def
      handlers_ok_def broker_start_def queued_def)

lemma nth_update: "j < length xs \<Longrightarrow> xs[i := v] ! j = (if i = j then v else xs ! j)"
  by (auto simp: nth_list_update)

text \<open>How the phase of a handler moves on its own.\<close>

fun phase_moves :: "handler_phase \<Rightarrow> handler_phase \<Rightarrow> bool" where
  "phase_moves Starting p \<longleftrightarrow> p = Starting \<or> p = AwaitReply"
| "phase_moves AwaitReply p \<longleftrightarrow> p = AwaitReply"
| "phase_moves (Running u) p \<longleftrightarrow> p = Running u \<or> p = Leaving u"
| "phase_moves (Leaving u) p \<longleftrightarrow> p = Leaving u \<or> p = Gone"
| "phase_moves Gone p \<longleftrightarrow> p = Gone"

lemma phase_moves_refl [simp]: "phase_moves p p"
  by (cases p) simp_all

definition frame :: "websockets \<Rightarrow> websockets \<Rightarrow> bool" where
  "frame s s' \<longleftrightarrow> wb_observers s' = wb_observers s \<and> wb_next s' = wb_next s \<and> wb_log s' = wb_log s
     \<and> length (ws_handlers s) \<le> length (ws_handlers s')
     \<and> (\<forall>h < length (ws_handlers s). phase_moves (hn_phase (ws_handlers s ! h)) (hn_phase (ws_handlers s' ! h)))"

lemma frame_on_handler:
  assumes "phase_moves (hn_phase (ws_handlers s ! h)) (hn_phase (f (ws_handlers s ! h)))"
  shows "frame s (on_handler h f s)" "frame s (on_handler h f (s\<lparr>wb_queue := q\<rparr>))"
    "frame s ((on_handler h f s)\<lparr>wb_phase := ph\<rparr>)"
  using assms by (auto simp: frame_def nth_update)

lemma step_frame:
  assumes "ws_step s s'"
  obtains (taken) e q order where "wb_phase s = BrokerIdle" "wb_queue s = e # q"
      "mset order = mset (map snd (wb_observers s))" "s' = broker_handle order e (s\<lparr>wb_queue := q\<rparr>)"
  | (other) "frame s s'"
  using assms
proof (cases rule: ws_step.cases)
  case connect
  then show ?thesis by (intro other) (simp add: frame_def nth_append)
next
  case (publish m q)
  then show ?thesis by (intro other) (simp add: frame_def)
next
  case (ask h q)
  then show ?thesis by (intro other) (simp add: frame_on_handler)
next
  case (broker_take e q order)
  then show ?thesis by (intro taken)
next
  case (broker_send m h hs x)
  then have "hn_phase x = hn_phase (ws_handlers s ! h)" by (auto simp: observer_update_def)
  with broker_send(1) show ?thesis by (intro other) (simp add: frame_on_handler)
next
  case (broker_sent m)
  then show ?thesis by (intro other) (simp add: frame_def)
next
  case (send h u ok)
  then show ?thesis by (intro other) (auto simp: handler_send_def intro!: frame_on_handler split: list.split)
next
  case (client_leaves h)
  then show ?thesis by (intro other) (simp add: frame_on_handler)
next
  case (close h u)
  then show ?thesis by (intro other) (simp add: frame_on_handler handler_close_def)
next
  case (leave h u q)
  then show ?thesis by (intro other) (simp add: frame_on_handler)
qed

lemma bounded_step: "ws_step s s' \<Longrightarrow> bounded s \<Longrightarrow> bounded s'"
proof (induction rule: ws_step.induct)
  case (broker_take s e q order)
  then show ?case
    by (auto simp: bounded_def broker_handle_def broker_reply_def nth_update
        split: broker_message.split option.split)
next
  case (broker_send s m h hs x)
  then show ?case
    by (auto simp: bounded_def observer_update_def actor_tell_def channel_send_def nth_update split: if_split_asm)
qed (auto simp: bounded_def channel_sends handler_new_def nth_update nth_append less_Suc_eq handler_send_def
    handler_close_def split: if_split_asm list.split)

lemma observers_frame: "frame s s' \<Longrightarrow> observers_ok s \<Longrightarrow> observers_ok s'"
  by (fastforce simp: observers_ok_def frame_def dest: spec)

lemma new_subscriber:
  assumes "ws_inv s" "wb_queue s = e # q" "env_message e = Subscriber h"
  shows "env_reply_to e = Some h" "h < length (ws_handlers s)" "hn_phase (ws_handlers s ! h) = AwaitReply"
    "h \<notin> snd ` set (wb_observers s)" "wb_next s \<notin> fst ` set (wb_observers s)"
proof -
  have ok: "observers_ok s" "subscribers_ok s" using assms(1) by (simp_all add: ws_inv_def)
  show h: "env_reply_to e = Some h" "h < length (ws_handlers s)" "hn_phase (ws_handlers s ! h) = AwaitReply"
    using ok(2) assms(2,3) by (auto simp: subscribers_ok_def)
  show "h \<notin> snd ` set (wb_observers s)" "wb_next s \<notin> fst ` set (wb_observers s)"
    using ok(1) h(3) by (fastforce simp: observers_ok_def)+
qed

lemma broker_handle_subscriber:
  assumes "ws_inv s" "wb_queue s = e # q" "env_message e = Subscriber h"
  shows "broker_handle order e (s\<lparr>wb_queue := q\<rparr>)
    = (on_handler h (\<lambda>x. x\<lparr>hn_phase := Running (wb_next s), hn_start := length (wb_log s)\<rparr>) (s\<lparr>wb_queue := q\<rparr>))
        \<lparr>wb_observers := (wb_next s, h) # wb_observers s, wb_next := Suc (wb_next s)\<rparr>"
  using new_subscriber[OF assms] assms(3) by (simp add: broker_handle_def broker_reply_def on_handler_def)

lemma observers_step:
  assumes "ws_step s s'" "ws_inv s"
  shows "observers_ok s'"
proof -
  have ok: "observers_ok s" using assms(2) by (simp add: ws_inv_def)
  from assms(1) show ?thesis
  proof (cases rule: step_frame)
    case other
    then show ?thesis using ok by (rule observers_frame)
  next
    case (taken e q order)
    show ?thesis
    proof (cases "env_message e")
      case (Subscriber h)
      show ?thesis
        using ok new_subscriber[OF assms(2) taken(2) Subscriber]
        by (force simp: taken(4) broker_handle_subscriber[OF assms(2) taken(2) Subscriber] observers_ok_def nth_list_update)
    next
      case (Ubsubscriber u)
      then show ?thesis using ok by (auto simp: taken(4) observers_ok_def broker_handle_def distinct_map_filter)
    next
      case (Message m)
      then show ?thesis using ok by (auto simp: taken(4) observers_ok_def broker_handle_def)
    qed
  qed
qed

lemma order_observers:
  assumes "mset order = mset (map snd (wb_observers s))"
  shows "set order = snd ` set (wb_observers s)" "distinct order \<longleftrightarrow> distinct (map snd (wb_observers s))"
  using mset_eq_setD[OF assms] mset_eq_imp_distinct_iff[OF assms] by auto

lemma sending_step:
  assumes "ws_step s s'" "ws_inv s"
  shows "sending_ok s'"
  using assms(1)
proof (cases rule: ws_step.cases)
  case (broker_take e q order)
  then show ?thesis
    using assms(2) order_observers[OF broker_take(4)]
    by (auto simp: ws_inv_def sending_ok_def observers_ok_def broker_handle_def broker_reply_def
        split: broker_message.split option.split)
qed (use assms(2) in \<open>auto simp: ws_inv_def sending_ok_def\<close>)

text \<open>What the mailbox of the broker gets.\<close>

lemma step_queue:
  assumes "ws_step s s'"
  obtains (taken) e q order where "wb_phase s = BrokerIdle" "wb_queue s = e # q"
      "mset order = mset (map snd (wb_observers s))" "s' = broker_handle order e (s\<lparr>wb_queue := q\<rparr>)"
  | (same) "frame s s'" "wb_queue s' = wb_queue s"
      "\<forall>h < length (ws_handlers s). hn_phase (ws_handlers s ! h) = AwaitReply \<longrightarrow> hn_phase (ws_handlers s' ! h) = AwaitReply"
  | (published) m where "s' = s\<lparr>wb_queue := wb_queue s @ [envelope_tell (Message m)]\<rparr>"
  | (asked) h where "h < length (ws_handlers s)" "hn_phase (ws_handlers s ! h) = Starting"
      "s' = on_handler h (\<lambda>x. x\<lparr>hn_phase := AwaitReply\<rparr>) (s\<lparr>wb_queue := wb_queue s @ [envelope_ask (Subscriber h) h]\<rparr>)"
  | (left) h u where "h < length (ws_handlers s)" "hn_phase (ws_handlers s ! h) = Leaving u"
      "s' = on_handler h (\<lambda>x. x\<lparr>hn_phase := Gone\<rparr>) (s\<lparr>wb_queue := wb_queue s @ [envelope_tell (Ubsubscriber u)]\<rparr>)"
proof -
  have fr: "\<forall>h < length (ws_handlers s). hn_phase (ws_handlers s ! h) = AwaitReply \<longrightarrow> hn_phase (ws_handlers s' ! h) = AwaitReply"
    if "frame s s'"
  proof (intro allI impI)
    fix h assume "h < length (ws_handlers s)" "hn_phase (ws_handlers s ! h) = AwaitReply"
    with that have "phase_moves AwaitReply (hn_phase (ws_handlers s' ! h))" by (metis frame_def)
    then show "hn_phase (ws_handlers s' ! h) = AwaitReply" by simp
  qed
  from assms show thesis
  proof (cases rule: ws_step.cases)
    case (publish m q)
    then show thesis by (intro published) (auto simp: channel_sends split: if_split_asm)
  next
    case (ask h q)
    then show thesis by (intro asked[of h]) (auto simp: channel_sends split: if_split_asm)
  next
    case (leave h u q)
    then show thesis by (intro left[of h u]) (auto simp: channel_sends split: if_split_asm)
  next
    case (broker_take e q order)
    then show thesis by (intro taken)
  next
    case (send h u ok)
    then have "wb_queue s' = wb_queue s" "frame s s'"
      by (auto simp: handler_send_def intro!: frame_on_handler split: list.split)
    with fr show thesis by (intro same)
  next
    case (broker_send m h hs x)
    then have "hn_phase x = hn_phase (ws_handlers s ! h)" by (auto simp: observer_update_def)
    with broker_send(1) have "wb_queue s' = wb_queue s" "frame s s'" by (simp_all add: frame_on_handler)
    with fr show thesis by (intro same)
  next
    case connect
    then have "wb_queue s' = wb_queue s" "frame s s'" by (simp_all add: frame_def nth_append)
    with fr show thesis by (intro same)
  next
    case (broker_sent m)
    then have "wb_queue s' = wb_queue s" "frame s s'" by (simp_all add: frame_def)
    with fr show thesis by (intro same)
  next
    case (client_leaves h)
    then have "wb_queue s' = wb_queue s" "frame s s'" by (simp_all add: frame_on_handler)
    with fr show thesis by (intro same)
  next
    case (close h u)
    then have "wb_queue s' = wb_queue s" "frame s s'" by (simp_all add: frame_on_handler handler_close_def)
    with fr show thesis by (intro same)
  qed
qed

definition subscribing :: "broker_message list \<Rightarrow> nat list" where
  "subscribing ms = [h. Subscriber h \<leftarrow> ms]"

lemma subscribing_simps [simp]:
  "subscribing [] = []" "subscribing (ms @ ns) = subscribing ms @ subscribing ns"
  "subscribing (Subscriber h # ms) = h # subscribing ms" "subscribing (Message m # ms) = subscribing ms"
  "subscribing (Ubsubscriber u # ms) = subscribing ms"
  by (simp_all add: subscribing_def)

lemma in_subscribing: "h \<in> set (subscribing ms) \<longleftrightarrow> Subscriber h \<in> set ms"
  by (induction ms) (auto simp: subscribing_def split: broker_message.split)

lemma subscribers_step:
  assumes "ws_step s s'" "ws_inv s"
  shows "subscribers_ok s'"
proof -
  have ok: "subscribers_ok s" using assms(2) by (simp add: ws_inv_def)
  have await: "h < length (ws_handlers s) \<and> hn_phase (ws_handlers s ! h) = AwaitReply" if "Subscriber h \<in> set (queued s)" for h
    using ok that by (auto simp: subscribers_ok_def queued_def)
  from assms(1) show ?thesis
  proof (cases rule: step_queue)
    case (taken e q order)
    show ?thesis
    proof (cases "env_message e")
      case (Subscriber h)
      have "Subscriber h \<notin> env_message ` set q"
        using ok taken(2) Subscriber by (auto simp: subscribers_ok_def queued_def subscribing_def[symmetric] in_subscribing[symmetric])
      then show ?thesis
        using ok taken(2) Subscriber new_subscriber[OF assms(2) taken(2) Subscriber]
        by (force simp: taken(4) broker_handle_subscriber[OF assms(2) taken(2) Subscriber] subscribers_ok_def
            queued_def subscribing_def[symmetric] nth_list_update)
    qed (use ok taken(2) in \<open>auto simp: taken(4) subscribers_ok_def broker_handle_def queued_def subscribing_def[symmetric]\<close>)
  next
    case same
    then show ?thesis using ok by (fastforce simp: subscribers_ok_def queued_def frame_def)
  next
    case (published m)
    then show ?thesis using ok by (auto simp: subscribers_ok_def queued_def envelope_tell_def)
  next
    case (asked h)
    then have "Subscriber h \<notin> set (queued s)" using await by auto
    then show ?thesis
      using ok asked by (auto simp: subscribers_ok_def queued_def envelope_ask_def nth_list_update
          subscribing_def[symmetric] in_subscribing)
  next
    case (left h u)
    then show ?thesis using ok by (auto simp: subscribers_ok_def queued_def envelope_tell_def nth_list_update)
  qed
qed

lemma leavers_frame:
  assumes "frame s s'" "leavers_ok s" "Ubsubscriber u \<in> set (queued s)" "length (ws_handlers s') = length (ws_handlers s)"
  shows "u < wb_next s' \<and> (\<forall>h < length (ws_handlers s'). hn_phase (ws_handlers s' ! h) \<noteq> Running u \<and> hn_phase (ws_handlers s' ! h) \<noteq> Leaving u)"
proof -
  have u: "u < wb_next s" "\<forall>h < length (ws_handlers s). hn_phase (ws_handlers s ! h) \<noteq> Running u \<and> hn_phase (ws_handlers s ! h) \<noteq> Leaving u"
    using assms(2,3) by (auto simp: leavers_ok_def)
  have "hn_phase (ws_handlers s' ! h) \<noteq> Running u \<and> hn_phase (ws_handlers s' ! h) \<noteq> Leaving u"
    if "h < length (ws_handlers s')" for h
  proof -
    have "phase_moves (hn_phase (ws_handlers s ! h)) (hn_phase (ws_handlers s' ! h))"
      using assms(1,4) that by (simp add: frame_def)
    with u(2) that assms(4) show ?thesis by (cases "hn_phase (ws_handlers s ! h)") auto
  qed
  with u(1) assms(1) show ?thesis by (simp add: frame_def)
qed

lemma leavers_step:
  assumes "ws_step s s'" "ws_inv s"
  shows "leavers_ok s'"
proof -
  have ok: "leavers_ok s" "observers_ok s" "handlers_ok s" using assms(2) by (simp_all add: ws_inv_def)
  have in_obs: "(u, h) \<in> set (wb_observers s)"
    if "h < length (ws_handlers s)" "hn_phase (ws_handlers s ! h) = Running u \<or> hn_phase (ws_handlers s ! h) = Leaving u" for h u
    using ok(3) that by (auto simp: handlers_ok_def)
  from assms(1) show ?thesis
  proof (cases rule: ws_step.cases)
    case (broker_take e q order)
    show ?thesis
    proof (cases "env_message e")
      case (Subscriber h)
      then show ?thesis
        using ok(1) broker_take(3) new_subscriber[OF assms(2) broker_take(3) Subscriber]
        by (auto simp: broker_take(1) broker_handle_subscriber[OF assms(2) broker_take(3) Subscriber] leavers_ok_def
            queued_def nth_list_update less_Suc_eq)
    qed (use ok(1) broker_take(1,3) in \<open>auto simp: leavers_ok_def broker_handle_def queued_def\<close>)
  next
    case (leave h u q)
    have fresh: "hn_phase (ws_handlers s ! h') \<noteq> Running u \<and> hn_phase (ws_handlers s ! h') \<noteq> Leaving u"
      if "h' < length (ws_handlers s)" "h' \<noteq> h" for h'
    proof
      have "(u, h) \<in> set (wb_observers s)" using in_obs[of h u] leave by simp
      then have "(u, h') \<notin> set (wb_observers s)"
        using ok(2) that(2) eq_key_imp_eq_value[of "wb_observers s" u h h'] by (auto simp: observers_ok_def)
      then show "hn_phase (ws_handlers s ! h') \<noteq> Running u" "hn_phase (ws_handlers s ! h') \<noteq> Leaving u"
        using in_obs[OF that(1)] by auto
    qed
    have "u < wb_next s" using ok(2) in_obs[of h u] leave by (auto simp: observers_ok_def)
    then show ?thesis
      using ok(1) leave fresh
      by (auto simp: leavers_ok_def queued_def channel_sends envelope_tell_def nth_list_update split: if_split_asm)
  next
    case connect
    then show ?thesis using ok(1) by (auto simp: leavers_ok_def queued_def nth_append handler_new_def less_Suc_eq)
  next
    case (publish m q)
    then show ?thesis using ok(1)
      by (auto simp: leavers_ok_def queued_def channel_sends envelope_tell_def split: if_split_asm)
  next
    case (ask h q)
    then show ?thesis using ok(1)
      by (auto simp: leavers_ok_def queued_def channel_sends envelope_ask_def nth_list_update split: if_split_asm)
  next
    case (broker_send m h hs x)
    then have "hn_phase x = hn_phase (ws_handlers s ! h)" by (auto simp: observer_update_def)
    with broker_send show ?thesis using ok(1) by (auto simp: leavers_ok_def queued_def nth_update)
  next
    case (broker_sent m)
    then show ?thesis using ok(1) by (simp add: leavers_ok_def queued_def)
  next
    case (send h u ok')
    then show ?thesis using ok(1)
      by (fastforce simp: leavers_ok_def queued_def handler_send_def nth_list_update split: list.split)
  next
    case (client_leaves h)
    then show ?thesis using ok(1) by (auto simp: leavers_ok_def queued_def nth_list_update)
  next
    case (close h u)
    then show ?thesis using ok(1) by (auto simp: leavers_ok_def queued_def handler_close_def nth_list_update)
  qed
qed

definition handler_ok :: "websockets \<Rightarrow> nat \<Rightarrow> bool" where
  "handler_ok s h \<longleftrightarrow>
     (case hn_phase (ws_handlers s ! h) of
        Starting \<Rightarrow> hn_queue (ws_handlers s ! h) = [] \<and> hn_sent (ws_handlers s ! h) = []
      | AwaitReply \<Rightarrow> hn_queue (ws_handlers s ! h) = [] \<and> hn_sent (ws_handlers s ! h) = []
      | Running u \<Rightarrow> (u, h) \<in> set (wb_observers s) \<and> follows s h
      | Leaving u \<Rightarrow> (u, h) \<in> set (wb_observers s)
      | Gone \<Rightarrow> True)"

lemma handlers_ok_all: "handlers_ok s \<longleftrightarrow> (\<forall>h < length (ws_handlers s). handler_ok s h)"
  by (simp add: handlers_ok_def handler_ok_def)

text \<open>A handler that is not touched, in a step that keeps what it follows.\<close>

lemma handler_untouched:
  assumes "handler_ok s h" "ws_handlers s' ! h = ws_handlers s ! h" "wb_observers s' = wb_observers s"
    "wb_log s' = wb_log s" "pending s' h = pending s h"
  shows "handler_ok s' h"
  using assms by (cases "hn_phase (ws_handlers s ! h)") (simp_all add: handler_ok_def follows_def)

lemma handlers_take:
  assumes "ws_inv s" "wb_phase s = BrokerIdle" "wb_queue s = e # q" "mset order = mset (map snd (wb_observers s))"
  shows "handlers_ok (broker_handle order e (s\<lparr>wb_queue := q\<rparr>))"
proof -
  have ok: "handlers_ok s" "leavers_ok s" "observers_ok s" using assms(1) by (simp_all add: ws_inv_def)
  note order = order_observers[OF assms(4)]
  have idle: "pending s h = []" for h using assms(2) by (simp add: pending_def)
  show ?thesis
  proof (cases "env_message e")
    case (Subscriber h)
    note new = new_subscriber[OF assms(1,3) Subscriber]
    have "hn_queue (ws_handlers s ! h) = []" "hn_sent (ws_handlers s ! h) = []"
      using ok(1) new(2,3) by (auto simp: handlers_ok_def)
    then show ?thesis
      using ok(1) new(2,3) assms(2)
      by (auto simp: handlers_ok_all handler_ok_def broker_handle_subscriber[OF assms(1,3) Subscriber]
          nth_list_update follows_def pending_def Let_def split: handler_phase.splits)
  next
    case (Ubsubscriber u)
    have "hn_phase (ws_handlers s ! h) \<noteq> Running u \<and> hn_phase (ws_handlers s ! h) \<noteq> Leaving u"
      if "h < length (ws_handlers s)" for h
      using ok(2) assms(3) Ubsubscriber that by (auto simp: leavers_ok_def queued_def)
    then show ?thesis
      using ok(1) Ubsubscriber
      by (auto simp: handlers_ok_all handler_ok_def broker_handle_def follows_def pending_def split: handler_phase.splits)
  next
    case (Message m)
    have mem: "h \<in> set order" if "(u, h) \<in> set (wb_observers s)" for u h
      using order(1) that by force
    show ?thesis
      unfolding handlers_ok_all
    proof (intro allI impI)
      fix h assume "h < length (ws_handlers (broker_handle order e (s\<lparr>wb_queue := q\<rparr>)))"
      then have "handler_ok s h" using ok(1) Message by (simp add: handlers_ok_all broker_handle_def)
      then show "handler_ok (broker_handle order e (s\<lparr>wb_queue := q\<rparr>)) h"
        using Message idle[of h] mem[of _ h]
        by (cases "hn_phase (ws_handlers s ! h)")
          (auto simp: handler_ok_def broker_handle_def follows_def pending_def Let_def)
    qed
  qed
qed

text \<open>A step that changes one handler only.\<close>

lemma handlers_one:
  assumes "handlers_ok s" "ws_handlers s' = (ws_handlers s)[h := x]" "wb_observers s' = wb_observers s"
    "wb_log s' = wb_log s" "\<And>h'. h' \<noteq> h \<Longrightarrow> pending s' h' = pending s h'"
    "h < length (ws_handlers s) \<Longrightarrow> handler_ok s' h"
  shows "handlers_ok s'"
  unfolding handlers_ok_all
proof (intro allI impI)
  fix h' assume "h' < length (ws_handlers s')"
  then have h': "h' < length (ws_handlers s)" using assms(2) by simp
  show "handler_ok s' h'"
  proof (cases "h' = h")
    case False
    show ?thesis
    proof (rule handler_untouched)
      show "handler_ok s h'" using assms(1) h' by (simp add: handlers_ok_all)
      show "ws_handlers s' ! h' = ws_handlers s ! h'" using assms(2) False by simp
    qed (rule assms(3), rule assms(4), rule assms(5)[OF False])
  qed (use assms(6) h' in simp)
qed

lemma sent_elsewhere:
  assumes "wb_phase s = BrokerSending m (h # hs)" "distinct (h # hs)"
  shows "h' \<noteq> h \<Longrightarrow> pending (s'\<lparr>wb_phase := BrokerSending m hs\<rparr>) h' = pending s h'"
    "pending s h = [m]" "pending (s'\<lparr>wb_phase := BrokerSending m hs\<rparr>) h = []"
  using assms by (auto simp: pending_def)

lemma handlers_send:
  assumes "ws_inv s" "wb_phase s = BrokerSending m (h # hs)" "observer_update m (ws_handlers s ! h) = Some x"
  shows "handlers_ok ((on_handler h (\<lambda>_. x) s)\<lparr>wb_phase := BrokerSending m hs\<rparr>)" (is "handlers_ok ?s'")
proof (rule handlers_one[where x = x and h = h])
  have ok: "handlers_ok s" "observers_ok s" "sending_ok s" using assms(1) by (simp_all add: ws_inv_def)
  have dist: "distinct (h # hs)" using ok(3) assms(2) by (auto simp: sending_ok_def)
  show "handlers_ok s" by (rule ok(1))
  show "pending ?s' h' = pending s h'" if "h' \<noteq> h" for h' by (rule sent_elsewhere(1)[OF assms(2) dist that])
  show "handler_ok ?s' h" if h: "h < length (ws_handlers s)"
  proof -
    have "hn_phase (ws_handlers s ! h) \<noteq> Starting" "hn_phase (ws_handlers s ! h) \<noteq> AwaitReply"
      using ok(2,3) assms(2) by (fastforce simp: observers_ok_def sending_ok_def)+
    moreover have "handler_ok s h" using ok(1) h by (simp add: handlers_ok_all)
    moreover have "x = (ws_handlers s ! h)\<lparr>hn_queue := hn_queue (ws_handlers s ! h) @ [envelope_tell m]\<rparr>"
      if "hn_phase (ws_handlers s ! h) \<noteq> Gone"
      using assms(3) that by (auto simp: observer_update_def channel_sends split: if_split_asm)
    moreover have "hn_phase x = hn_phase (ws_handlers s ! h)" using assms(3) by (auto simp: observer_update_def)
    ultimately show ?thesis
      using h sent_elsewhere(2,3)[OF assms(2) dist]
      by (cases "hn_phase (ws_handlers s ! h)") (auto simp: handler_ok_def follows_def Let_def envelope_tell_def)
  qed
qed simp_all

lemma handlers_step:
  assumes "ws_step s s'" "ws_inv s"
  shows "handlers_ok s'"
proof -
  have ok: "handlers_ok s" using assms(2) by (simp add: ws_inv_def)
  have at: "handler_ok s h" if "h < length (ws_handlers s)" for h using ok that by (simp add: handlers_ok_all)
  have pend: "pending (on_handler h f s) = pending s" "pending (s\<lparr>wb_queue := q\<rparr>) = pending s"
      "pending (on_handler h f (s\<lparr>wb_queue := q\<rparr>)) = pending s" "pending (s\<lparr>ws_handlers := hs\<rparr>) = pending s" for h f q hs
    by (simp_all add: pending_def fun_eq_iff)
  from assms(1) show ?thesis
  proof (cases rule: ws_step.cases)
    case connect
    have "handler_ok s' h" if "h < length (ws_handlers s)" for h
      using at[OF that] that by (rule_tac handler_untouched[of s]) (simp_all add: connect pend nth_append)
    then show ?thesis
      by (auto simp: connect handlers_ok_all less_Suc_eq) (simp add: handler_ok_def handler_new_def)
  next
    case (publish m q)
    have "handler_ok s' h" if "h < length (ws_handlers s)" for h
      using at[OF that] by (rule handler_untouched) (simp_all add: publish pend)
    then show ?thesis by (simp add: publish handlers_ok_all)
  next
    case (ask h q)
    show ?thesis unfolding ask(1)
      by (rule handlers_one[OF ok, of _ h "(ws_handlers s ! h)\<lparr>hn_phase := AwaitReply\<rparr>"])
        (use ask(3) at[OF ask(2)] ask(2) in \<open>auto simp: pend handler_ok_def\<close>)
  next
    case (broker_take e q order)
    then show ?thesis using handlers_take[OF assms(2)] by simp
  next
    case (broker_send m h hs x)
    then show ?thesis using handlers_send[OF assms(2)] by simp
  next
    case (broker_sent m)
    have "pending s' = pending s" by (simp add: broker_sent pending_def fun_eq_iff)
    then have "handler_ok s' h" if "h < length (ws_handlers s)" for h
      using at[OF that] by (rule_tac handler_untouched[of s]) (simp_all add: broker_sent(1))
    then show ?thesis by (simp add: broker_sent(1) handlers_ok_all)
  next
    case (send h u ok')
    show ?thesis unfolding send(1)
      by (rule handlers_one[OF ok, of _ h "handler_send ok' (ws_handlers s ! h)"])
        (use send(3,4) at[OF send(2)] send(2) in \<open>auto simp: pend handler_ok_def handler_send_def follows_def Let_def split: list.splits\<close>)
  next
    case (client_leaves h)
    have "handler_ok s' h"
      using at[OF client_leaves(2)] client_leaves(2)
      by (cases "hn_phase (ws_handlers s ! h)") (auto simp: client_leaves(1) pend handler_ok_def follows_def Let_def)
    then show ?thesis unfolding client_leaves(1)
      by (intro handlers_one[OF ok, of _ h "(ws_handlers s ! h)\<lparr>hn_shutdown := shutdown (hn_phase (ws_handlers s ! h) \<noteq> Gone) (hn_shutdown (ws_handlers s ! h))\<rparr>"])
        (simp_all add: pend)
  next
    case (close h u)
    show ?thesis unfolding close(1)
      by (rule handlers_one[OF ok, of _ h "handler_close (ws_handlers s ! h)"])
        (use close(3) at[OF close(2)] close(2) in \<open>auto simp: pend handler_ok_def handler_close_def\<close>)
  next
    case (leave h u q)
    show ?thesis unfolding leave(1)
      by (rule handlers_one[OF ok, of _ h "(ws_handlers s ! h)\<lparr>hn_phase := Gone\<rparr>"])
        (use at[OF leave(2)] leave(2) in \<open>auto simp: pend handler_ok_def\<close>)
  qed
qed

lemma ws_inv_step: "ws_step s s' \<Longrightarrow> ws_inv s \<Longrightarrow> ws_inv s'"
  using bounded_step observers_step sending_step subscribers_step leavers_step handlers_step
  by (auto simp: ws_inv_def)

lemma ws_inv_run: "ws_run s s' \<Longrightarrow> ws_inv s \<Longrightarrow> ws_inv s'"
  by (induction rule: ws_run.induct) (auto dest: ws_inv_step)

lemma filter_key: "distinct (map snd ps) \<Longrightarrow> (u, h) \<in> set ps \<Longrightarrow> filter (\<lambda>p. snd p = h) ps = [(u, h)]"
proof (induction ps)
  case (Cons p ps)
  show ?case
  proof (cases "p = (u, h)")
    case True
    with Cons.prems(1) have "\<forall>q \<in> set ps. snd q \<noteq> h" by (auto simp: image_iff)
    with True show ?thesis by (simp add: filter_empty_conv)
  next
    case False
    with Cons.prems have "(u, h) \<in> set ps" "snd p \<noteq> h" by (auto simp: image_iff)
    with Cons show ?thesis by simp
  qed
qed simp

text \<open>
  C33. Every message reaches every observer once and in order, for every interleaving: what a running handler
  has sent to its client, what is in its mailbox, and the message the broker is about to give it, are together
  exactly the messages the broker took since the handler was subscribed; and no mailbox holds more than 32.
\<close>

theorem observer_delivery:
  assumes "ws_run broker_start s" "h < length (ws_handlers s)" "hn_phase (ws_handlers s ! h) = Running u"
  shows "hn_sent (ws_handlers s ! h) @ map env_message (hn_queue (ws_handlers s ! h)) @ pending s h
      = drop (hn_start (ws_handlers s ! h)) (wb_log s)
    \<and> filter (\<lambda>p. snd p = h) (wb_observers s) = [(u, h)]
    \<and> length (hn_queue (ws_handlers s ! h)) \<le> 32 \<and> length (wb_queue s) \<le> 32"
proof -
  have inv: "ws_inv s" using ws_inv_run[OF assms(1) ws_inv_start] .
  then have "handler_ok s h" "observers_ok s" "bounded s" using assms(2) by (auto simp: ws_inv_def handlers_ok_all)
  moreover from this have "filter (\<lambda>p. snd p = h) (wb_observers s) = [(u, h)]"
    using assms(2,3) by (intro filter_key) (auto simp: observers_ok_def handler_ok_def)
  ultimately show ?thesis
    using assms(2,3) by (auto simp: handler_ok_def follows_def Let_def observers_ok_def bounded_def mailbox_def)
qed

theorem observer_delivery_witness:
  "hn_sent (ws_handlers (one_observer 3) ! 0) @ map env_message (hn_queue (ws_handlers (one_observer 3) ! 0)) @ pending (one_observer 3) 0
    = [''m'', ''m'', ''m'']"
  using observer_delivery[OF one_observer_many[of 3], of 0 0]
  by (simp add: one_observer_def mailbox_def numeral_eq_Suc)

end
