(* ===== verification/Request_Log.thy ===== *)
theory Request_Log
  imports Auth_Service Directory_Http
begin

text \<open>
  What the two HTTP services write to their logs: the entries that the functions given to the log layer
  make of a request and of a response (auth/src/main.rs, directory/src/main.rs), as values. Their text is
  how Rust shows such a value. In auth the layer stands below the one for proxies and above the one for
  cross-origin headers; in directory it is the outermost, above the check of tokens.
\<close>

text \<open>The headers of a list of names that a request has, the first of each name.\<close>

definition picked_headers :: "string list \<Rightarrow> header_map \<Rightarrow> header_map" where
  "picked_headers names hs = List.map_filter (\<lambda>n. map_option (Pair n) (header_get hs n)) names"

definition logged_names :: "string list" where
  "logged_names = [''content-type'', ''cookie'', ''authorization'', ''user-agent'', ''origin'']"

section \<open>The auth service\<close>

record auth_request_log =
  al_method :: http_method
  al_peer :: ip
  al_headers :: header_map

definition auth_on_request :: "auth_exts http_request \<Rightarrow> auth_request_log" where
  "auth_on_request req =
     \<lparr>al_method = hq_method req,
      al_peer = opt_default NotDefined (map_option proxy_peer (ex_proxy (hq_ext req))),
      al_headers = picked_headers logged_names (hq_headers req)\<rparr>"

record response_log =
  rl_status :: nat
  rl_millis :: nat
  rl_headers :: header_map

definition auth_on_response :: "payload http_response \<Rightarrow> nat \<Rightarrow> response_log" where
  "auth_on_response resp elapsed =
     \<lparr>rl_status = hr_status resp, rl_millis = elapsed, rl_headers = hr_headers resp\<rparr>"

section \<open>The directory service\<close>

text \<open>Its headers are collected into a hash table; here a list without repetition.\<close>

record dir_request_log =
  dl_path :: string
  dl_method :: http_method
  dl_peer :: "peer option"
  dl_headers :: header_map

definition dir_on_request :: "dir_request \<Rightarrow> dir_request_log" where
  "dir_on_request req =
     \<lparr>dl_path = hq_path req, dl_method = hq_method req, dl_peer = ex_peer (hq_ext req),
      dl_headers = header_extend (picked_headers logged_names (hq_headers req)) []\<rparr>"

definition dir_on_response :: "string http_response \<Rightarrow> nat \<Rightarrow> response_log" where
  "dir_on_response resp elapsed =
     \<lparr>rl_status = hr_status resp, rl_millis = elapsed, rl_headers = hr_headers resp\<rparr>"

section \<open>Tokens in the log\<close>

lemma picked_get: "header_get (picked_headers names hs) n = (if n \<in> set names then header_get hs n else None)"
proof (induction names)
  case (Cons m names)
  then show ?case
    by (cases "header_get hs m") (auto simp: picked_headers_def map_filter_simps)
qed (simp add: picked_headers_def map_filter_simps)

lemma picked_distinct: "distinct names \<Longrightarrow> distinct (map fst (picked_headers names hs))"
proof (induction names)
  case (Cons m names)
  have "n \<in> set names" if "(n, v) \<in> set (picked_headers names hs)" for n v
    using that by (auto simp: picked_headers_def map_filter_def)
  then have "m \<notin> fst ` set (picked_headers names hs)" using Cons.prems by auto
  with Cons show ?case by (auto simp: picked_headers_def map_filter_simps split: option.split)
qed (simp add: picked_headers_def map_filter_simps)

lemma logged_distinct: "distinct (map fst (picked_headers logged_names hs))"
  by (rule picked_distinct) (simp add: logged_names_def)

text \<open>Only two headers decide which token is found.\<close>

lemma token_headers:
  assumes "header_get hs ''cookie'' = header_get hs' ''cookie''"
    and "header_get hs ''authorization'' = header_get hs' ''authorization''"
  shows "get_token jwt_both_search hs = get_token jwt_both_search hs'"
proof -
  have "jwt_cookie_search hs = jwt_cookie_search hs'" using assms(1) by (simp add: jwt_cookie_search_def)
  moreover have "jwt_header_search hs = jwt_header_search hs'" using assms(2) by (simp add: jwt_header_search_def)
  ultimately show ?thesis by (simp only: get_token_def jwt_both_search_def)
qed


end
