(* ===== verification/Cowed.thy ===== *)
theory Cowed
  imports Keys
begin

text \<open>
  The names of buckets, keys and segments as the code holds them (directory/src/bucket/mod.rs, key.rs): a
  \<^verbatim>\<open>Cow\<close>, a text that is borrowed from somewhere or owned. The trait \<^verbatim>\<open>Cowed\<close> turns one into another; what it
  promises, that the text stays and that an owned value borrows nothing, is the locale \<open>cowed\<close>. The other
  theories work with the texts (Keys), which is sound because \<open>bucket_of\<close>, \<open>key_of\<close> and \<open>segment_of\<close> do not
  see the difference, and neither do equality, order and display.
\<close>

datatype cow = Borrowed string | Owned string

fun cow_str :: "cow \<Rightarrow> string" where
  "cow_str (Borrowed s) = s"
| "cow_str (Owned s) = s"

fun is_owned :: "cow \<Rightarrow> bool" where
  "is_owned (Borrowed s) \<longleftrightarrow> False"
| "is_owned (Owned s) \<longleftrightarrow> True"

text \<open>\<^verbatim>\<open>Cow::into_owned\<close> takes the text, \<^verbatim>\<open>Cow::to_mut\<close> leaves an owned one that is then changed by \<open>f\<close>.\<close>

definition cow_into_owned :: "cow \<Rightarrow> string" where
  "cow_into_owned c = cow_str c"

definition cow_to_mut :: "(string \<Rightarrow> string) \<Rightarrow> cow \<Rightarrow> cow" where
  "cow_to_mut f c = Owned (f (cow_str c))"

section \<open>The trait\<close>

locale cowed =
  fixes inner :: "'a \<Rightarrow> cow"
    and borrow owned cloned :: "'a \<Rightarrow> 'a"
  assumes borrow_text: "cow_str (inner (borrow x)) = cow_str (inner x)"
    and owned_text: "cow_str (inner (owned x)) = cow_str (inner x)"
    and cloned_text: "cow_str (inner (cloned x)) = cow_str (inner x)"
    and owned_owns: "is_owned (inner (owned x))"
    and cloned_owns: "is_owned (inner (cloned x))"
begin

text \<open>What the code does with a name it was lent: a borrowed copy is made to own its text, or cloned.\<close>

lemma lent_name_kept:
  "cow_str (inner (owned (borrow x))) = cow_str (inner x)" "is_owned (inner (owned (borrow x)))"
  "cow_str (inner (cloned (borrow x))) = cow_str (inner x)" "is_owned (inner (cloned (borrow x)))"
  by (simp_all add: borrow_text owned_text cloned_text owned_owns cloned_owns)

lemma cloned_owned: "inner (cloned x) = inner (owned x)"
  using owned_text[of x] cloned_text[of x] owned_owns[of x] cloned_owns[of x]
  by (cases "inner (owned x)"; cases "inner (cloned x)") auto

end

section \<open>Buckets\<close>

datatype cow_bucket = CowBucket (bucket_cow: cow)

definition bucket_text :: "cow_bucket \<Rightarrow> string" where
  "bucket_text b = cow_str (bucket_cow b)"

definition bucket_into_inner :: "cow_bucket \<Rightarrow> string" where
  "bucket_into_inner b = cow_into_owned (bucket_cow b)"

definition bucket_name_mut :: "(string \<Rightarrow> string) \<Rightarrow> cow_bucket \<Rightarrow> cow_bucket" where
  "bucket_name_mut f b = CowBucket (cow_to_mut f (bucket_cow b))"

definition bucket_borrow :: "cow_bucket \<Rightarrow> cow_bucket" where
  "bucket_borrow b = CowBucket (Borrowed (cow_str (bucket_cow b)))"

definition bucket_owned :: "cow_bucket \<Rightarrow> cow_bucket" where
  "bucket_owned b = CowBucket (Owned (cow_into_owned (bucket_cow b)))"

definition bucket_cloned :: "cow_bucket \<Rightarrow> cow_bucket" where
  "bucket_cloned b = CowBucket (Owned (cow_str (bucket_cow b)))"

definition bucket_clone :: "cow_bucket \<Rightarrow> cow_bucket" where
  "bucket_clone b = bucket_cloned b"

definition bucket_display :: "cow_bucket \<Rightarrow> string" where
  "bucket_display b = cow_str (bucket_cow b)"

interpretation cow_buckets: cowed bucket_cow bucket_borrow bucket_owned bucket_cloned
  by unfold_locales (simp_all add: bucket_borrow_def bucket_owned_def bucket_cloned_def cow_into_owned_def)

definition bucket_of :: "cow_bucket \<Rightarrow> bucket" where
  "bucket_of b = Bucket (bucket_text b)"

section \<open>Keys\<close>

datatype cow_key = CowKey (key_cow: cow)

definition key_new :: "cow \<Rightarrow> cow_key" where
  "key_new c = CowKey c"

definition key_text :: "cow_key \<Rightarrow> string" where
  "key_text k = cow_str (key_cow k)"

definition key_inner :: "cow_key \<Rightarrow> string" where
  "key_inner k = cow_into_owned (key_cow k)"

definition key_borrow :: "cow_key \<Rightarrow> cow_key" where
  "key_borrow k = CowKey (Borrowed (cow_str (key_cow k)))"

definition key_owned :: "cow_key \<Rightarrow> cow_key" where
  "key_owned k = CowKey (Owned (cow_into_owned (key_cow k)))"

definition key_cloned :: "cow_key \<Rightarrow> cow_key" where
  "key_cloned k = CowKey (Owned (cow_str (key_cow k)))"

definition key_clone :: "cow_key \<Rightarrow> cow_key" where
  "key_clone k = key_cloned k"

definition key_display :: "cow_key \<Rightarrow> string" where
  "key_display k = cow_str (key_cow k)"

interpretation cow_keys: cowed key_cow key_borrow key_owned key_cloned
  by unfold_locales (simp_all add: key_borrow_def key_owned_def key_cloned_def cow_into_owned_def)

definition key_of :: "cow_key \<Rightarrow> bkey" where
  "key_of k = Key (key_text k)"

section \<open>Segments\<close>

datatype cow_segment = CowSegment (segment_cow: cow)

definition segment_new :: "cow \<Rightarrow> cow_segment" where
  "segment_new c = CowSegment c"

definition segment_text :: "cow_segment \<Rightarrow> string" where
  "segment_text s = cow_str (segment_cow s)"

definition segment_borrow :: "cow_segment \<Rightarrow> cow_segment" where
  "segment_borrow s = CowSegment (Borrowed (cow_str (segment_cow s)))"

definition segment_owned :: "cow_segment \<Rightarrow> cow_segment" where
  "segment_owned s = CowSegment (Owned (cow_into_owned (segment_cow s)))"

definition segment_cloned :: "cow_segment \<Rightarrow> cow_segment" where
  "segment_cloned s = CowSegment (Owned (cow_str (segment_cow s)))"

definition segment_display :: "cow_segment \<Rightarrow> string" where
  "segment_display s = cow_str (segment_cow s)"

interpretation cow_segments: cowed segment_cow segment_borrow segment_owned segment_cloned
  by unfold_locales (simp_all add: segment_borrow_def segment_owned_def segment_cloned_def cow_into_owned_def)

definition segment_of :: "cow_segment \<Rightarrow> segment" where
  "segment_of s = Segment (segment_text s)"

section \<open>The names behind\<close>

text \<open>Each operation on the names the code holds is the one on texts, which for copies is no operation at all.\<close>

lemmas cow_texts = bucket_of_def key_of_def segment_of_def bucket_text_def key_text_def segment_text_def

lemma names_kept:
  "bucket_of (bucket_borrow b) = bucket_of b" "bucket_of (bucket_owned b) = bucket_of b"
  "bucket_of (bucket_cloned b) = bucket_of b" "bucket_of (bucket_clone b) = bucket_of b"
  "key_of (key_borrow k) = key_of k" "key_of (key_owned k) = key_of k" "key_of (key_cloned k) = key_of k"
  "key_of (key_clone k) = key_of k"
  "segment_of (segment_borrow s) = segment_of s" "segment_of (segment_owned s) = segment_of s"
  "segment_of (segment_cloned s) = segment_of s"
  by (simp_all add: cow_texts bucket_clone_def key_clone_def cow_buckets.borrow_text cow_buckets.owned_text cow_buckets.cloned_text
      cow_keys.borrow_text cow_keys.owned_text cow_keys.cloned_text cow_segments.borrow_text cow_segments.owned_text cow_segments.cloned_text)

lemma names_shown:
  "bucket_display b = bucket_name (bucket_of b)" "bucket_into_inner b = bucket_name (bucket_of b)"
  "key_display k = key_name (key_of k)" "key_inner k = key_name (key_of k)"
  "segment_display s = seg_str (segment_of s)"
  by (simp_all add: cow_texts bucket_display_def key_display_def segment_display_def bucket_into_inner_def
      key_inner_def cow_into_owned_def)

lemma name_changed:
  "bucket_of (bucket_name_mut f b) = Bucket (f (bucket_name (bucket_of b)))" "is_owned (bucket_cow (bucket_name_mut f b))"
  by (simp_all add: bucket_name_mut_def cow_to_mut_def cow_texts)

lemma names_compared:
  "bucket_text a < bucket_text b \<longleftrightarrow> bucket_cmp (bucket_of a) (bucket_of b) = Less"
  "bucket_text a = bucket_text b \<longleftrightarrow> bucket_eq (bucket_of a) (bucket_text b)"
  by (auto simp: bucket_cmp_def str_cmp_def bucket_eq_def bucket_of_def)

end
