(* ===== verification/Upload_Buffer.thy ===== *)
theory Upload_Buffer
  imports Prelude
begin

text \<open>
  The write buffer of the upload service (\<^verbatim>\<open>Buffer\<close>, upload_files/src/stream_upload/mod.rs):
  small writes are collected, large ones go through. The file below it is a parameter \<open>wr\<close>: what
  one \<^verbatim>\<open>poll_write\<close> answers and does to its state. \<open>async_writer\<close> states the contract of such
  a writer; the buffer over a writer that keeps it keeps it too, with the bytes it holds back
  counted as written.
\<close>

datatype 'a poll = Pending | Ready 'a

datatype io_error = WriteZeroKind | StorageFullKind | UnexpectedEofKind | OtherKind string

type_synonym 'w write_fn = "'w \<Rightarrow> string \<Rightarrow> ((io_error + nat) poll \<times> 'w) run"

record 'w buffer =
  bf_inner :: 'w
  bf_bytes :: string
  bf_capacity :: nat

definition default_buffer :: nat where
  "default_buffer = 8 * 1024"

definition buffer_new :: "'w \<Rightarrow> 'w buffer" where
  "buffer_new w = \<lparr>bf_inner = w, bf_bytes = [], bf_capacity = default_buffer\<rparr>"

text \<open>
  \<^verbatim>\<open>write_flush\<close>: write until nothing is left. A write of no bytes is an error, one of more
  bytes than there are a panic, so that every turn that goes on shortens what is left.
\<close>

function write_flush :: "'w write_fn \<Rightarrow> 'w \<Rightarrow> string \<Rightarrow> ((io_error + unit) poll \<times> 'w \<times> string) run" where
  "write_flush wr w bytes =
     (if bytes = [] then Inr (Ready (Inr ()), w, bytes)
      else
        (case wr w bytes of
           Inl p \<Rightarrow> Inl p
         | Inr (Ready (Inr n), w') \<Rightarrow>
             if n = 0 then Inr (Ready (Inl UnexpectedEofKind), w', bytes)
             else if length bytes < n then Inl ExplicitPanic
             else write_flush wr w' (drop n bytes)
         | Inr (Ready (Inl e), w') \<Rightarrow> Inr (Ready (Inl e), w', bytes)
         | Inr (Pending, w') \<Rightarrow> Inr (Pending, w', bytes)))"
  by pat_completeness auto
termination
  by (relation "measure (\<lambda>(wr, w, bytes). length bytes)") auto

declare write_flush.simps [simp del]

definition buffer_write_flush :: "'w write_fn \<Rightarrow> 'w buffer \<Rightarrow> ((io_error + unit) poll \<times> 'w buffer) run" where
  "buffer_write_flush wr b =
     and_then (write_flush wr (bf_inner b) (bf_bytes b))
       (\<lambda>(r, w, bytes). Inr (r, b\<lparr>bf_inner := w, bf_bytes := bytes\<rparr>))"

definition buffer_store :: "'w write_fn \<Rightarrow> 'w buffer \<Rightarrow> string \<Rightarrow> ((io_error + nat) poll \<times> 'w buffer) run" where
  "buffer_store wr b buf =
     (if bf_capacity b \<le> length buf
      then and_then (wr (bf_inner b) buf) (\<lambda>(r, w). Inr (r, b\<lparr>bf_inner := w\<rparr>))
      else Inr (Ready (Inr (length buf)), b\<lparr>bf_bytes := bf_bytes b @ buf\<rparr>))"

definition buffer_poll_write :: "'w write_fn \<Rightarrow> 'w buffer \<Rightarrow> string \<Rightarrow> ((io_error + nat) poll \<times> 'w buffer) run" where
  "buffer_poll_write wr b buf =
     (if bf_capacity b \<le> length buf + length (bf_bytes b)
      then and_then (buffer_write_flush wr b) (\<lambda>(r, b').
             case r of
               Pending \<Rightarrow> Inr (Pending, b')
             | Ready (Inl e) \<Rightarrow> Inr (Ready (Inl e), b')
             | Ready (Inr _) \<Rightarrow> buffer_store wr b' buf)
      else buffer_store wr b buf)"

text \<open>
  \<^verbatim>\<open>poll_flush\<close> has no such test: a writer that keeps answering zero keeps it going. Its loop
  is a partial function, \<open>None\<close> when it does not return.
\<close>

partial_function (option) flush_loop ::
    "'w write_fn \<Rightarrow> 'w \<Rightarrow> string \<Rightarrow> ((io_error + unit) poll \<times> 'w \<times> string) run option" where
  "flush_loop wr w bytes =
     (if bytes = [] then Some (Inr (Ready (Inr ()), w, bytes))
      else
        (case wr w bytes of
           Inl p \<Rightarrow> Some (Inl p)
         | Inr (Ready (Inr n), w') \<Rightarrow>
             if length bytes < n then Some (Inl OutOfBounds)
             else flush_loop wr w' (drop n bytes)
         | Inr (Ready (Inl e), w') \<Rightarrow> Some (Inr (Ready (Inl e), w', bytes))
         | Inr (Pending, w') \<Rightarrow> Some (Inr (Pending, w', bytes))))"

text \<open>The flush of the file itself, after the loop, is the parameter \<open>fl\<close>.\<close>

definition buffer_poll_flush ::
    "'w write_fn \<Rightarrow> ('w \<Rightarrow> (io_error + unit) poll \<times> 'w) \<Rightarrow> 'w buffer
     \<Rightarrow> ((io_error + unit) poll \<times> 'w buffer) run option" where
  "buffer_poll_flush wr fl b =
     (case flush_loop wr (bf_inner b) (bf_bytes b) of
        None \<Rightarrow> None
      | Some (Inl p) \<Rightarrow> Some (Inl p)
      | Some (Inr (Ready (Inr _), w, bytes)) \<Rightarrow>
          (case fl w of (r, w') \<Rightarrow> Some (Inr (r, b\<lparr>bf_inner := w', bf_bytes := bytes\<rparr>)))
      | Some (Inr (r, w, bytes)) \<Rightarrow> Some (Inr (r, b\<lparr>bf_inner := w, bf_bytes := bytes\<rparr>)))"

definition buffer_poll_shutdown ::
    "'w write_fn \<Rightarrow> ('w \<Rightarrow> (io_error + unit) poll \<times> 'w) \<Rightarrow> ('w \<Rightarrow> (io_error + unit) poll \<times> 'w) \<Rightarrow> 'w buffer
     \<Rightarrow> ((io_error + unit) poll \<times> 'w buffer) run option" where
  "buffer_poll_shutdown wr fl sh b =
     (case buffer_poll_flush wr fl b of
        Some (Inr (Ready (Inr _), b')) \<Rightarrow>
          (case sh (bf_inner b') of (r, w) \<Rightarrow> Some (Inr (r, b'\<lparr>bf_inner := w\<rparr>)))
      | r \<Rightarrow> r)"

section \<open>The contract of a writer\<close>

locale async_writer =
  fixes wr :: "'w write_fn"
    and written :: "'w \<Rightarrow> string"
  assumes no_panic: "\<exists>r w'. wr w buf = Inr (r, w')"
    and accepted: "wr w buf = Inr (Ready (Inr n), w') \<Longrightarrow> n \<le> length buf \<and> written w' = written w @ take n buf"
    and refused: "wr w buf = Inr (r, w') \<Longrightarrow> (\<nexists>n. r = Ready (Inr n)) \<Longrightarrow> written w' = written w"
begin

lemma writer_cases:
  obtains (Accept) n w' where "wr w buf = Inr (Ready (Inr n), w')" "n \<le> length buf"
      "written w' = written w @ take n buf"
    | (Fails) e w' where "wr w buf = Inr (Ready (Inl e), w')" "written w' = written w"
    | (Waits) w' where "wr w buf = Inr (Pending, w')" "written w' = written w"
proof -
  obtain r w' where r: "wr w buf = Inr (r, w')" using no_panic by blast
  show thesis
  proof (cases r)
    case Pending
    with r refused that(3) show thesis by blast
  next
    case (Ready x)
    with r accepted refused that(1,2) show thesis by (cases x) blast+
  qed
qed

text \<open>What is written and what is left make the same text throughout the loop.\<close>

lemma write_flush_written:
  "\<exists>r w' rest. write_flush wr w bytes = Inr (r, w', rest) \<and> written w' @ rest = written w @ bytes
     \<and> (r = Ready (Inr ()) \<longrightarrow> rest = [])"
proof (induction "length bytes" arbitrary: w bytes rule: less_induct)
  case less
  show ?case
  proof (cases "bytes = []")
    case False
    show ?thesis
    proof (cases rule: writer_cases[of w bytes])
      case (Accept n w')
      then show ?thesis
        using False less[of "drop n bytes" w'] by (auto simp: write_flush.simps[of wr w bytes])
    qed (use False in \<open>auto simp: write_flush.simps[of wr w bytes]\<close>)
  qed (simp add: write_flush.simps)
qed

lemma flush_loop_written:
  assumes "flush_loop wr w bytes = Some res"
  shows "\<exists>r w' rest. res = Inr (r, w', rest) \<and> written w' @ rest = written w @ bytes
     \<and> (r = Ready (Inr ()) \<longrightarrow> rest = [])"
proof -
  let ?P = "\<lambda>wr' w bytes res. wr' = wr \<longrightarrow> (\<exists>r w' rest. res = Inr (r, w', rest)
     \<and> written w' @ rest = written w @ bytes \<and> (r = Ready (Inr ()) \<longrightarrow> rest = []))"
  have "?P wr w bytes res"
  proof (rule flush_loop.raw_induct[where P = ?P, OF _ assms], rule impI)
    fix f :: "'w write_fn \<Rightarrow> 'w \<Rightarrow> string \<Rightarrow> ((io_error + unit) poll \<times> 'w \<times> string) run option" and wr' w bytes res
    assume IH: "\<And>wr' w bytes res. f wr' w bytes = Some res \<Longrightarrow> ?P wr' w bytes res"
      and body: "(if bytes = [] then Some (Inr (Ready (Inr ()), w, bytes))
        else (case wr' w bytes of
             Inl p \<Rightarrow> Some (Inl p)
           | Inr (Ready (Inr n), w') \<Rightarrow>
               if length bytes < n then Some (Inl OutOfBounds) else f wr' w' (drop n bytes)
           | Inr (Ready (Inl e), w') \<Rightarrow> Some (Inr (Ready (Inl e), w', bytes))
           | Inr (Pending, w') \<Rightarrow> Some (Inr (Pending, w', bytes)))) = Some res"
      and wr': "wr' = wr"
    show "\<exists>r w' rest. res = Inr (r, w', rest) \<and> written w' @ rest = written w @ bytes
      \<and> (r = Ready (Inr ()) \<longrightarrow> rest = [])"
    proof (cases "bytes = []")
      case True
      with body show ?thesis by auto
    next
      case False
      show ?thesis
      proof (cases rule: writer_cases[of w bytes])
        case (Accept n w')
        with body False wr' have "f wr w' (drop n bytes) = Some res" by (simp split: if_splits)
        from IH[OF this] Accept(2,3) show ?thesis by auto
      qed (use body False wr' in auto)
    qed
  qed
  then show ?thesis by simp
qed

text \<open>What the buffer has taken: what went through and what it holds back.\<close>

definition taken :: "'w buffer \<Rightarrow> string" where
  "taken b = written (bf_inner b) @ bf_bytes b"

lemma buffer_write_flush_taken:
  "\<exists>r b'. buffer_write_flush wr b = Inr (r, b') \<and> taken b' = taken b \<and> bf_capacity b' = bf_capacity b
     \<and> (r = Ready (Inr ()) \<longrightarrow> bf_bytes b' = [])"
proof -
  obtain r w' rest where "write_flush wr (bf_inner b) (bf_bytes b) = Inr (r, w', rest)"
    "written w' @ rest = written (bf_inner b) @ bf_bytes b" "r = Ready (Inr ()) \<longrightarrow> rest = []"
    using write_flush_written[of "bf_inner b" "bf_bytes b"] by blast
  then show ?thesis by (simp add: buffer_write_flush_def taken_def)
qed

lemma buffer_store_cases:
  assumes "bf_bytes b = [] \<or> length buf < bf_capacity b"
  shows "\<exists>r b'. buffer_store wr b buf = Inr (r, b') \<and> bf_capacity b' = bf_capacity b
    \<and> (case r of Ready (Inr n) \<Rightarrow> n \<le> length buf \<and> taken b' = taken b @ take n buf
         \<and> (length buf < bf_capacity b \<longrightarrow> n = length buf \<and> bf_bytes b' = bf_bytes b @ buf)
         \<and> (bf_capacity b \<le> length buf \<longrightarrow> bf_bytes b' = [])
       | _ \<Rightarrow> taken b' = taken b \<and> bf_bytes b' = bf_bytes b)"
proof (cases "bf_capacity b \<le> length buf")
  case True
  with assms have "bf_bytes b = []" by auto
  then show ?thesis
    using True by (cases rule: writer_cases[of "bf_inner b" buf]) (auto simp: buffer_store_def taken_def)
next
  case False
  then show ?thesis by (auto simp: buffer_store_def taken_def)
qed

lemma buffer_poll_write_spec:
  "\<exists>r b'. buffer_poll_write wr b buf = Inr (r, b') \<and> bf_capacity b' = bf_capacity b
    \<and> (case r of Ready (Inr n) \<Rightarrow> n \<le> length buf \<and> taken b' = taken b @ take n buf
         \<and> (0 < bf_capacity b \<longrightarrow> length (bf_bytes b') < bf_capacity b)
         \<and> (length buf < bf_capacity b \<longrightarrow> n = length buf)
       | _ \<Rightarrow> taken b' = taken b)"
proof (cases "bf_capacity b \<le> length buf + length (bf_bytes b)")
  case False
  then show ?thesis
    by (auto simp: buffer_poll_write_def buffer_store_def taken_def)
next
  case True
  obtain r b1 where f: "buffer_write_flush wr b = Inr (r, b1)" "taken b1 = taken b"
    "bf_capacity b1 = bf_capacity b" "r = Ready (Inr ()) \<longrightarrow> bf_bytes b1 = []"
    using buffer_write_flush_taken[of b] by blast
  show ?thesis
  proof (cases "r = Ready (Inr ())")
    case True
    then have e: "bf_bytes b1 = []" using f by simp
    obtain r2 b2 where s: "buffer_store wr b1 buf = Inr (r2, b2)" "bf_capacity b2 = bf_capacity b1"
      "case r2 of Ready (Inr n) \<Rightarrow> n \<le> length buf \<and> taken b2 = taken b1 @ take n buf
         \<and> (length buf < bf_capacity b1 \<longrightarrow> n = length buf \<and> bf_bytes b2 = bf_bytes b1 @ buf)
         \<and> (bf_capacity b1 \<le> length buf \<longrightarrow> bf_bytes b2 = [])
       | _ \<Rightarrow> taken b2 = taken b1 \<and> bf_bytes b2 = bf_bytes b1"
      using buffer_store_cases[of b1 buf] e by blast
    have "buffer_poll_write wr b buf = Inr (r2, b2)"
      using f True s(1) \<open>bf_capacity b \<le> length buf + length (bf_bytes b)\<close> by (simp add: buffer_poll_write_def)
    moreover have "case r2 of Ready (Inr n) \<Rightarrow> n \<le> length buf \<and> taken b2 = taken b @ take n buf
         \<and> (0 < bf_capacity b \<longrightarrow> length (bf_bytes b2) < bf_capacity b)
         \<and> (length buf < bf_capacity b \<longrightarrow> n = length buf)
       | _ \<Rightarrow> taken b2 = taken b"
      using s(3) e f(2,3)
      by (auto simp: not_le split: poll.splits sum.splits)
    ultimately show ?thesis using s(2) f(3) by auto
  next
    case False
    then show ?thesis
      using f \<open>bf_capacity b \<le> length buf + length (bf_bytes b)\<close>
      by (auto simp: buffer_poll_write_def split: poll.splits sum.splits)
  qed
qed

end

text \<open>A buffer over a file that keeps the contract keeps it.\<close>

locale buffered_file = async_writer wr written
  for wr :: "'w write_fn" and written :: "'w \<Rightarrow> string"

sublocale buffered_file \<subseteq> buffered: async_writer "buffer_poll_write wr" taken
proof unfold_locales
  fix b buf
  show "\<exists>r b'. buffer_poll_write wr b buf = Inr (r, b')"
    using buffer_poll_write_spec by blast
next
  fix b buf n b'
  assume "buffer_poll_write wr b buf = Inr (Ready (Inr n), b')"
  then show "n \<le> length buf \<and> taken b' = taken b @ take n buf"
    using buffer_poll_write_spec[of b buf] by auto
next
  fix b buf r b'
  assume "buffer_poll_write wr b buf = Inr (r, b')" "\<nexists>n. r = Ready (Inr n)"
  then show "taken b' = taken b"
    using buffer_poll_write_spec[of b buf] by (auto split: poll.splits sum.splits)
qed

section \<open>A file that answers by a script\<close>

text \<open>
  Any finite sequence of answers the operating system may give: take some of the bytes, fail, not be
  ready; after the script it takes everything. What was taken is the content of the file.
\<close>

datatype answer = Takes nat | Fails io_error | NotReady

record script_file =
  sf_answers :: "answer list"
  sf_content :: string

fun script_write :: "script_file write_fn" where
  "script_write f buf =
     (case sf_answers f of
        [] \<Rightarrow> Inr (Ready (Inr (length buf)), f\<lparr>sf_content := sf_content f @ buf\<rparr>)
      | Takes n # as \<Rightarrow>
          Inr (Ready (Inr (min n (length buf))), f\<lparr>sf_answers := as, sf_content := sf_content f @ take n buf\<rparr>)
      | Fails e # as \<Rightarrow> Inr (Ready (Inl e), f\<lparr>sf_answers := as\<rparr>)
      | NotReady # as \<Rightarrow> Inr (Pending, f\<lparr>sf_answers := as\<rparr>))"

declare script_write.simps [simp del]

interpretation script: buffered_file script_write sf_content
proof unfold_locales
  fix w buf
  show "\<exists>r w'. script_write w buf = Inr (r, w')"
    by (auto simp: script_write.simps split: list.splits answer.splits)
next
  fix w buf n w'
  assume "script_write w buf = Inr (Ready (Inr n), w')"
  then show "n \<le> length buf \<and> sf_content w' = sf_content w @ take n buf"
    by (auto simp: script_write.simps min_def split: list.splits answer.splits)
next
  fix w buf r w'
  assume "script_write w buf = Inr (r, w')" "\<nexists>n. r = Ready (Inr n)"
  then show "sf_content w' = sf_content w"
    by (auto simp: script_write.simps split: list.splits answer.splits)
qed

definition script_flush :: "script_file \<Rightarrow> (io_error + unit) poll \<times> script_file" where
  "script_flush f = (Ready (Inr ()), f)"

lemma script_taken: "script.taken b = sf_content (bf_inner b) @ bf_bytes b"
  by (simp add: script.taken_def)

lemma script_flush_returns: "\<exists>res. flush_loop script_write f bytes = Some res"
proof (induction "length (sf_answers f)" arbitrary: f bytes rule: less_induct)
  case less
  show ?case
  proof (cases "bytes = []")
    case True
    then show ?thesis by (simp add: flush_loop.simps)
  next
    case False
    show ?thesis
    proof (cases "sf_answers f")
      case Nil
      then show ?thesis
        using False by (simp add: flush_loop.simps[of _ _ bytes] script_write.simps flush_loop.simps[of _ _ "[]"])
    next
      case (Cons a as)
      then show ?thesis
        using False less[of "f\<lparr>sf_answers := as, sf_content := sf_content f @ c\<rparr>" for c]
        by (cases a) (simp_all add: flush_loop.simps[of _ _ bytes] script_write.simps)
    qed
  qed
qed

section \<open>Properties\<close>

text \<open>
  C15. Writing to the buffer never panics and loses nothing, whatever the file answers: the file's
  content with the bytes held back grows by exactly the bytes reported as written, which are all of
  them for a write smaller than the capacity, and fewer bytes than the capacity are ever held back.
\<close>

theorem buffer_write_exact:
  "\<exists>r b'. buffer_poll_write script_write b buf = Inr (r, b') \<and> bf_capacity b' = bf_capacity b
    \<and> (case r of
         Ready (Inr n) \<Rightarrow>
           n \<le> length buf
           \<and> sf_content (bf_inner b') @ bf_bytes b' = sf_content (bf_inner b) @ bf_bytes b @ take n buf
           \<and> (bf_capacity b = 0 \<or> length (bf_bytes b') < bf_capacity b)
           \<and> (bf_capacity b \<le> length buf \<or> n = length buf)
       | _ \<Rightarrow> sf_content (bf_inner b') @ bf_bytes b' = sf_content (bf_inner b) @ bf_bytes b)"
  using script.buffer_poll_write_spec[of b buf]
  by (fastforce simp: script_taken not_less[symmetric] split: poll.splits sum.splits)

text \<open>
  Flushing the buffer returns for every script of answers, and when it reports success nothing is
  held back and the file holds everything that was written to the buffer, in order.
\<close>

theorem buffer_flush_exact:
  "\<exists>r b'. buffer_poll_flush script_write script_flush b = Some (Inr (r, b'))
    \<and> sf_content (bf_inner b') @ bf_bytes b' = sf_content (bf_inner b) @ bf_bytes b
    \<and> (case r of Ready (Inr _) \<Rightarrow> bf_bytes b' = [] | _ \<Rightarrow> True)"
proof -
  obtain res where res: "flush_loop script_write (bf_inner b) (bf_bytes b) = Some res"
    using script_flush_returns by blast
  from script.flush_loop_written[OF this] obtain r w rest where
    r: "res = Inr (r, w, rest)" "sf_content w @ rest = sf_content (bf_inner b) @ bf_bytes b"
    "r = Ready (Inr ()) \<longrightarrow> rest = []" by blast
  show ?thesis
    using res r by (cases r) (auto simp: buffer_poll_flush_def script_flush_def split: sum.splits poll.splits)
qed

text \<open>
  On a file that accepts no bytes \<open>write_flush\<close> reports an error, but \<open>poll_flush\<close> of a buffer that
  holds bytes back never returns.
\<close>

theorem flush_of_stuck_file_diverges:
  assumes "bytes \<noteq> []"
  shows "flush_loop (\<lambda>w buf. Inr (Ready (Inr 0), w)) w bytes = None
    \<and> write_flush (\<lambda>w buf. Inr (Ready (Inr 0), w)) w bytes = Inr (Ready (Inl UnexpectedEofKind), w, bytes)"
proof -
  define stuck :: "'a write_fn" where "stuck = (\<lambda>w buf. Inr (Ready (Inr 0), w))"
  have "bytes = []" if "flush_loop stuck w bytes = Some res" for res
  proof -
    have "stuck = stuck \<longrightarrow> bytes = []"
      by (rule flush_loop.raw_induct[where P = "\<lambda>wr w bytes res. wr = stuck \<longrightarrow> bytes = []", OF _ that])
        (auto simp: stuck_def split: if_splits)
    then show ?thesis by simp
  qed
  then have "flush_loop stuck w bytes = None" using assms by (cases "flush_loop stuck w bytes") auto
  moreover have "write_flush stuck w bytes = Inr (Ready (Inl UnexpectedEofKind), w, bytes)"
    using assms by (simp add: write_flush.simps stuck_def)
  ultimately show ?thesis by (simp add: stuck_def)
qed

theorem flush_of_stuck_file_diverges_witness:
  "flush_loop (\<lambda>w buf. Inr (Ready (Inr 0), w)) () ''abc'' = None"
  using flush_of_stuck_file_diverges[of "''abc''" "()"] by simp

end
