(* ===== verification/Serving.thy ===== *)
theory Serving
  imports Proxy_Info Upload_Buffer
begin

text \<open>
  How the services take connections: the adapter of one runtime's readers and writers to another's and the
  executor (\<^verbatim>\<open>Io\<close>, \<^verbatim>\<open>TokioExecutor\<close> in utils/src/lib.rs), and the loops at the end of auth/src/main.rs,
  directory/src/main.rs and upload_files/src/main.rs.
\<close>

section \<open>The adapter\<close>

record 't io_adapter =
  io_inner :: 't

definition io_new :: "'t \<Rightarrow> 't io_adapter" where
  "io_new inner = \<lparr>io_inner = inner\<rparr>"

text \<open>
  The buffers of the two crates: a cursor \<open>'c\<close> lends its free memory \<open>'m\<close>, over which a buffer \<open>'b\<close> is made
  whose bytes are all uninitialised. When the loan ends the cursor has the memory that was written through
  the buffer; it takes bytes over only when it is advanced, which panics past its end.
\<close>

record ('c, 'm, 'b) read_buffers =
  rb_as_mut :: "'c \<Rightarrow> 'm"
  rb_uninit :: "'m \<Rightarrow> 'b"
  rb_filled :: "'b \<Rightarrow> string"
  rb_end_loan :: "'b \<Rightarrow> 'c \<Rightarrow> 'c"
  rb_advance :: "nat \<Rightarrow> 'c \<Rightarrow> 'c run"

type_synonym ('t, 'b, 'e) read_fn = "'t \<Rightarrow> 'b \<Rightarrow> ('e + unit) poll \<times> 't \<times> 'b"

definition io_poll_read ::
    "('c, 'm, 'b) read_buffers \<Rightarrow> ('t, 'b, 'e) read_fn \<Rightarrow> 't io_adapter \<Rightarrow> 'c
     \<Rightarrow> (('e + unit) poll \<times> 't io_adapter \<times> 'c) run" where
  "io_poll_read bs inner io c =
     (case inner (io_inner io) (rb_uninit bs (rb_as_mut bs c)) of
        (r, t, tbuf) \<Rightarrow>
          (let io' = io\<lparr>io_inner := t\<rparr>; c' = rb_end_loan bs tbuf c in
           case r of
             Ready (Inr _) \<Rightarrow>
               and_then (rb_advance bs (length (rb_filled bs tbuf)) c') (\<lambda>c''. Inr (Ready (Inr ()), io', c''))
           | e \<Rightarrow> Inr (e, io', c')))"

definition io_poll_write :: "('t \<Rightarrow> string \<Rightarrow> ('e + nat) poll \<times> 't) \<Rightarrow> 't io_adapter \<Rightarrow> string
    \<Rightarrow> ('e + nat) poll \<times> 't io_adapter" where
  "io_poll_write inner io buf = map_prod id (\<lambda>t. io\<lparr>io_inner := t\<rparr>) (inner (io_inner io) buf)"

definition io_poll_flush :: "('t \<Rightarrow> ('e + unit) poll \<times> 't) \<Rightarrow> 't io_adapter \<Rightarrow> ('e + unit) poll \<times> 't io_adapter" where
  "io_poll_flush inner io = map_prod id (\<lambda>t. io\<lparr>io_inner := t\<rparr>) (inner (io_inner io))"

definition io_poll_shutdown :: "('t \<Rightarrow> ('e + unit) poll \<times> 't) \<Rightarrow> 't io_adapter \<Rightarrow> ('e + unit) poll \<times> 't io_adapter" where
  "io_poll_shutdown inner io = map_prod id (\<lambda>t. io\<lparr>io_inner := t\<rparr>) (inner (io_inner io))"

text \<open>
  What the two crates document: \<open>content\<close> is what a cursor has taken over, \<open>room\<close> what is left of it. Lending
  changes neither; the filled part of a buffer is not longer than the memory it was made over, which a reader
  does not exchange; and advancing takes over what was written there.
\<close>

definition buffer_laws :: "('c, 'm, 'b) read_buffers \<Rightarrow> ('c \<Rightarrow> string) \<Rightarrow> ('c \<Rightarrow> nat) \<Rightarrow> ('b \<Rightarrow> nat) \<Rightarrow> bool" where
  "buffer_laws bs content room capacity \<longleftrightarrow>
     (\<forall>c. capacity (rb_uninit bs (rb_as_mut bs c)) = room c)
     \<and> (\<forall>b. length (rb_filled bs b) \<le> capacity b)
     \<and> (\<forall>b c. content (rb_end_loan bs b c) = content c)
     \<and> (\<forall>b c n. capacity b = room c \<longrightarrow> n \<le> length (rb_filled bs b) \<longrightarrow>
          (\<exists>c'. rb_advance bs n (rb_end_loan bs b c) = Inr c' \<and> content c' = content c @ take n (rb_filled bs b)))"

text \<open>
  Then a read never panics, and hands over exactly the bytes that the inner reader put into its buffer, all
  of them written, after those that were there; when the reader has none or fails, nothing changes.
\<close>

lemma io_read_exact:
  assumes laws: "buffer_laws bs content room capacity"
    and "inner (io_inner io) (rb_uninit bs (rb_as_mut bs c)) = (r, t, b)" "capacity b = room c"
  shows "\<exists>c'. io_poll_read bs inner io c = Inr (r, io\<lparr>io_inner := t\<rparr>, c')
    \<and> content c' = content c @ (if r = Ready (Inr ()) then rb_filled bs b else [])"
proof (cases "r = Ready (Inr ())")
  case True
  obtain c' where "rb_advance bs (length (rb_filled bs b)) (rb_end_loan bs b c) = Inr c'"
    "content c' = content c @ rb_filled bs b"
    using laws assms(3) unfolding buffer_laws_def by (metis order_refl take_all)
  with True assms(2) show ?thesis by (simp add: io_poll_read_def)
next
  case False
  then have "io_poll_read bs inner io c = Inr (r, io\<lparr>io_inner := t\<rparr>, rb_end_loan bs b c)"
    using assms(2) by (cases r; cases "case r of Ready x \<Rightarrow> x") (auto simp: io_poll_read_def split: sum.splits poll.splits)
  moreover have "content (rb_end_loan bs b c) = content c" using laws unfolding buffer_laws_def by blast
  ultimately show ?thesis using False by simp
qed

text \<open>Two cursors made of lists that keep the laws: the content, and the memory left with what is written in it.\<close>

definition list_buffers :: "(string \<times> string \<times> nat, nat, string \<times> nat) read_buffers" where
  "list_buffers = \<lparr>rb_as_mut = (\<lambda>(c, w, n). n), rb_uninit = (\<lambda>n. ([], n)), rb_filled = (\<lambda>(w, n). take n w),
     rb_end_loan = (\<lambda>(w, _) (c, _, n). (c, take n w, n)),
     rb_advance = (\<lambda>k (c, w, n). if k \<le> n then Inr (c @ take k w, drop k w, n - k) else Inl OutOfBounds)\<rparr>"

lemma list_buffers_laws: "buffer_laws list_buffers fst (\<lambda>(c, w, n). n) snd"
  by (auto simp: buffer_laws_def list_buffers_def)

lemma io_read_sample:
  "io_poll_read list_buffers (\<lambda>s (w, n). (Ready (Inr ()), drop n s, (take n s, n))) (io_new ''hello'') (''a'', [], 3)
   = Inr (Ready (Inr ()), io_new ''lo'', (''ahel'', [], 0))"
  by (simp add: io_poll_read_def list_buffers_def io_new_def)

text \<open>The executor hands a future to the runtime, whose tasks are listed here in the order they are spawned.\<close>

definition executor_execute :: "'f \<Rightarrow> 'f list \<Rightarrow> 'f list" where
  "executor_execute fut tasks = tasks @ [fut]"

section \<open>Accepting connections\<close>

text \<open>
  What accepting gives, one after the other: an error, or a stream with the address of its other end, if
  the system knows it. Each connection is served by a task of its own, which puts the peer into every
  request. The result is the connections served, and the error that main ends with, if it has ended.
\<close>

record 's connection =
  cn_io :: "'s io_adapter"
  cn_peer :: peer

definition connection_of :: "'s \<times> socket_addr option \<Rightarrow> 's connection" where
  "connection_of a = \<lparr>cn_io = io_new (fst a), cn_peer = Peer (snd a)\<rparr>"

fun accept_loop :: "('e + 's \<times> socket_addr option) list \<Rightarrow> 's connection list \<times> 'e option" where
  "accept_loop [] = ([], None)"
| "accept_loop (Inl e # rest) = ([], Some e)"
| "accept_loop (Inr a # rest) = apfst (Cons (connection_of a)) (accept_loop rest)"

text \<open>The loops of the directory and of the upload service are the same but for the service they serve.\<close>

definition dir_accept_loop :: "('e + 's \<times> socket_addr option) list \<Rightarrow> 's connection list \<times> 'e option" where
  "dir_accept_loop = accept_loop"

definition up_accept_loop :: "('e + 's \<times> socket_addr option) list \<Rightarrow> 's connection list \<times> 'e option" where
  "up_accept_loop = accept_loop"

text \<open>The first connection that cannot be accepted ends a service; until then every one is served, in order.\<close>

lemma accept_serves: "accept_loop (map Inr as) = (map connection_of as, None)"
  by (induction as) simp_all

lemma accept_ends: "accept_loop (map Inr as @ Inl e # rest) = (map connection_of as, Some e)"
  by (induction as) simp_all

lemma accept_ends_iff: "snd (accept_loop xs) = Some e \<longleftrightarrow> (\<exists>as rest. xs = map Inr as @ Inl e # rest)"
proof
  show "snd (accept_loop xs) = Some e \<Longrightarrow> \<exists>as rest. xs = map Inr as @ Inl e # rest"
  proof (induction xs rule: accept_loop.induct)
    case (3 a rest)
    then obtain as r where "rest = map Inr as @ Inl e # r" by (auto simp: apfst_def)
    then show ?case by (intro exI[of _ "a # as"] exI[of _ r]) simp
  next
    case (2 e' rest)
    then show ?case by (intro exI[of _ "[]"] exI[of _ rest]) simp
  qed simp
qed (auto simp: accept_ends)

end
