(* ===== verification/Upload_Stream.thy ===== *)
theory Upload_Stream
  imports Upload_Buffer
begin

text \<open>
  Receiving a multipart body into files (upload_files/src/stream_upload): \<open>stream_next\<close> is
  \<^verbatim>\<open>StreamUpload::poll_next\<close>, which turns the parts of the body into a stream of new files,
  chunks and ends; \<open>upload_step\<close> is one turn of the loop of \<^verbatim>\<open>Upload::poll_next\<close>, the state
  machine that writes them.

  The \<^verbatim>\<open>multer\<close> parser and the operating system are scripts: the list of what the parser will
  answer, for each part its headers and the list of what its body will answer; and what opening a file
  gives. The clock is an argument. A \<^verbatim>\<open>mime::Mime\<close> is its type, its subtype and the rest.
\<close>

section \<open>Errors and files\<close>

record mime =
  mm_type :: string
  mm_subtype :: string
  mm_rest :: string

datatype upload_error =
    MimeNotAllowed string mime
  | UnexpectedEof
  | WriteZero
  | FileNameNotFound
  | MimeNotFound string
  | Multer string
  | StorageFull
  | Io string
  | BufferNotDefined

definition upload_error_of_multer :: "string \<Rightarrow> upload_error" where
  "upload_error_of_multer e = Multer e"

definition upload_error_of_io :: "io_error \<Rightarrow> upload_error" where
  "upload_error_of_io e =
     (case e of
        WriteZeroKind \<Rightarrow> WriteZero
      | StorageFullKind \<Rightarrow> StorageFull
      | UnexpectedEofKind \<Rightarrow> UnexpectedEof
      | OtherKind s \<Rightarrow> Io s)"

definition upload_error_display :: "(mime \<Rightarrow> string) \<Rightarrow> upload_error \<Rightarrow> string" where
  "upload_error_display show_mime e =
     (case e of
        UnexpectedEof \<Rightarrow> ''Unexpected EOF''
      | BufferNotDefined \<Rightarrow> ''Buffer not defined''
      | WriteZero \<Rightarrow> ''Write 0 bytes''
      | FileNameNotFound \<Rightarrow> ''File name not found''
      | MimeNotFound file \<Rightarrow> ''File: '' @ file @ '' {Mime type is not present}''
      | MimeNotAllowed file mime \<Rightarrow>
          ''file: '' @ file @ '' { Mime '' @ show_mime mime @ '' is not allowed }''
      | Multer str \<Rightarrow> ''Multer error: '' @ str
      | StorageFull \<Rightarrow> ''Storage full''
      | Io str \<Rightarrow> str)"

record meta_file =
  mf_file_name :: string
  mf_mime :: mime

record upload_result =
  ur_size :: nat
  ur_elapsed :: nat
  ur_file_name :: string

section \<open>The stream of parts\<close>

datatype body_answer = BodyPending | BodyError string | Chunk string

record part =
  pt_file_name :: "string option"
  pt_content_type :: "mime option"
  pt_body :: "body_answer list"

datatype part_answer = PartPending | PartError string | Part part

datatype mime_allowed = AnyMime | AllowMime mime | AllowType string | AllowSubType string

datatype stream_state = WaitingField | ReadingField "body_answer list" | StreamDone

record stream_upload =
  su_parts :: "part_answer list"
  su_allowed :: "mime_allowed list"
  su_state :: stream_state

datatype result_stream = Bytes string | New meta_file | Eof

definition stream_upload_new :: "part_answer list \<Rightarrow> mime_allowed list \<Rightarrow> stream_upload" where
  "stream_upload_new parts al = \<lparr>su_parts = parts, su_allowed = al, su_state = WaitingField\<rparr>"

fun mime_allows :: "mime \<Rightarrow> mime_allowed \<Rightarrow> bool" where
  "mime_allows m AnyMime = True"
| "mime_allows m (AllowMime x) = (m = x)"
| "mime_allows m (AllowType t) = (mm_type m = t)"
| "mime_allows m (AllowSubType t) = (mm_subtype m = t)"

text \<open>
  A part without a content type is an error that leaves the stream waiting for the next part; the
  other errors end it.
\<close>

definition stream_part :: "part \<Rightarrow> stream_upload \<Rightarrow> (upload_error + result_stream) \<times> stream_upload" where
  "stream_part p su =
     (case pt_file_name p of
        None \<Rightarrow> (Inl FileNameNotFound, su\<lparr>su_state := StreamDone\<rparr>)
      | Some name \<Rightarrow>
          (case pt_content_type p of
             None \<Rightarrow> (Inl (MimeNotFound name), su)
           | Some ct \<Rightarrow>
               if list_ex (mime_allows ct) (su_allowed su)
               then (Inr (New \<lparr>mf_file_name = name, mf_mime = ct\<rparr>), su\<lparr>su_state := ReadingField (pt_body p)\<rparr>)
               else (Inl (MimeNotAllowed name ct), su\<lparr>su_state := StreamDone\<rparr>)))"

definition stream_next ::
    "stream_upload \<Rightarrow> (upload_error + result_stream) option poll \<times> stream_upload" where
  "stream_next su =
     (case su_state su of
        WaitingField \<Rightarrow>
          (case su_parts su of
             [] \<Rightarrow> (Ready None, su\<lparr>su_state := StreamDone\<rparr>)
           | PartPending # ps \<Rightarrow> (Pending, su\<lparr>su_parts := ps\<rparr>)
           | PartError e # ps \<Rightarrow>
               (Ready (Some (Inl (upload_error_of_multer e))), su\<lparr>su_parts := ps, su_state := StreamDone\<rparr>)
           | Part p # ps \<Rightarrow>
               (case stream_part p (su\<lparr>su_parts := ps\<rparr>) of (r, su') \<Rightarrow> (Ready (Some r), su')))
      | ReadingField body \<Rightarrow>
          (case body of
             [] \<Rightarrow> (Ready (Some (Inr Eof)), su\<lparr>su_state := WaitingField\<rparr>)
           | BodyPending # bs \<Rightarrow> (Pending, su\<lparr>su_state := ReadingField bs\<rparr>)
           | BodyError e # bs \<Rightarrow>
               (Ready (Some (Inl (upload_error_of_multer e))), su\<lparr>su_state := StreamDone\<rparr>)
           | Chunk c # bs \<Rightarrow> (Ready (Some (Inr (Bytes c))), su\<lparr>su_state := ReadingField bs\<rparr>))
      | StreamDone \<Rightarrow> (Ready None, su))"

section \<open>The upload state machine\<close>

text \<open>The future that creates a file: how often it is not ready, then what it gives.\<close>

type_synonym create = "nat \<times> (io_error + script_file)"

datatype state_upload = Writing string | Reading | Flush | Create create | Done

record upload =
  up_stream :: stream_upload
  up_buffer :: "script_file buffer option"
  up_state :: state_upload
  up_written :: nat
  up_elapsed :: "nat option"
  up_meta :: "meta_file option"

definition upload_new :: "stream_upload \<Rightarrow> upload" where
  "upload_new su = \<lparr>up_stream = su, up_buffer = None, up_state = Reading, up_written = 0,
     up_elapsed = None, up_meta = None\<rparr>"

type_synonym upload_item = "(upload_error + upload_result) option"

text \<open>A turn of the loop goes on, answers, or is not ready; \<open>None\<close> is a flush that does not return.\<close>

datatype turn = GoOn | Answer "upload_item" | Wait

definition upload_writing :: "string \<Rightarrow> upload \<Rightarrow> (turn \<times> upload) run option" where
  "upload_writing buf u =
     (case up_buffer u of
        None \<Rightarrow> Some (Inl UnwrapNone)
      | Some b \<Rightarrow>
          (case buffer_poll_write script_write b buf of
             Inl p \<Rightarrow> Some (Inl p)
           | Inr (Pending, b') \<Rightarrow> Some (Inr (Wait, u\<lparr>up_buffer := Some b'\<rparr>))
           | Inr (Ready (Inr n), b') \<Rightarrow>
               Some (Inr (GoOn, u\<lparr>up_buffer := Some b',
                 up_state := (if n < length buf then Writing (drop n buf) else Reading),
                 up_written := up_written u + n\<rparr>))
           | Inr (Ready (Inl e), b') \<Rightarrow>
               Some (Inr (Answer (Some (Inl (upload_error_of_io e))),
                 u\<lparr>up_buffer := Some b', up_state := Done\<rparr>))))"

definition upload_reading ::
    "(mime \<Rightarrow> string) \<Rightarrow> (string \<Rightarrow> create) \<Rightarrow> nat \<Rightarrow> upload \<Rightarrow> (turn \<times> upload) run option" where
  "upload_reading dir open_file now u =
     (case stream_next (up_stream u) of
        (Pending, su) \<Rightarrow> Some (Inr (Wait, u\<lparr>up_stream := su\<rparr>))
      | (Ready (Some (Inr (New meta))), su) \<Rightarrow>
          Some (Inr (GoOn, u\<lparr>up_stream := su, up_meta := Some meta,
            up_state := Create (open_file (path_push (dir (mf_mime meta)) (mf_file_name meta))),
            up_elapsed := Some now\<rparr>))
      | (Ready (Some (Inr (Bytes bs))), su) \<Rightarrow>
          Some (Inr (GoOn, u\<lparr>up_stream := su, up_state := Writing bs\<rparr>))
      | (Ready (Some (Inr Eof)), su) \<Rightarrow> Some (Inr (GoOn, u\<lparr>up_stream := su, up_state := Flush\<rparr>))
      | (Ready (Some (Inl e)), su) \<Rightarrow>
          Some (Inr (Answer (Some (Inl e)), u\<lparr>up_stream := su, up_state := Done\<rparr>))
      | (Ready None, su) \<Rightarrow> Some (Inr (Answer None, u\<lparr>up_stream := su, up_state := Done\<rparr>)))"

definition upload_create :: "create \<Rightarrow> upload \<Rightarrow> (turn \<times> upload) run option" where
  "upload_create c u =
     (case c of
        (Suc n, r) \<Rightarrow> Some (Inr (Wait, u\<lparr>up_state := Create (n, r)\<rparr>))
      | (0, Inr file) \<Rightarrow> Some (Inr (GoOn, u\<lparr>up_buffer := Some (buffer_new file), up_state := Reading\<rparr>))
      | (0, Inl e) \<Rightarrow>
          Some (Inr (Answer (Some (Inl (upload_error_of_io e))), u\<lparr>up_state := Done\<rparr>)))"

definition upload_flush :: "nat \<Rightarrow> upload \<Rightarrow> (turn \<times> upload) run option" where
  "upload_flush now u =
     (case up_buffer u of
        None \<Rightarrow> Some (Inr (Answer (Some (Inl BufferNotDefined)), u\<lparr>up_state := Done\<rparr>))
      | Some b \<Rightarrow>
          (case buffer_poll_flush script_write script_flush b of
             None \<Rightarrow> None
           | Some (Inl p) \<Rightarrow> Some (Inl p)
           | Some (Inr (Pending, b')) \<Rightarrow> Some (Inr (Wait, u\<lparr>up_buffer := Some b'\<rparr>))
           | Some (Inr (Ready (Inr _), b')) \<Rightarrow>
               Some (Inr (Answer (Some (Inr
                   \<lparr>ur_size = up_written u,
                    ur_elapsed = (case up_elapsed u of None \<Rightarrow> 0 | Some t \<Rightarrow> now - t),
                    ur_file_name = (case up_meta u of None \<Rightarrow> [] | Some m \<Rightarrow> mf_file_name m)\<rparr>)),
                 u\<lparr>up_buffer := Some b', up_state := Reading, up_written := 0, up_elapsed := None,
                   up_meta := None\<rparr>))
           | Some (Inr (Ready (Inl e), b')) \<Rightarrow>
               Some (Inr (Answer (Some (Inl (upload_error_of_io e))),
                 u\<lparr>up_buffer := Some b', up_state := Done\<rparr>))))"

definition upload_step ::
    "(mime \<Rightarrow> string) \<Rightarrow> (string \<Rightarrow> create) \<Rightarrow> nat \<Rightarrow> upload \<Rightarrow> (turn \<times> upload) run option" where
  "upload_step dir open_file now u =
     (case up_state u of
        Writing buf \<Rightarrow> upload_writing buf u
      | Reading \<Rightarrow> upload_reading dir open_file now u
      | Create c \<Rightarrow> upload_create c u
      | Flush \<Rightarrow> upload_flush now u
      | Done \<Rightarrow> Some (Inr (Answer None, u)))"

text \<open>\<^verbatim>\<open>Upload::poll_next\<close>: turns until one answers or waits.\<close>

partial_function (option) upload_poll_next ::
    "(mime \<Rightarrow> string) \<Rightarrow> (string \<Rightarrow> create) \<Rightarrow> nat \<Rightarrow> upload \<Rightarrow> (upload_item poll \<times> upload) run option" where
  "upload_poll_next dir open_file now u =
     (case upload_step dir open_file now u of
        None \<Rightarrow> None
      | Some (Inl p) \<Rightarrow> Some (Inl p)
      | Some (Inr (GoOn, u')) \<Rightarrow> upload_poll_next dir open_file now u'
      | Some (Inr (Answer r, u')) \<Rightarrow> Some (Inr (Ready r, u'))
      | Some (Inr (Wait, u')) \<Rightarrow> Some (Inr (Pending, u')))"

section \<open>Turns with what was delivered\<close>

text \<open>
  For the statements, a turn is observed together with the name of the last file the stream announced
  and the bytes it delivered for it since.
\<close>

type_synonym delivered = "string \<times> string"

definition deliver :: "upload \<Rightarrow> delivered \<Rightarrow> delivered" where
  "deliver u g =
     (if up_state u = Reading
      then (case fst (stream_next (up_stream u)) of
              Ready (Some (Inr (New meta))) \<Rightarrow> (mf_file_name meta, [])
            | Ready (Some (Inr (Bytes bs))) \<Rightarrow> (fst g, snd g @ bs)
            | _ \<Rightarrow> g)
      else g)"

inductive upload_turns ::
    "(mime \<Rightarrow> string) \<Rightarrow> (string \<Rightarrow> create) \<Rightarrow> upload \<times> delivered \<Rightarrow> upload \<times> delivered \<Rightarrow> bool"
  for dir open_file where
  start: "upload_turns dir open_file s s"
| turn: "upload_turns dir open_file s (u, g) \<Longrightarrow> upload_step dir open_file now u = Some (Inr (t, u')) \<Longrightarrow>
    upload_turns dir open_file s (u', deliver u g)"

text \<open>What the buffer of an upload has taken of the bytes delivered, in each state.\<close>

definition buffered :: "script_file buffer \<Rightarrow> string" where
  "buffered b = sf_content (bf_inner b) @ bf_bytes b"

fun in_field :: "stream_state \<Rightarrow> bool" where
  "in_field (ReadingField bs) = True"
| "in_field _ = False"

definition holds_file :: "upload \<Rightarrow> delivered \<Rightarrow> string \<Rightarrow> bool" where
  "holds_file u g rest \<longleftrightarrow>
     (\<exists>b. up_buffer u = Some b \<and> buffered b @ rest = snd g \<and> up_written u = length (buffered b))
     \<and> map_option mf_file_name (up_meta u) = Some (fst g)"

definition upload_inv :: "upload \<Rightarrow> delivered \<Rightarrow> bool" where
  "upload_inv u g \<longleftrightarrow>
     (case up_state u of
        Writing rest \<Rightarrow> in_field (su_state (up_stream u)) \<and> holds_file u g rest
      | Flush \<Rightarrow> \<not> in_field (su_state (up_stream u)) \<and> holds_file u g []
      | Reading \<Rightarrow> if in_field (su_state (up_stream u)) then holds_file u g [] else up_written u = 0
      | Create c \<Rightarrow>
          in_field (su_state (up_stream u)) \<and> snd g = [] \<and> up_written u = 0
          \<and> map_option mf_file_name (up_meta u) = Some (fst g) \<and> (\<forall>f. snd c = Inr f \<longrightarrow> sf_content f = [])
      | Done \<Rightarrow> True)"

definition creates_empty :: "(string \<Rightarrow> create) \<Rightarrow> bool" where
  "creates_empty open_file \<longleftrightarrow> (\<forall>p f. snd (open_file p) = Inr f \<longrightarrow> sf_content f = [])"

lemma upload_inv_new: "upload_inv (upload_new (stream_upload_new parts al)) g"
  by (simp add: upload_inv_def upload_new_def stream_upload_new_def)

text \<open>What a call of the stream does to its state.\<close>

lemma stream_next_cases:
  assumes "stream_next su = (r, su')"
  shows "case r of
      Ready (Some (Inr (New meta))) \<Rightarrow> \<not> in_field (su_state su) \<and> in_field (su_state su')
    | Ready (Some (Inr (Bytes bs))) \<Rightarrow> in_field (su_state su) \<and> in_field (su_state su')
    | Ready (Some (Inr Eof)) \<Rightarrow> in_field (su_state su) \<and> \<not> in_field (su_state su')
    | Ready None \<Rightarrow> True
    | Ready (Some (Inl e)) \<Rightarrow> True
    | Pending \<Rightarrow> in_field (su_state su') = in_field (su_state su)"
  using assms
  by (auto simp: stream_next_def stream_part_def split: stream_state.splits list.splits part_answer.splits
      body_answer.splits option.splits if_splits prod.splits)

lemma buffer_write_cases:
  "\<exists>r b'. buffer_poll_write script_write b buf = Inr (r, b') \<and> bf_capacity b' = bf_capacity b
    \<and> (case r of Ready (Inr n) \<Rightarrow> n \<le> length buf \<and> buffered b' = buffered b @ take n buf
       | _ \<Rightarrow> buffered b' = buffered b)"
  using script.buffer_poll_write_spec[of b buf]
  by (fastforce simp: script_taken buffered_def split: poll.splits sum.splits)

lemma buffer_flush_cases:
  "\<exists>r b'. buffer_poll_flush script_write script_flush b = Some (Inr (r, b')) \<and> buffered b' = buffered b
    \<and> (r = Ready (Inr ()) \<longrightarrow> bf_bytes b' = [])"
proof -
  obtain res where res: "flush_loop script_write (bf_inner b) (bf_bytes b) = Some res"
    using script_flush_returns by blast
  from script.flush_loop_written[OF this] obtain r w rest where
    r: "res = Inr (r, w, rest)" "sf_content w @ rest = sf_content (bf_inner b) @ bf_bytes b"
    "r = Ready (Inr ()) \<longrightarrow> rest = []" by blast
  show ?thesis
    using res r
    by (cases r) (auto simp: buffer_poll_flush_def script_flush_def buffered_def split: sum.splits)
qed

lemma upload_step_inv:
  assumes "upload_inv u g" "creates_empty open_file" "upload_step dir open_file now u = Some (Inr (t, u'))"
  shows "upload_inv u' (deliver u g)"
proof (cases "up_state u")
  case (Writing buf)
  obtain b where b: "up_buffer u = Some b" "buffered b @ buf = snd g" "up_written u = length (buffered b)"
    "in_field (su_state (up_stream u))" "map_option mf_file_name (up_meta u) = Some (fst g)"
    using assms(1) Writing by (auto simp: upload_inv_def holds_file_def)
  have len: "length (buffered b) + length buf = length (snd g)"
    using arg_cong[OF b(2), of length] by simp
  obtain r b' where w: "buffer_poll_write script_write b buf = Inr (r, b')"
    "case r of Ready (Inr n) \<Rightarrow> n \<le> length buf \<and> buffered b' = buffered b @ take n buf | _ \<Rightarrow> buffered b' = buffered b"
    using buffer_write_cases[of b buf] by blast
  have "upload_writing buf u = Some (Inr (t, u'))" using assms(3) Writing by (simp add: upload_step_def)
  then show ?thesis
    using w b Writing len
    by (auto simp: upload_writing_def upload_inv_def holds_file_def deliver_def split: poll.splits sum.splits)
next
  case Reading
  obtain r su' where n: "stream_next (up_stream u) = (r, su')" by force
  have step: "upload_reading dir open_file now u = Some (Inr (t, u'))" using assms(3) Reading by (simp add: upload_step_def)
  show ?thesis
  proof (cases "r = Pending \<or> r = Ready None \<or> (\<exists>e. r = Ready (Some (Inl e)))")
    case True
    then show ?thesis
      using step n assms(1) Reading stream_next_cases[OF n]
      by (auto simp: upload_reading_def upload_inv_def deliver_def holds_file_def)
  next
    case False
    then obtain x where x: "r = Ready (Some (Inr x))"
      by (metis poll.exhaust option.exhaust sum.exhaust)
    show ?thesis
      using step n assms(1,2) Reading stream_next_cases[OF n] x
      by (cases x) (auto simp: upload_reading_def upload_inv_def deliver_def holds_file_def creates_empty_def)
  qed
next
  case Flush
  obtain b where b: "up_buffer u = Some b" using assms(1) Flush by (auto simp: upload_inv_def holds_file_def)
  obtain r b' where f: "buffer_poll_flush script_write script_flush b = Some (Inr (r, b'))" "buffered b' = buffered b"
    using buffer_flush_cases by blast
  have "upload_flush now u = Some (Inr (t, u'))" using assms(3) Flush by (simp add: upload_step_def)
  then show ?thesis
    using b f assms(1) Flush
    by (auto simp: upload_flush_def upload_inv_def holds_file_def deliver_def split: poll.splits sum.splits)
next
  case (Create c)
  have "upload_create c u = Some (Inr (t, u'))" using assms(3) Create by (simp add: upload_step_def)
  then show ?thesis
    using assms(1) Create
    by (auto simp: upload_create_def upload_inv_def holds_file_def deliver_def buffered_def buffer_new_def
        split: prod.splits nat.splits sum.splits)
next
  case Done
  then show ?thesis using assms(3) by (auto simp: upload_step_def upload_inv_def)
qed

lemma upload_turns_inv:
  "upload_turns dir open_file s s' \<Longrightarrow> creates_empty open_file \<Longrightarrow> upload_inv (fst s) (snd s) \<Longrightarrow> upload_inv (fst s') (snd s')"
  by (induction rule: upload_turns.induct) (auto intro: upload_step_inv)

lemma upload_step_ok:
  assumes "upload_inv u g"
  shows "\<exists>t u'. upload_step dir open_file now u = Some (Inr (t, u'))"
proof (cases "up_state u")
  case (Writing buf)
  obtain b where b: "up_buffer u = Some b" using assms Writing by (auto simp: upload_inv_def holds_file_def)
  obtain r b' where "buffer_poll_write script_write b buf = Inr (r, b')" using buffer_write_cases[of b buf] by blast
  with b Writing show ?thesis
    by (auto simp: upload_step_def upload_writing_def split: poll.splits sum.splits)
next
  case Reading
  then show ?thesis
    by (auto simp: upload_step_def upload_reading_def split: poll.splits sum.splits option.splits prod.splits result_stream.splits)
next
  case Flush
  obtain b where b: "up_buffer u = Some b" using assms Flush by (auto simp: upload_inv_def holds_file_def)
  obtain r b' where "buffer_poll_flush script_write script_flush b = Some (Inr (r, b'))"
    using buffer_flush_cases[of b] by blast
  with b Flush show ?thesis
    by (auto simp: upload_step_def upload_flush_def split: poll.splits sum.splits)
next
  case (Create c)
  then show ?thesis
    by (auto simp: upload_step_def upload_create_def split: prod.splits nat.splits sum.splits)
qed (simp add: upload_step_def)

section \<open>Properties\<close>

text \<open>
  C13. When the upload reports a file as received, the file holds exactly the bytes the stream delivered
  for it, in order and with nothing held back, the reported size is their number and the reported name
  is the name of that part; whatever the parser and the files answered on the way.
\<close>

theorem upload_result_exact:
  assumes "creates_empty open_file"
    and "upload_turns dir open_file (upload_new (stream_upload_new parts al), g0) (u, g)"
    and "upload_step dir open_file now u = Some (Inr (Answer (Some (Inr res)), u'))"
  shows "\<exists>b. up_buffer u' = Some b \<and> sf_content (bf_inner b) = snd g \<and> bf_bytes b = []
    \<and> ur_size res = length (snd g) \<and> ur_file_name res = fst g"
proof -
  have inv: "upload_inv u g"
    using upload_turns_inv[OF assms(2,1)] upload_inv_new by simp
  have state: "up_state u = Flush"
  proof (cases "up_state u")
    case (Writing buf)
    then show ?thesis using assms(3)
      by (auto simp: upload_step_def upload_writing_def split: option.splits sum.splits poll.splits prod.splits)
  next
    case Reading
    then show ?thesis using assms(3)
      by (auto simp: upload_step_def upload_reading_def split: option.splits sum.splits poll.splits prod.splits
          result_stream.splits)
  next
    case (Create c)
    then show ?thesis using assms(3)
      by (auto simp: upload_step_def upload_create_def split: prod.splits nat.splits sum.splits)
  qed (use assms(3) in \<open>simp_all add: upload_step_def\<close>)
  obtain b m where b: "up_buffer u = Some b" "buffered b = snd g" "up_written u = length (snd g)"
    "up_meta u = Some m" "mf_file_name m = fst g"
    using inv state by (auto simp: upload_inv_def holds_file_def)
  obtain r b' where f: "buffer_poll_flush script_write script_flush b = Some (Inr (r, b'))" "buffered b' = buffered b"
    "r = Ready (Inr ()) \<longrightarrow> bf_bytes b' = []"
    using buffer_flush_cases by blast
  have "upload_flush now u = Some (Inr (Answer (Some (Inr res)), u'))"
    using assms(3) state by (simp add: upload_step_def)
  then show ?thesis
    using f b by (auto simp: upload_flush_def buffered_def split: poll.splits sum.splits)
qed

definition sample_parts :: "part_answer list" where
  "sample_parts = [Part \<lparr>pt_file_name = Some ''a.mp4'',
     pt_content_type = Some \<lparr>mm_type = ''video'', mm_subtype = ''mp4'', mm_rest = []\<rparr>,
     pt_body = [Chunk ''ab'', Chunk ''c'']\<rparr>]"

definition sample_open :: "string \<Rightarrow> create" where
  "sample_open p = (0, Inr \<lparr>sf_answers = [], sf_content = []\<rparr>)"

definition sample_upload :: upload where
  "sample_upload = upload_new (stream_upload_new sample_parts [AllowType ''video''])"

fun run_turns :: "nat \<Rightarrow> upload \<times> delivered \<Rightarrow> (upload \<times> delivered) option" where
  "run_turns 0 s = Some s"
| "run_turns (Suc n) s =
     (case upload_step (\<lambda>_. ''/srv'') sample_open 0 (fst s) of
        Some (Inr (t, u')) \<Rightarrow> run_turns n (u', deliver (fst s) (snd s))
      | _ \<Rightarrow> None)"

lemma upload_turns_trans:
  "upload_turns dir op s1 s2 \<Longrightarrow> upload_turns dir op s s1 \<Longrightarrow> upload_turns dir op s s2"
  by (induction rule: upload_turns.induct) (auto intro: upload_turns.turn)

lemma run_turns_turns: "run_turns n s = Some s' \<Longrightarrow> upload_turns (\<lambda>_. ''/srv'') sample_open s s'"
proof (induction n arbitrary: s)
  case (Suc n)
  obtain u g where s: "s = (u, g)" by (cases s)
  from Suc.prems obtain t u' where t: "upload_step (\<lambda>_. ''/srv'') sample_open 0 u = Some (Inr (t, u'))"
    "run_turns n (u', deliver u g) = Some s'"
    by (auto simp: s split: option.splits sum.splits)
  from upload_turns.turn[OF upload_turns.start t(1), of g] Suc.IH[OF t(2)] show ?case
    unfolding s by (rule upload_turns_trans[rotated])
qed (simp add: upload_turns.start)

lemma flush_no_answers:
  "flush_loop script_write \<lparr>sf_answers = [], sf_content = c\<rparr> bytes
   = Some (Inr (Ready (Inr ()), \<lparr>sf_answers = [], sf_content = c @ bytes\<rparr>, []))"
  by (simp add: flush_loop.simps[of _ _ bytes] flush_loop.simps[of _ _ "[]"] script_write.simps)

definition seven :: nat where
  "seven = Suc (Suc (Suc (Suc (Suc (Suc (Suc 0))))))"

lemma sample_turns:
  "\<exists>u res u'. run_turns seven (sample_upload, ([], [])) = Some (u, (''a.mp4'', ''abc''))
     \<and> upload_step (\<lambda>_. ''/srv'') sample_open 0 u = Some (Inr (Answer (Some (Inr res)), u'))"
  by (simp add: seven_def upload_step_def upload_reading_def upload_writing_def upload_create_def
      upload_flush_def stream_next_def stream_part_def sample_upload_def sample_parts_def sample_open_def
      upload_new_def stream_upload_new_def deliver_def buffer_new_def default_buffer_def buffer_poll_write_def
      buffer_store_def buffer_poll_flush_def script_flush_def flush_no_answers script_write.simps)

theorem upload_result_exact_witness:
  "\<exists>u g u' res b. upload_turns (\<lambda>_. ''/srv'') sample_open (sample_upload, ([], [])) (u, g)
     \<and> upload_step (\<lambda>_. ''/srv'') sample_open 0 u = Some (Inr (Answer (Some (Inr res)), u'))
     \<and> up_buffer u' = Some b \<and> sf_content (bf_inner b) = ''abc'' \<and> ur_size res = 3"
proof -
  obtain u res u' where r: "run_turns seven (sample_upload, ([], [])) = Some (u, (''a.mp4'', ''abc''))"
    "upload_step (\<lambda>_. ''/srv'') sample_open 0 u = Some (Inr (Answer (Some (Inr res)), u'))"
    using sample_turns by blast
  have "creates_empty sample_open" by (simp add: creates_empty_def sample_open_def)
  from upload_result_exact[OF this run_turns_turns[OF r(1), unfolded sample_upload_def] r(2)]
  obtain b where b: "up_buffer u' = Some b" "sf_content (bf_inner b) = ''abc''" "ur_size res = 3" by auto
  show ?thesis by (rule exI | rule conjI | rule run_turns_turns[OF r(1)] | rule r(2) | rule b)+
qed



text \<open>
  A file is announced only for a part whose content type one of the allowed types admits; a part of
  another type ends the stream with an error.
\<close>

theorem announced_type_allowed:
  assumes "stream_next su = (Ready (Some (Inr (New meta))), su')"
  shows "list_ex (mime_allows (mf_mime meta)) (su_allowed su)"
  using assms
  by (auto simp: stream_next_def stream_part_def split: stream_state.splits list.splits part_answer.splits
      body_answer.splits option.splits if_splits prod.splits)

theorem announced_type_allowed_witness:
  "\<exists>meta su'. stream_next (up_stream sample_upload) = (Ready (Some (Inr (New meta))), su')
     \<and> mime_allows (mf_mime meta) (AllowType ''video'')"
proof -
  obtain meta su' where n: "stream_next (up_stream sample_upload) = (Ready (Some (Inr (New meta))), su')"
    by (simp add: stream_next_def stream_part_def sample_upload_def sample_parts_def upload_new_def
        stream_upload_new_def)
  from announced_type_allowed[OF n] have "mime_allows (mf_mime meta) (AllowType ''video'')"
    by (simp add: sample_upload_def upload_new_def stream_upload_new_def)
  with n show ?thesis by blast
qed

text \<open>
  The name a part declares is used as it is: a part whose name is an absolute path is created at
  that path, wherever the upload directory is.
\<close>

theorem upload_absolute_name_escapes:
  assumes "stream_next (up_stream u) = (Ready (Some (Inr (New meta))), su)"
    and "prefix ''/'' (mf_file_name meta)" "up_state u = Reading"
  shows "upload_step dir open_file now u =
    Some (Inr (GoOn, u\<lparr>up_stream := su, up_meta := Some meta,
      up_state := Create (open_file (mf_file_name meta)), up_elapsed := Some now\<rparr>))"
  using assms by (simp add: upload_step_def upload_reading_def path_push_def)

definition escaping_upload :: upload where
  "escaping_upload = upload_new (stream_upload_new
     [Part \<lparr>pt_file_name = Some ''/etc/x'', pt_content_type = Some \<lparr>mm_type = ''video'', mm_subtype = ''mp4'', mm_rest = []\<rparr>,
            pt_body = []\<rparr>] [AllowType ''video''])"

theorem upload_absolute_name_escapes_witness:
  "\<exists>u'. upload_step (\<lambda>_. ''/srv'') sample_open 0 escaping_upload = Some (Inr (GoOn, u'))
     \<and> up_state u' = Create (sample_open ''/etc/x'')"
proof -
  let ?meta = "\<lparr>mf_file_name = ''/etc/x'', mf_mime = \<lparr>mm_type = ''video'', mm_subtype = ''mp4'', mm_rest = []\<rparr>\<rparr>"
  have n: "stream_next (up_stream escaping_upload) = (Ready (Some (Inr (New ?meta))),
      \<lparr>su_parts = [], su_allowed = [AllowType ''video''], su_state = ReadingField []\<rparr>)"
    by (simp add: stream_next_def stream_part_def escaping_upload_def upload_new_def stream_upload_new_def)
  have "up_state escaping_upload = Reading" by (simp add: escaping_upload_def upload_new_def)
  from upload_absolute_name_escapes[OF n _ this] show ?thesis by simp
qed

end
