(* ===== verification/Upload_Progress.thy ===== *)
theory Upload_Progress
  imports Upload_Stream
begin

text \<open>
  That an upload comes to its end (upload_files/src/stream_upload): every turn takes something from the finite
  scripts of the parser and the files, so that a poll returns and repeated polls end; and, over files that take
  what they are given, the results an upload reports, read off the parts of the body alone.
\<close>

section \<open>Files use up their answers\<close>

definition left :: "script_file \<Rightarrow> nat" where
  "left f = length (sf_answers f)"

lemma script_write_left:
  assumes "script_write f buf = Inr (r, f')"
  shows "left f' \<le> left f" "r = Pending \<Longrightarrow> left f' < left f"
    "r = Ready (Inr n) \<Longrightarrow> n < length buf \<Longrightarrow> left f' < left f"
  using assms by (auto simp: script_write.simps left_def split: list.splits answer.splits)

lemma write_flush_left:
  "write_flush script_write f bytes = Inr (r, f', rest) \<Longrightarrow> left f' \<le> left f \<and> (r = Pending \<longrightarrow> left f' < left f)"
proof (induction "length bytes" arbitrary: f bytes rule: less_induct)
  case less
  show ?case
  proof (cases "bytes = []")
    case False
    show ?thesis
    proof (cases rule: script.writer_cases[of f bytes])
      case (Accept n f1)
      then show ?thesis
        using False less.prems less.hyps[of "drop n bytes" f1] script_write_left[OF Accept(1)]
        by (fastforce simp: write_flush.simps[of script_write f bytes] split: if_splits)
    next
      case (Waits f1)
      then show ?thesis
        using False less.prems script_write_left[OF Waits(1)]
        by (auto simp: write_flush.simps[of script_write f bytes])
    next
      case (Fails e f1)
      then show ?thesis
        using False less.prems script_write_left[OF Fails(1)]
        by (auto simp: write_flush.simps[of script_write f bytes])
    qed
  qed (use less.prems in \<open>auto simp: write_flush.simps\<close>)
qed

lemma buffer_store_left:
  assumes "buffer_store script_write b buf = Inr (r, b')"
  shows "left (bf_inner b') \<le> left (bf_inner b) \<and> (r = Pending \<longrightarrow> left (bf_inner b') < left (bf_inner b))
    \<and> (\<forall>n. r = Ready (Inr n) \<and> n < length buf \<longrightarrow> left (bf_inner b') < left (bf_inner b))"
proof (cases "bf_capacity b \<le> length buf")
  case True
  obtain r1 f1 where w: "script_write (bf_inner b) buf = Inr (r1, f1)" using script.no_panic by blast
  show ?thesis using assms True w script_write_left[OF w] by (auto simp: buffer_store_def)
qed (use assms in \<open>auto simp: buffer_store_def\<close>)

lemma buffer_write_left:
  assumes "buffer_poll_write script_write b buf = Inr (r, b')"
  shows "left (bf_inner b') \<le> left (bf_inner b) \<and> (r = Pending \<longrightarrow> left (bf_inner b') < left (bf_inner b))
    \<and> (\<forall>n. r = Ready (Inr n) \<and> n < length buf \<longrightarrow> left (bf_inner b') < left (bf_inner b))"
proof (cases "bf_capacity b \<le> length buf + length (bf_bytes b)")
  case True
  obtain r1 f1 rest where w: "write_flush script_write (bf_inner b) (bf_bytes b) = Inr (r1, f1, rest)"
    using script.write_flush_written by blast
  note l = write_flush_left[OF w]
  show ?thesis
  proof (cases "\<exists>x. r1 = Ready (Inr x)")
    case True
    then have "buffer_store script_write (b\<lparr>bf_inner := f1, bf_bytes := rest\<rparr>) buf = Inr (r, b')"
      using assms w \<open>bf_capacity b \<le> _\<close> by (auto simp: buffer_poll_write_def buffer_write_flush_def)
    from buffer_store_left[OF this] l show ?thesis by auto
  next
    case False
    then show ?thesis
      using assms w l \<open>bf_capacity b \<le> _\<close>
      by (auto simp: buffer_poll_write_def buffer_write_flush_def split: poll.splits sum.splits)
  qed
qed (use assms buffer_store_left in \<open>simp add: buffer_poll_write_def\<close>)

lemma flush_loop_left:
  "flush_loop script_write f bytes = Some (Inr (r, f', rest)) \<Longrightarrow>
   left f' \<le> left f \<and> (r = Pending \<longrightarrow> left f' < left f)"
proof (induction "left f" arbitrary: f bytes rule: less_induct)
  case less
  show ?case
  proof (cases "bytes = [] \<or> sf_answers f = []")
    case True
    then show ?thesis
      using less.prems
      by (auto simp: flush_loop.simps[of _ _ bytes] flush_loop.simps[of _ _ "[]"] script_write.simps left_def
          split: if_splits)
  next
    case False
    then obtain a as where a: "sf_answers f = a # as" by (cases "sf_answers f") auto
    have IH: "flush_loop script_write (f\<lparr>sf_answers := as, sf_content := c\<rparr>) bs = Some (Inr (r, f', rest)) \<Longrightarrow>
        left f' < left f" for c bs
      using less.hyps[of "f\<lparr>sf_answers := as, sf_content := c\<rparr>" bs] a by (simp add: left_def)
    show ?thesis
      using False less.prems IH a
      by (cases a) (auto simp: flush_loop.simps[of _ _ bytes] script_write.simps left_def less_imp_le)
  qed
qed

lemma buffer_flush_left:
  assumes "buffer_poll_flush script_write script_flush b = Some (Inr (Pending, b'))"
  shows "left (bf_inner b') < left (bf_inner b)"
  using assms flush_loop_left[of "bf_inner b" "bf_bytes b"]
  by (auto simp: buffer_poll_flush_def script_flush_def split: option.splits sum.splits prod.splits poll.splits)

section \<open>Every turn makes progress\<close>

fun part_size :: "part_answer \<Rightarrow> nat" where
  "part_size (Part p) = length (pt_body p) + 2"
| "part_size _ = 1"

definition stream_size :: "stream_upload \<Rightarrow> nat" where
  "stream_size su = sum_list (map part_size (su_parts su))
     + (case su_state su of ReadingField bs \<Rightarrow> Suc (length bs) | _ \<Rightarrow> 0)"

lemma stream_next_size:
  "stream_next su = (r, su') \<Longrightarrow> r \<noteq> Ready None \<Longrightarrow> stream_size su' < stream_size su"
  by (auto simp: stream_next_def stream_part_def stream_size_def split: stream_state.splits list.splits
      part_answer.splits body_answer.splits option.splits if_splits prod.splits)

lemma stream_next_none:
  "stream_next su = (Ready None, su') \<Longrightarrow> stream_size su' = stream_size su"
  by (auto simp: stream_next_def stream_part_def stream_size_def split: stream_state.splits list.splits
      part_answer.splits body_answer.splits option.splits if_splits prod.splits)

fun state_rank :: "state_upload \<Rightarrow> nat" where
  "state_rank Done = 0"
| "state_rank Reading = 1"
| "state_rank _ = 2"

definition waiting_for :: "upload \<Rightarrow> nat" where
  "waiting_for u =
     (case up_state u of
        Create c \<Rightarrow> fst c
      | _ \<Rightarrow> (case up_buffer u of None \<Rightarrow> 0 | Some b \<Rightarrow> left (bf_inner b)))"

definition upload_order :: "(upload \<times> upload) set" where
  "upload_order = measures [\<lambda>u. stream_size (up_stream u), \<lambda>u. state_rank (up_state u), waiting_for]"

lemma wf_upload_order: "wf upload_order"
  by (simp add: upload_order_def)

lemma upload_order_trans: "(u, v) \<in> upload_order \<Longrightarrow> (v, w) \<in> upload_order \<Longrightarrow> (u, w) \<in> upload_order"
  by (auto simp: upload_order_def)

lemma upload_step_order:
  assumes "upload_step dir open_file now u = Some (Inr (t, u'))" "up_state u \<noteq> Done"
  shows "(u', u) \<in> upload_order"
proof (cases "up_state u")
  case (Writing buf)
  obtain b where b: "up_buffer u = Some b"
    using assms(1) Writing by (auto simp: upload_step_def upload_writing_def split: option.splits)
  obtain r b' where w: "buffer_poll_write script_write b buf = Inr (r, b')"
    using buffer_write_cases[of b buf] by blast
  show ?thesis
    using assms(1) Writing b w buffer_write_left[OF w]
    by (auto simp: upload_step_def upload_writing_def upload_order_def waiting_for_def split: poll.splits sum.splits if_splits)
next
  case Reading
  obtain r su where n: "stream_next (up_stream u) = (r, su)" by force
  show ?thesis
    using assms(1) Reading n stream_next_size[OF n] stream_next_none[of "up_stream u" su]
    by (auto simp: upload_step_def upload_reading_def upload_order_def split: poll.splits option.splits sum.splits
        result_stream.splits)
next
  case Flush
  show ?thesis
    using assms(1) Flush buffer_flush_left
    by (auto simp: upload_step_def upload_flush_def upload_order_def waiting_for_def
        split: option.splits sum.splits prod.splits poll.splits)
next
  case (Create c)
  show ?thesis
    using assms(1) Create
    by (auto simp: upload_step_def upload_create_def upload_order_def waiting_for_def
        split: prod.splits nat.splits sum.splits)
qed (use assms in simp)


text \<open>A poll returns, keeps the invariant, and has made progress unless it was the last one.\<close>

lemma upload_poll_returns:
  assumes "creates_empty open_file" "upload_inv u g"
  shows "\<exists>r u' g'. upload_poll_next dir open_file now u = Some (Inr (r, u')) \<and> upload_inv u' g'
    \<and> (r = Ready None \<or> (u', u) \<in> upload_order)"
  using wf_upload_order assms(2)
proof (induction u arbitrary: g rule: wf_induct_rule)
  case (less u)
  obtain t u' where s: "upload_step dir open_file now u = Some (Inr (t, u'))"
    using upload_step_ok[OF less.prems] by blast
  obtain name bs where "deliver u g = (name, bs)" by force
  then have inv: "upload_inv u' (name, bs)" using upload_step_inv[OF less.prems assms(1) s] by simp
  have prog: "(u', u) \<in> upload_order" if "t \<noteq> Answer None"
    using upload_step_order[OF s] s that by (cases "up_state u = Done") (auto simp: upload_step_def)
  show ?case
  proof (cases t)
    case GoOn
    with less.IH[OF _ inv] prog show ?thesis
      by (auto simp: upload_poll_next.simps[of _ _ _ u] s intro: upload_order_trans)
  next
    case (Answer i)
    with inv prog show ?thesis
      by (cases i) (auto simp: upload_poll_next.simps[of _ _ _ u] s)
  next
    case Wait
    with inv prog show ?thesis by (auto simp: upload_poll_next.simps[of _ _ _ u] s)
  qed
qed

section \<open>Files that take what they are given\<close>

fun obliging_answer :: "answer \<Rightarrow> bool" where
  "obliging_answer (Takes n) = (0 < n)"
| "obliging_answer (Fails e) = False"
| "obliging_answer NotReady = True"

definition obliging :: "script_file \<Rightarrow> bool" where
  "obliging f = list_all obliging_answer (sf_answers f)"

definition obliging_open :: "(string \<Rightarrow> create) \<Rightarrow> bool" where
  "obliging_open open_file \<longleftrightarrow> (\<forall>p. case snd (open_file p) of Inl e \<Rightarrow> False | Inr f \<Rightarrow> sf_content f = [] \<and> obliging f)"

lemma obliging_creates_empty: "obliging_open open_file \<Longrightarrow> creates_empty open_file"
  by (force simp: obliging_open_def creates_empty_def split: sum.splits)

lemma script_write_obliging:
  assumes "obliging f" "script_write f buf = Inr (r, f')"
  shows "obliging f'" "r \<noteq> Ready (Inl e)" "r = Ready (Inr n) \<Longrightarrow> buf \<noteq> [] \<Longrightarrow> 0 < n"
  using assms by (auto simp: script_write.simps obliging_def split: list.splits answer.splits)

lemma write_flush_obliging:
  "write_flush script_write f bytes = Inr (r, f', rest) \<Longrightarrow> obliging f \<Longrightarrow> obliging f' \<and> r \<noteq> Ready (Inl e)"
proof (induction "length bytes" arbitrary: f bytes rule: less_induct)
  case less
  show ?case
  proof (cases "bytes = []")
    case False
    show ?thesis
    proof (cases rule: script.writer_cases[of f bytes])
      case (Accept n f1)
      then show ?thesis
        using False less.prems less.hyps[of "drop n bytes" f1] script_write_obliging[OF less.prems(2) Accept(1)]
        by (auto simp: write_flush.simps[of script_write f bytes] split: if_splits)
    next
      case (Waits f1)
      then show ?thesis
        using False less.prems script_write_obliging[OF less.prems(2) Waits(1)]
        by (auto simp: write_flush.simps[of script_write f bytes])
    next
      case (Fails e' f1)
      then show ?thesis using script_write_obliging(2)[OF less.prems(2) Fails(1)] by blast
    qed
  qed (use less.prems in \<open>auto simp: write_flush.simps\<close>)
qed

lemma buffer_write_obliging:
  assumes "obliging (bf_inner b)" "buffer_poll_write script_write b buf = Inr (r, b')"
  shows "obliging (bf_inner b') \<and> r \<noteq> Ready (Inl e)"
proof -
  have store: "obliging (bf_inner b2) \<and> r2 \<noteq> Ready (Inl e)"
    if "obliging (bf_inner b1)" "buffer_store script_write b1 buf = Inr (r2, b2)" for b1 b2 r2
    using that script_write_obliging[of "bf_inner b1" buf]
    by (fastforce simp: buffer_store_def and_then_eq_Inr split: if_splits)
  obtain r1 f1 rest where w: "write_flush script_write (bf_inner b) (bf_bytes b) = Inr (r1, f1, rest)"
    using script.write_flush_written by blast
  note o = write_flush_obliging[OF w assms(1)]
  show ?thesis
  proof (cases r1)
    case Pending
    then show ?thesis
      using assms w o store[of b]
      by (auto simp: buffer_poll_write_def buffer_write_flush_def split: if_splits)
  next
    case (Ready x)
    then show ?thesis
      using assms w o store[of b] store[of "b\<lparr>bf_inner := f1, bf_bytes := rest\<rparr>"]
      by (cases x) (auto simp: buffer_poll_write_def buffer_write_flush_def split: if_splits)
  qed
qed

lemma flush_loop_obliging:
  "flush_loop script_write f bytes = Some (Inr (r, f', rest)) \<Longrightarrow> obliging f \<Longrightarrow>
   obliging f' \<and> r \<noteq> Ready (Inl e)"
proof (induction "left f" arbitrary: f bytes rule: less_induct)
  case less
  show ?case
  proof (cases "bytes = [] \<or> sf_answers f = []")
    case True
    then show ?thesis
      using less.prems
      by (auto simp: flush_loop.simps[of _ _ bytes] flush_loop.simps[of _ _ "[]"] script_write.simps obliging_def
          split: if_splits)
  next
    case False
    then obtain a as where a: "sf_answers f = a # as" by (cases "sf_answers f") auto
    have ob: "obliging (f\<lparr>sf_answers := as, sf_content := c\<rparr>)" for c
      using less.prems(2) a by (simp add: obliging_def)
    have IH: "flush_loop script_write (f\<lparr>sf_answers := as, sf_content := c\<rparr>) bs = Some (Inr (r, f', rest)) \<Longrightarrow>
        obliging f' \<and> r \<noteq> Ready (Inl e)" for c bs
      using less.hyps[of "f\<lparr>sf_answers := as, sf_content := c\<rparr>" bs] a ob by (simp add: left_def)
    show ?thesis
      using False less.prems IH a ob[of "sf_content f"]
      by (cases a) (auto simp: flush_loop.simps[of _ _ bytes] script_write.simps obliging_def)
  qed
qed

lemma buffer_flush_obliging:
  assumes "obliging (bf_inner b)" "buffer_poll_flush script_write script_flush b = Some (Inr (r, b'))"
  shows "obliging (bf_inner b') \<and> r \<noteq> Ready (Inl e)"
  using assms flush_loop_obliging[of "bf_inner b" "bf_bytes b"]
  by (auto simp: buffer_poll_flush_def script_flush_def split: option.splits sum.splits prod.splits poll.splits)

section \<open>The results of an upload, read off its parts\<close>

fun body_length :: "body_answer list \<Rightarrow> string + nat" where
  "body_length [] = Inr 0"
| "body_length (BodyPending # bs) = body_length bs"
| "body_length (BodyError e # bs) = Inl e"
| "body_length (Chunk c # bs) = map_sum id ((+) (length c)) (body_length bs)"

definition field_outcome ::
    "string \<Rightarrow> nat \<Rightarrow> body_answer list \<Rightarrow> (upload_error + string \<times> nat) list \<Rightarrow> (upload_error + string \<times> nat) list" where
  "field_outcome name written bs later =
     (case body_length bs of Inl e \<Rightarrow> [Inl (Multer e)] | Inr n \<Rightarrow> Inr (name, written + n) # later)"

fun outcomes :: "mime_allowed list \<Rightarrow> part_answer list \<Rightarrow> (upload_error + string \<times> nat) list" where
  "outcomes al [] = []"
| "outcomes al (PartPending # ps) = outcomes al ps"
| "outcomes al (PartError e # ps) = [Inl (Multer e)]"
| "outcomes al (Part p # ps) =
     (case (pt_file_name p, pt_content_type p) of
        (None, _) \<Rightarrow> [Inl FileNameNotFound]
      | (Some name, None) \<Rightarrow> [Inl (MimeNotFound name)]
      | (Some name, Some ct) \<Rightarrow>
          if list_ex (mime_allows ct) al then field_outcome name 0 (pt_body p) (outcomes al ps)
          else [Inl (MimeNotAllowed name ct)])"

text \<open>What an upload still has to report.\<close>

definition due_stream :: "string \<Rightarrow> nat \<Rightarrow> stream_upload \<Rightarrow> (upload_error + string \<times> nat) list" where
  "due_stream name written su =
     (case su_state su of
        WaitingField \<Rightarrow> outcomes (su_allowed su) (su_parts su)
      | ReadingField bs \<Rightarrow> field_outcome name written bs (outcomes (su_allowed su) (su_parts su))
      | StreamDone \<Rightarrow> [])"

definition meta_name :: "upload \<Rightarrow> string" where
  "meta_name u = (case up_meta u of None \<Rightarrow> [] | Some m \<Rightarrow> mf_file_name m)"

definition due :: "upload \<Rightarrow> (upload_error + string \<times> nat) list" where
  "due u =
     (case up_state u of
        Done \<Rightarrow> []
      | Writing buf \<Rightarrow> due_stream (meta_name u) (up_written u + length buf) (up_stream u)
      | Flush \<Rightarrow> Inr (meta_name u, up_written u) # due_stream [] 0 (up_stream u)
      | _ \<Rightarrow> due_stream (meta_name u) (up_written u) (up_stream u))"

definition seen :: "upload_error + upload_result \<Rightarrow> upload_error + string \<times> nat" where
  "seen = map_sum id (\<lambda>r. (ur_file_name r, ur_size r))"

definition obliging_upload :: "upload \<Rightarrow> bool" where
  "obliging_upload u \<longleftrightarrow> (case up_buffer u of None \<Rightarrow> True | Some b \<Rightarrow> obliging (bf_inner b))
     \<and> (case up_state u of Create c \<Rightarrow> (case snd c of Inl e \<Rightarrow> False | Inr f \<Rightarrow> obliging f) | _ \<Rightarrow> True)"

lemma field_outcome_simps:
  "field_outcome name w [] later = [Inr (name, w)] @ later"
  "field_outcome name w (BodyPending # bs) later = field_outcome name w bs later"
  "field_outcome name w (BodyError e # bs) later = [Inl (Multer e)]"
  "field_outcome name w (Chunk c # bs) later = field_outcome name (w + length c) bs later"
  by (auto simp: field_outcome_def split: sum.splits)


text \<open>One call of the stream takes the next outcome off, if it ends one.\<close>

lemma stream_next_due:
  assumes "stream_next su = (r, su')"
  shows "case r of
      Pending \<Rightarrow> due_stream name w su = due_stream name w su'
    | Ready None \<Rightarrow> due_stream name w su = []
    | Ready (Some (Inl e)) \<Rightarrow> due_stream name w su = [Inl e]
    | Ready (Some (Inr (New meta))) \<Rightarrow> due_stream name w su = due_stream (mf_file_name meta) 0 su'
    | Ready (Some (Inr (Bytes bs))) \<Rightarrow> due_stream name w su = due_stream name (w + length bs) su'
    | Ready (Some (Inr Eof)) \<Rightarrow> due_stream name w su = Inr (name, w) # due_stream [] 0 su'"
  using assms
  by (auto simp: stream_next_def stream_part_def due_stream_def field_outcome_simps upload_error_of_multer_def
      split: stream_state.splits list.splits part_answer.splits body_answer.splits option.splits if_splits prod.splits)

lemma due_stream_outside:
  "\<not> in_field (su_state su) \<Longrightarrow> due_stream name w su = due_stream [] 0 su"
  by (cases "su_state su") (simp_all add: due_stream_def)

definition step_due :: "turn \<Rightarrow> upload \<Rightarrow> upload \<Rightarrow> bool" where
  "step_due t u u' \<longleftrightarrow> obliging_upload u' \<and>
     (case t of
        Answer (Some i) \<Rightarrow> due u = seen i # due u'
      | Answer None \<Rightarrow> due u = []
      | _ \<Rightarrow> due u = due u')"

lemma upload_step_due:
  assumes inv: "upload_inv u g" and op: "obliging_open open_file" and ob: "obliging_upload u"
    and step: "upload_step dir open_file now u = Some (Inr (t, u'))"
  shows "step_due t u u'"
proof (cases "up_state u")
  case (Writing buf)
  obtain b where b: "up_buffer u = Some b" "obliging (bf_inner b)"
    using inv ob Writing by (auto simp: upload_inv_def holds_file_def obliging_upload_def)
  obtain r b' where w: "buffer_poll_write script_write b buf = Inr (r, b')"
    "case r of Ready (Inr n) \<Rightarrow> n \<le> length buf \<and> buffered b' = buffered b @ take n buf | _ \<Rightarrow> buffered b' = buffered b"
    using buffer_write_cases[of b buf] by blast
  have turn: "upload_writing buf u = Some (Inr (t, u'))" using step Writing by (simp add: upload_step_def)
  note o = buffer_write_obliging[OF b(2) w(1)]
  note defs = upload_writing_def step_due_def due_def obliging_upload_def meta_name_def
  show ?thesis
  proof (cases r)
    case Pending
    then show ?thesis using turn Writing b(1) w(1) o by (auto simp: defs)
  next
    case (Ready x)
    with o obtain n where "x = Inr n" by (cases x) auto
    with Ready have "r = Ready (Inr n)" by simp
    then show ?thesis using turn Writing b(1) w o by (auto simp: defs)
  qed
next
  case Reading
  obtain r su where n: "stream_next (up_stream u) = (r, su)" by force
  note d = stream_next_due[OF n, of "meta_name u" "up_written u"]
  have fresh: "up_written u = 0" if "\<not> in_field (su_state (up_stream u))"
    using inv Reading that by (simp add: upload_inv_def)
  have opened: "snd (open_file p) \<noteq> Inl e" "snd (open_file p) = Inr f \<Longrightarrow> obliging f" for p e f
    using op[unfolded obliging_open_def, rule_format, of p] by auto
  have turn: "upload_reading dir open_file now u = Some (Inr (t, u'))" using step Reading by (simp add: upload_step_def)
  note defs = upload_reading_def step_due_def due_def obliging_upload_def meta_name_def
  consider "r = Pending" | "r = Ready None" | e where "r = Ready (Some (Inl e))"
    | x where "r = Ready (Some (Inr x))"
    by (cases r) (auto split: option.splits sum.splits, metis sum.exhaust option.exhaust)
  then show ?thesis
  proof cases
    case 4
    show ?thesis
      using turn n d fresh stream_next_cases[OF n] ob opened Reading 4
      by (cases x) (auto simp: defs split: sum.splits option.splits)
  qed (use turn n d ob Reading in \<open>auto simp: defs seen_def\<close>)
next
  case Flush
  obtain b where b: "up_buffer u = Some b" "obliging (bf_inner b)" and out: "\<not> in_field (su_state (up_stream u))"
    using inv ob Flush by (auto simp: upload_inv_def holds_file_def obliging_upload_def)
  obtain r b' where f: "buffer_poll_flush script_write script_flush b = Some (Inr (r, b'))"
    using buffer_flush_cases by blast
  show ?thesis
    using step Flush b f buffer_flush_obliging[OF b(2) f] due_stream_outside[OF out]
    by (auto simp: upload_step_def upload_flush_def step_due_def due_def obliging_upload_def meta_name_def seen_def
        split: poll.splits sum.splits)
next
  case (Create c)
  then show ?thesis
    using step ob
    by (auto simp: upload_step_def upload_create_def step_due_def due_def obliging_upload_def meta_name_def buffer_new_def
        split: prod.splits nat.splits sum.splits)
next
  case Done
  then show ?thesis using step ob by (auto simp: upload_step_def step_due_def due_def)
qed

text \<open>And so does one poll.\<close>

definition poll_due :: "upload_item poll \<Rightarrow> upload \<Rightarrow> upload \<Rightarrow> bool" where
  "poll_due r u u' \<longleftrightarrow>
     (case r of Pending \<Rightarrow> step_due Wait u u' | Ready i \<Rightarrow> step_due (Answer i) u u')"

lemma step_due_trans: "step_due GoOn u v \<Longrightarrow> poll_due r v w \<Longrightarrow> poll_due r u w"
  by (auto simp: poll_due_def step_due_def split: poll.splits option.splits)

lemma upload_poll_due:
  assumes "obliging_open open_file" "upload_inv u g" "obliging_upload u"
  shows "\<exists>r u' g'. upload_poll_next dir open_file now u = Some (Inr (r, u')) \<and> upload_inv u' g'
    \<and> (r = Ready None \<or> (u', u) \<in> upload_order) \<and> poll_due r u u'"
  using wf_upload_order assms(2,3)
proof (induction u arbitrary: g rule: wf_induct_rule)
  case (less u)
  obtain t u' where s: "upload_step dir open_file now u = Some (Inr (t, u'))"
    using upload_step_ok[OF less.prems(1)] by blast
  have d: "step_due t u u'" using upload_step_due[OF less.prems(1) assms(1) less.prems(2) s] .
  then have ob: "obliging_upload u'" by (simp add: step_due_def)
  obtain name bs where "deliver u g = (name, bs)" by force
  then have inv: "upload_inv u' (name, bs)"
    using upload_step_inv[OF less.prems(1) obliging_creates_empty[OF assms(1)] s] by simp
  have prog: "(u', u) \<in> upload_order" if "t \<noteq> Answer None"
    using upload_step_order[OF s] s that by (cases "up_state u = Done") (auto simp: upload_step_def)
  show ?case
  proof (cases t)
    case GoOn
    with prog have "(u', u) \<in> upload_order" by simp
    from less.IH[OF this inv ob] obtain r u2 name2 bs2 where
      "upload_poll_next dir open_file now u' = Some (Inr (r, u2))" "upload_inv u2 (name2, bs2)"
      "r = Ready None \<or> (u2, u') \<in> upload_order" "poll_due r u' u2" by (metis surj_pair)
    with GoOn d \<open>(u', u) \<in> upload_order\<close> show ?thesis
      by (auto simp: upload_poll_next.simps[of _ _ _ u] s intro: upload_order_trans step_due_trans)
  next
    case (Answer i)
    with inv prog d show ?thesis
      by (cases i) (auto simp: upload_poll_next.simps[of _ _ _ u] s poll_due_def)
  next
    case Wait
    with inv prog d show ?thesis by (auto simp: upload_poll_next.simps[of _ _ _ u] s poll_due_def)
  qed
qed

end
