(* ===== verification/Upload_Service.thy ===== *)
theory Upload_Service
  imports Upload_Progress Proxy_Info
begin

text \<open>
  The service around an upload (upload_files/src/main.rs, handlers, models, grpc_v1, redirect.rs): the entry
  point that asks for a token, the route that asks who the caller is and what it may use, and the handler that
  drives the stream of results to its end and logs each of them.

  What is outside is the record \<open>up_env\<close>: checking a token, asking the user service, the multipart parser, the
  text of JSON and of a URI, opening files, the environment and the clock. A handler's result is its response
  with what was logged; \<open>None\<close> is a handler that does not return.
\<close>

section \<open>Models\<close>

datatype up_role = UpSuperUs | UpAdministrator | UpProductor | UpOperador

fun up_role_display :: "up_role \<Rightarrow> string" where
  "up_role_display UpSuperUs = ''SuperUsuario''"
| "up_role_display UpAdministrator = ''Admin''"
| "up_role_display UpProductor = ''Productor''"
| "up_role_display UpOperador = ''Operador''"

record up_claim =
  uk_sub :: string
  uk_exp :: int
  uk_role :: up_role

record program =
  pg_name :: string
  pg_icon :: "string option"

record ch =
  ch_name :: string
  ch_number :: "8 word"
  ch_icon :: "string option"
  ch_description :: "string option"
  ch_program :: "program list"

record up_user =
  uu_id :: "string option"
  uu_username :: string
  uu_password :: string
  uu_email :: "string option"
  uu_phone :: "string option"
  uu_role :: up_role
  uu_ch :: "ch option"

definition up_get_claim :: "int \<Rightarrow> up_user \<Rightarrow> up_claim run" where
  "up_get_claim now u =
     and_then (unwrap (uu_id u)) (\<lambda>i. and_then (add_duration now (6 * 3600)) (\<lambda>e.
       Inr \<lparr>uk_sub = i, uk_exp = e, uk_role = uu_role u\<rparr>))"

definition up_claim_of_user :: "int \<Rightarrow> up_user \<Rightarrow> up_claim run" where
  "up_claim_of_user now u =
     and_then (unwrap (uu_id u)) (\<lambda>i. and_then (add_duration now (2 * 3600)) (\<lambda>e.
       Inr \<lparr>uk_sub = i, uk_exp = e, uk_role = uu_role u\<rparr>))"

record new_user =
  nu_username :: string
  nu_password :: string
  nu_role :: up_role
  nu_email :: "string option"
  nu_phone :: "string option"

definition user_of_new_user :: "new_user \<Rightarrow> up_user" where
  "user_of_new_user v = \<lparr>uu_id = None, uu_username = nu_username v, uu_password = nu_password v,
     uu_email = nu_email v, uu_phone = nu_phone v, uu_role = UpProductor, uu_ch = None\<rparr>"

record upload_log =
  ul_file_name :: string
  ul_channel :: string
  ul_program_tv :: string
  ul_elapsed_upload :: "nat option"
  ul_size :: nat

datatype result_operation = Success | Failure string

datatype operation =
    LoginOp
  | UploadOp result_operation upload_log
  | DownloadOp result_operation string
  | RenameOp result_operation string
  | DeleteOp result_operation string
  | AnyOp

record log_owner =
  ow_username :: string
  ow_src :: string
  ow_role :: up_role

record logs =
  lg_at :: int
  lg_operation :: operation
  lg_owner :: log_owner

section \<open>Errors and redirects\<close>

record up_response_error =
  re_status :: nat
  re_body :: string

text \<open>The argument \<open>json\<close> is the text of the object with the one field \<^verbatim>\<open>detail\<close>.\<close>

definition up_error_new :: "(string \<Rightarrow> string) \<Rightarrow> nat \<Rightarrow> string option \<Rightarrow> up_response_error" where
  "up_error_new json st detail =
     \<lparr>re_status = st, re_body = (case detail of Some e \<Rightarrow> json e | None \<Rightarrow> [])\<rparr>"

datatype parse_error = ParsePath | ParseParam | ParseJson | ParseQuery

fun parse_error_as_ref :: "parse_error \<Rightarrow> string" where
  "parse_error_as_ref ParsePath = ''Path''"
| "parse_error_as_ref ParseParam = ''Param''"
| "parse_error_as_ref ParseJson = ''Json''"
| "parse_error_as_ref ParseQuery = ''Query''"

definition parse_error_display :: "parse_error \<Rightarrow> string" where
  "parse_error_display e = ''Error parsing from entry valur to '' @ parse_error_as_ref e"

definition up_error_parse :: "(string \<Rightarrow> string) \<Rightarrow> parse_error \<Rightarrow> up_response_error" where
  "up_error_parse json err = up_error_new json 400 (Some (parse_error_as_ref err))"

definition up_error_unimplemented :: "(string \<Rightarrow> string) \<Rightarrow> up_response_error" where
  "up_error_unimplemented json = up_error_new json 501 (Some ''This function is not implemented yet'')"

definition response_of_up_error :: "up_response_error \<Rightarrow> string http_response" where
  "response_of_up_error e = \<lparr>hr_status = re_status e, hr_headers = [(''content-type'', ''application/json'')],
     hr_body = re_body e\<rparr>"

definition up_error_of_upload ::
    "(string \<Rightarrow> string) \<Rightarrow> (mime \<Rightarrow> string) \<Rightarrow> upload_error \<Rightarrow> up_response_error run" where
  "up_error_of_upload json show_mime e =
     and_then
       (case e of
          MimeNotAllowed file m \<Rightarrow>
            Inr (400, Some (''The file '' @ file @ '' have an unallower mime ('' @ show_mime m @ '')''))
        | FileNameNotFound \<Rightarrow> Inl TodoReached
        | MimeNotFound file \<Rightarrow> Inr (400, Some (''The file '' @ file @ '' dont have an mime type''))
        | Multer _ \<Rightarrow> Inr (500, None)
        | StorageFull \<Rightarrow> Inr (500, Some ''You file is very large, i dont have anough space'')
        | _ \<Rightarrow> Inr (500, None))
       (\<lambda>(st, detail). Inr (up_error_new json st detail))"

record redirect =
  rd_status_code :: nat
  rd_location :: string

definition redirect_to :: "string \<Rightarrow> redirect run" where
  "redirect_to url = and_then (unwrap_ok (header_value_of_str url)) (\<lambda>v.
     Inr \<lparr>rd_status_code = 303, rd_location = v\<rparr>)"

definition response_of_redirect :: "redirect \<Rightarrow> string http_response" where
  "response_of_redirect r =
     \<lparr>hr_status = rd_status_code r, hr_headers = [(''location'', rd_location r)], hr_body = []\<rparr>"

section \<open>The user service\<close>

text \<open>
  The generated client is an argument: what \<^verbatim>\<open>get_role\<close> answers, an error by its message. Of the generated
  types only what the code uses is named: the fields of a reply it reads and the four roles it matches.
\<close>

datatype proto_role = ProtoSuperUs | ProtoAdministrator | ProtoOperador | ProtoProductor

record user_info_reply =
  ui_username :: string
  ui_role :: int
  ui_resources :: string

datatype grpc_err = GrpcErr string

fun grpc_err_display :: "grpc_err \<Rightarrow> string" where
  "grpc_err_display (GrpcErr s) = s"

definition grpc_err_of_status :: "string \<Rightarrow> grpc_err" where
  "grpc_err_of_status message = GrpcErr message"

definition user_info :: "(string \<Rightarrow> string + user_info_reply) \<Rightarrow> string \<Rightarrow> grpc_err + user_info_reply" where
  "user_info get_role i =
     (case get_role i of Inl status \<Rightarrow> Inl (grpc_err_of_status status) | Inr reply \<Rightarrow> Inr reply)"

definition up_role_of_i32 :: "(int \<Rightarrow> proto_role option) \<Rightarrow> int \<Rightarrow> up_role option" where
  "up_role_of_i32 try_from v =
     (case try_from v of
        None \<Rightarrow> None
      | Some ProtoSuperUs \<Rightarrow> Some UpSuperUs
      | Some ProtoAdministrator \<Rightarrow> Some UpAdministrator
      | Some ProtoOperador \<Rightarrow> Some UpOperador
      | Some ProtoProductor \<Rightarrow> Some UpProductor)"

section \<open>What is outside\<close>

record up_exts =
  ue_peer :: "peer option"
  ue_claim :: "up_claim option"
  ue_grpc :: bool

type_synonym up_request = "up_exts http_request"

text \<open>
  \<open>uv_parts\<close> is what the parser answers for a body and a boundary. The clock counts by the number of times
  the handler was resumed; \<open>uv_now_local\<close> has no value when the offset of the local time cannot be told.
  \<open>uv_src\<close> is the text of the caller's address.
\<close>

record up_env =
  uv_check :: "string \<Rightarrow> (jwt_handle_error + up_claim) run"
  uv_get_role :: "string \<Rightarrow> string + user_info_reply"
  uv_role :: "int \<Rightarrow> proto_role option"
  uv_json :: "string \<Rightarrow> string"
  uv_show_uri :: "up_request \<Rightarrow> string"
  uv_show_mime :: "mime \<Rightarrow> string"
  uv_src :: "peer \<Rightarrow> string"
  uv_parse_boundary :: "string \<Rightarrow> string + string"
  uv_parts :: "body \<Rightarrow> string \<Rightarrow> part_answer list"
  uv_open :: "string \<Rightarrow> create"
  uv_var_programs :: "string option"
  uv_var_icons :: "string option"
  uv_clock :: "nat \<Rightarrow> nat"
  uv_now_local :: "nat \<Rightarrow> int option"

type_synonym up_result = "((up_response_error + string http_response) \<times> logs list) run option"

definition up_fail :: "up_response_error \<Rightarrow> up_result" where
  "up_fail e = Some (Inr (Inl e, []))"

definition up_answer :: "string http_response \<Rightarrow> up_result" where
  "up_answer r = Some (Inr (Inr r, []))"

definition get_extention :: "(string \<Rightarrow> string) \<Rightarrow> 'a option \<Rightarrow> up_response_error + 'a" where
  "get_extention json ext = (case ext of Some e \<Rightarrow> Inr e | None \<Rightarrow> Inl (up_error_new json 500 None))"

section \<open>Uploading\<close>

definition get_dir_programs :: "up_env \<Rightarrow> string" where
  "get_dir_programs env = opt_default ''.'' (uv_var_programs env)"

definition get_dir_icons :: "up_env \<Rightarrow> string" where
  "get_dir_icons env = opt_default ''.'' (uv_var_icons env)"

definition upload_dir :: "up_env \<Rightarrow> mime \<Rightarrow> string" where
  "upload_dir env m = (if mm_type m = ''video'' then get_dir_programs env else get_dir_icons env)"

definition get_boundary :: "up_env \<Rightarrow> header_map \<Rightarrow> up_response_error + string" where
  "get_boundary env hs =
     and_then (case header_get hs ''content-type'' of
                 None \<Rightarrow> Inl (up_error_new (uv_json env) 400 (Some ''Content-Type not found''))
               | Some x \<Rightarrow> Inr x)
       (\<lambda>x. case header_to_str x of
              None \<Rightarrow> Inl (up_error_new (uv_json env) 400 (Some ''Boundary parse error''))
            | Some v \<Rightarrow> Inr v)"

text \<open>One entry of the log, for one item of the stream of results.\<close>

definition new_log ::
    "up_env \<Rightarrow> log_owner \<Rightarrow> string \<Rightarrow> string \<Rightarrow> int \<Rightarrow> upload_error + upload_result \<Rightarrow> logs" where
  "new_log env own channel program_tv at item =
     (let (res, op) =
        (case item of
           Inr log \<Rightarrow> (log, Success)
         | Inl err \<Rightarrow> (\<lparr>ur_size = 0, ur_elapsed = 0, ur_file_name = []\<rparr>,
                      Failure (upload_error_display (uv_show_mime env) err)))
      in \<lparr>lg_at = at,
          lg_operation = UploadOp op \<lparr>ul_file_name = ur_file_name res, ul_channel = channel,
            ul_program_tv = program_tv, ul_elapsed_upload = Some (ur_elapsed res), ul_size = ur_size res\<rparr>,
          lg_owner = own\<rparr>)"

text \<open>The loop of \<^verbatim>\<open>upload_video\<close>; its number is how often the stream was polled before.\<close>

partial_function (option) upload_loop ::
    "up_env \<Rightarrow> log_owner \<Rightarrow> string \<Rightarrow> string \<Rightarrow> nat \<Rightarrow> upload \<Rightarrow> logs list
     \<Rightarrow> ((up_response_error + string http_response) \<times> logs list) run option" where
  "upload_loop env own channel program_tv n u lgs =
     (case upload_poll_next (upload_dir env) (uv_open env) (uv_clock env n) u of
        None \<Rightarrow> None
      | Some (Inl p) \<Rightarrow> Some (Inl p)
      | Some (Inr (Pending, u')) \<Rightarrow> upload_loop env own channel program_tv (Suc n) u' lgs
      | Some (Inr (Ready None, u')) \<Rightarrow> Some (Inr (Inr (plain_response [] 201), lgs))
      | Some (Inr (Ready (Some item), u')) \<Rightarrow>
          (case uv_now_local env n of
             None \<Rightarrow> Some (Inl UnwrapErr)
           | Some at \<Rightarrow>
               upload_loop env own channel program_tv (Suc n) u' (lgs @ [new_log env own channel program_tv at item])))"

definition upload_video ::
    "up_env \<Rightarrow> up_request \<Rightarrow> string \<Rightarrow> string \<Rightarrow> string \<Rightarrow> up_role \<Rightarrow> up_result" where
  "upload_video env req channel program_tv username role =
     (case get_extention (uv_json env) (ue_peer (hq_ext req)) of
        Inl e \<Rightarrow> up_fail e
      | Inr ip_src \<Rightarrow>
          (case get_boundary env (hq_headers req) of
             Inl e \<Rightarrow> up_fail e
           | Inr b \<Rightarrow>
               (case uv_parse_boundary env b of
                  Inl e \<Rightarrow> up_fail (up_error_new (uv_json env) 400 (Some e))
                | Inr boundary \<Rightarrow>
                    upload_loop env \<lparr>ow_username = username, ow_src = uv_src env ip_src, ow_role = role\<rparr>
                      channel program_tv 0
                      (upload_new (stream_upload_new (uv_parts env (hq_body req) boundary)
                        [AllowType ''video'', AllowType ''image''])) [])))"

section \<open>The route\<close>

definition up_cors :: "string http_response" where
  "up_cors = \<lparr>hr_status = 204,
     hr_headers = [(''access-control-allow-origin'', ''http://localhost''),
       (''access-control-allow-methods'', ''GET, POST, PATCH, UPDATE, DELETE''),
       (''access-control-allow-headers'', ''Content-Type, Authorization''),
       (''access-control-allow-credentials'', ''true''),
       (''access-control-max-age'', ''3600'')],
     hr_body = []\<rparr>"

definition upload_path :: "string \<Rightarrow> string list" where
  "upload_path p =
     opt_default [] (map_option (split_ch CHR ''/'') (nth_opt (split_str ''api/v1/file/'' p) 1))"

text \<open>\<^verbatim>\<open>chunks(2)\<close> without an incomplete last one.\<close>

fun pairs_of :: "'a list \<Rightarrow> ('a \<times> 'a) list" where
  "pairs_of (x # y # xs) = (x, y) # pairs_of xs"
| "pairs_of _ = []"

definition has_resource :: "string \<Rightarrow> string \<Rightarrow> string \<Rightarrow> bool" where
  "has_resource resources channel programa =
     list_ex (\<lambda>(x, y). x = channel \<and> y = programa) (pairs_of (split_ch CHR '','' resources))"

definition lift_run :: "'a run \<Rightarrow> ('a \<Rightarrow> 'b run option) \<Rightarrow> 'b run option" where
  "lift_run r f = (case r of Inl p \<Rightarrow> Some (Inl p) | Inr x \<Rightarrow> f x)"

definition upload_fn :: "up_env \<Rightarrow> up_request \<Rightarrow> up_result" where
  "upload_fn env req =
     (case upload_path (hq_path req) of
        [channel, programa] \<Rightarrow>
          if hq_method req = OPTIONS then up_answer up_cors
          else if hq_method req = POST then
            lift_run (unwrap (ue_claim (hq_ext req))) (\<lambda>claim.
            lift_run (unwrap (if ue_grpc (hq_ext req) then Some () else None)) (\<lambda>_.
            lift_run (case user_info (uv_get_role env) (uk_sub claim) of Inl e \<Rightarrow> Inl UnwrapErr | Inr u \<Rightarrow> Inr u) (\<lambda>user.
              if \<not> has_resource (ui_resources user) channel programa
              then up_fail (up_error_new (uv_json env) 401 (Some ''You don't have authority above this resource''))
              else lift_run (unwrap_ok (up_role_of_i32 (uv_role env) (ui_role user))) (\<lambda>role.
                upload_video env req channel programa (ui_username user) role))))
          else up_fail (up_error_new (uv_json env) 404 (Some (''Entpoint '' @ uv_show_uri env req @ '' not found'')))
      | _ \<Rightarrow> up_fail (up_error_parse (uv_json env) ParsePath))"

definition midlleware_token :: "up_env \<Rightarrow> up_request \<Rightarrow> up_result" where
  "midlleware_token env req =
     (case get_token jwt_cookie_search (hq_headers req) of
        None \<Rightarrow> up_fail (up_error_new (uv_json env) 401 (Some ''Token is not present''))
      | Some token \<Rightarrow>
          lift_run (uv_check env token) (\<lambda>r.
            (case r of
               Inl err \<Rightarrow> up_fail (up_error_new (uv_json env) 401 None)
             | Inr claim \<Rightarrow> upload_fn env (req\<lparr>hq_ext := (hq_ext req)\<lparr>ue_claim := Some claim\<rparr>\<rparr>))))"

text \<open>\<^verbatim>\<open>entry\<close> answers every request; what it says of requests and responses themselves is not kept.\<close>

definition up_entry :: "up_env \<Rightarrow> up_request \<Rightarrow> (string http_response \<times> logs list) run option" where
  "up_entry env req =
     (case midlleware_token env req of
        None \<Rightarrow> None
      | Some (Inl p) \<Rightarrow> Some (Inl p)
      | Some (Inr (Inr r, lgs)) \<Rightarrow> Some (Inr (r, lgs))
      | Some (Inr (Inl e, lgs)) \<Rightarrow> Some (Inr (response_of_up_error e, lgs)))"

section \<open>The service of main\<close>

text \<open>\<^verbatim>\<open>ServiceWithState::call\<close> (utils/src/lib.rs); \<open>put\<close> stores the state in the extensions.\<close>

record ('s, 'f) service_with_state =
  sv_f :: 'f
  sv_state :: 's

definition service_call ::
    "('s \<Rightarrow> 'x \<Rightarrow> 'x) \<Rightarrow> ('s, 'x http_request \<Rightarrow> 'r) service_with_state \<Rightarrow> 'x http_request \<Rightarrow> 'r" where
  "service_call put s req = sv_f s (req\<lparr>hq_ext := put (sv_state s) (hq_ext req)\<rparr>)"

definition up_serve :: "up_env \<Rightarrow> peer \<Rightarrow> up_request \<Rightarrow> (string http_response \<times> logs list) run option" where
  "up_serve env peer =
     service_call (\<lambda>s x. x\<lparr>ue_grpc := True\<rparr>)
       \<lparr>sv_f = (\<lambda>req. up_entry env (req\<lparr>hq_ext := (hq_ext req)\<lparr>ue_peer := Some peer\<rparr>\<rparr>)), sv_state = ()\<rparr>"

text \<open>
  \<^verbatim>\<open>main\<close> up to listening: reading the file \<^verbatim>\<open>.env\<close>, the environment, the port, and the connection to the user
  service, in this order. \<open>UpRefused\<close> is an error that \<^verbatim>\<open>main\<close> returns.
\<close>

datatype up_started = UpRefused | UpListening socket_addr

definition grpc_client_new :: "(string \<Rightarrow> bool) \<Rightarrow> string \<Rightarrow> unit run" where
  "grpc_client_new connect endpoint = (if connect endpoint then Inr () else Inl UnwrapErr)"

definition up_main ::
    "bool \<Rightarrow> (string \<Rightarrow> string option) \<Rightarrow> (socket_addr \<Rightarrow> bool) \<Rightarrow> (string \<Rightarrow> bool) \<Rightarrow> up_started run" where
  "up_main dotenv var bind connect =
     (if \<not> dotenv then Inl UnwrapErr
      else
        let ip_app = opt_default ''0.0.0.0'' (var ''IP_APP'') in
        and_then (unwrap_ok (var ''GRPC_USER_CHECK'')) (\<lambda>endpoint.
        and_then (unwrap_ok (parse_ip ip_app)) (\<lambda>ip.
        let socket = (ip, 4000) in
        if \<not> bind socket then Inr UpRefused
        else and_then (grpc_client_new connect endpoint) (\<lambda>_. Inr (UpListening socket)))))"

lemma up_main_listens:
  "up_main dotenv var bind connect = Inr (UpListening a) \<longleftrightarrow>
     dotenv \<and> (\<exists>endpoint ip. var ''GRPC_USER_CHECK'' = Some endpoint \<and> parse_ip (opt_default ''0.0.0.0'' (var ''IP_APP'')) = Some ip
       \<and> a = (ip, 4000) \<and> bind a \<and> connect endpoint)"
  by (auto simp: up_main_def grpc_client_new_def Let_def and_then_eq_Inr unwrap_ok_def split: option.splits)

section \<open>The loop comes to its end\<close>

lemma up_plumbing [simp]:
  "lift_run (Inl p) f = Some (Inl p)" "lift_run (Inr x) f = f x"
  "get_extention json (Some x) = Inr x"
  by (simp_all add: lift_run_def get_extention_def)

definition created :: "string http_response" where
  "created = plain_response [] 201"

definition logs_outcome ::
    "up_env \<Rightarrow> log_owner \<Rightarrow> string \<Rightarrow> string \<Rightarrow> logs \<Rightarrow> upload_error + string \<times> nat \<Rightarrow> bool" where
  "logs_outcome env own channel program_tv l out \<longleftrightarrow> lg_owner l = own \<and>
     (case out of
        Inr (name, n) \<Rightarrow>
          (\<exists>e. lg_operation l = UploadOp Success \<lparr>ul_file_name = name, ul_channel = channel,
             ul_program_tv = program_tv, ul_elapsed_upload = Some e, ul_size = n\<rparr>)
      | Inl err \<Rightarrow>
          lg_operation l = UploadOp (Failure (upload_error_display (uv_show_mime env) err))
             \<lparr>ul_file_name = [], ul_channel = channel, ul_program_tv = program_tv,
              ul_elapsed_upload = Some 0, ul_size = 0\<rparr>)"

lemma new_log_outcome: "logs_outcome env own channel program_tv (new_log env own channel program_tv at i) (seen i)"
  by (cases i) (auto simp: logs_outcome_def new_log_def seen_def)

lemma upload_loop_returns:
  assumes "creates_empty (uv_open env)" "\<forall>n. uv_now_local env n \<noteq> None" "upload_inv u g"
  shows "\<exists>lgs'. upload_loop env own channel program_tv n u lgs = Some (Inr (Inr created, lgs'))"
  using wf_upload_order assms(3)
proof (induction u arbitrary: g n lgs rule: wf_induct_rule)
  case (less u)
  obtain r u' g' where p: "upload_poll_next (upload_dir env) (uv_open env) (uv_clock env n) u = Some (Inr (r, u'))"
    "upload_inv u' g'" "r = Ready None \<or> (u', u) \<in> upload_order"
    using upload_poll_returns[OF assms(1) less.prems] by blast
  obtain at where at: "uv_now_local env n = Some at" using assms(2) by blast
  show ?case
  proof (cases "r = Ready None")
    case True
    with p show ?thesis by (simp add: upload_loop.simps[of _ _ _ _ n] created_def)
  next
    case False
    with p have "(u', u) \<in> upload_order" by simp
    note IH = less.IH[OF this p(2)]
    show ?thesis
    proof (cases r)
      case Pending
      with p(1) IH show ?thesis by (simp add: upload_loop.simps[of _ _ _ _ n])
    next
      case (Ready x)
      with False obtain i where "x = Some i" by auto
      with Ready p(1) IH at show ?thesis by (simp add: upload_loop.simps[of _ _ _ _ n])
    qed
  qed
qed

lemma upload_loop_due:
  assumes "obliging_open (uv_open env)" "\<forall>n. uv_now_local env n \<noteq> None" "upload_inv u g" "obliging_upload u"
  shows "\<exists>ls. upload_loop env own channel program_tv n u lgs = Some (Inr (Inr created, lgs @ ls))
    \<and> list_all2 (logs_outcome env own channel program_tv) ls (due u)"
  using wf_upload_order assms(3,4)
proof (induction u arbitrary: g n lgs rule: wf_induct_rule)
  case (less u)
  obtain r u' g' where p: "upload_poll_next (upload_dir env) (uv_open env) (uv_clock env n) u = Some (Inr (r, u'))"
    "upload_inv u' g'" "r = Ready None \<or> (u', u) \<in> upload_order" "poll_due r u u'"
    using upload_poll_due[OF assms(1) less.prems] by blast
  obtain at where at: "uv_now_local env n = Some at" using assms(2) by blast
  have ob: "obliging_upload u'" using p(4) by (simp add: poll_due_def step_due_def split: poll.splits)
  show ?case
  proof (cases "r = Ready None")
    case True
    with p show ?thesis
      by (simp add: upload_loop.simps[of _ _ _ _ n] created_def poll_due_def step_due_def)
  next
    case False
    with p have "(u', u) \<in> upload_order" by simp
    note IH = less.IH[OF this p(2) ob]
    show ?thesis
    proof (cases r)
      case Pending
      with p(1,4) IH show ?thesis
        by (simp add: upload_loop.simps[of _ _ _ _ n] poll_due_def step_due_def)
    next
      case (Ready x)
      with False obtain i where x: "x = Some i" by auto
      with Ready p(4) have d: "due u = seen i # due u'" by (simp add: poll_due_def step_due_def)
      obtain ls where "upload_loop env own channel program_tv (Suc n) u'
          (lgs @ [new_log env own channel program_tv at i]) =
          Some (Inr (Inr created, (lgs @ [new_log env own channel program_tv at i]) @ ls))"
        "list_all2 (logs_outcome env own channel program_tv) ls (due u')"
        using IH by blast
      with Ready x p(1) at d show ?thesis
        by (intro exI[of _ "new_log env own channel program_tv at i # ls"])
          (simp add: upload_loop.simps[of _ _ _ _ n] new_log_outcome)
    qed
  qed
qed

text \<open>What the loop returns in any case.\<close>

definition logs_of :: "log_owner \<Rightarrow> string \<Rightarrow> string \<Rightarrow> logs \<Rightarrow> bool" where
  "logs_of own channel program_tv l \<longleftrightarrow> lg_owner l = own
     \<and> (\<exists>op d. lg_operation l = UploadOp op d \<and> ul_channel d = channel \<and> ul_program_tv d = program_tv)"

lemma new_log_of: "logs_of own channel program_tv (new_log env own channel program_tv at i)"
  by (cases i) (auto simp: logs_of_def new_log_def)

lemma upload_loop_result:
  assumes "upload_loop env own channel program_tv n u lgs = Some (Inr (r, lgs'))"
    and "list_all (logs_of own channel program_tv) lgs"
  shows "r = Inr created \<and> list_all (logs_of own channel program_tv) lgs'"
proof -
  let ?P = "\<lambda>env own channel program_tv n u lgs (res :: ((up_response_error + string http_response) \<times> logs list) run).
     list_all (logs_of own channel program_tv) lgs \<longrightarrow>
     (\<forall>r lgs'. res = Inr (r, lgs') \<longrightarrow> r = Inr created \<and> list_all (logs_of own channel program_tv) lgs')"
  have "?P env own channel program_tv n u lgs (Inr (r, lgs'))"
  proof (rule upload_loop.raw_induct[where P = ?P, OF _ assms(1)])
    fix f env own channel program_tv n u lgs res
    assume IH: "\<And>env own channel program_tv n u lgs res. f env own channel program_tv n u lgs = Some res \<Longrightarrow>
        ?P env own channel program_tv n u lgs res"
      and body: "(case upload_poll_next (upload_dir env) (uv_open env) (uv_clock env n) u of
        None \<Rightarrow> None
      | Some (Inl p) \<Rightarrow> Some (Inl p)
      | Some (Inr (Pending, u')) \<Rightarrow> f env own channel program_tv (Suc n) u' lgs
      | Some (Inr (Ready None, u')) \<Rightarrow> Some (Inr (Inr (plain_response [] 201), lgs))
      | Some (Inr (Ready (Some item), u')) \<Rightarrow>
          (case uv_now_local env n of
             None \<Rightarrow> Some (Inl UnwrapErr)
           | Some at \<Rightarrow>
               f env own channel program_tv (Suc n) u' (lgs @ [new_log env own channel program_tv at item])))
        = Some res"
    show "?P env own channel program_tv n u lgs res"
      using body by (auto simp: created_def new_log_of dest!: IH split: option.splits sum.splits prod.splits poll.splits)
  qed
  with assms(2) show ?thesis by blast
qed

section \<open>Resources\<close>

lemma pairs_of_length: "length (pairs_of xs) = length xs div 2"
  by (induction xs rule: pairs_of.induct) auto

lemma pairs_of_nth: "k < length xs div 2 \<Longrightarrow> pairs_of xs ! k = (xs ! (2 * k), xs ! (2 * k + 1))"
proof (induction xs arbitrary: k rule: pairs_of.induct)
  case (1 x y xs)
  then show ?case by (cases k) auto
qed auto

lemma has_resource_iff:
  "has_resource resources channel programa \<longleftrightarrow>
   (\<exists>k. let xs = split_ch CHR '','' resources in
      2 * k + 1 < length xs \<and> xs ! (2 * k) = channel \<and> xs ! (2 * k + 1) = programa)"
proof -
  let ?xs = "split_ch CHR '','' resources"
  have "has_resource resources channel programa \<longleftrightarrow> (channel, programa) \<in> set (pairs_of ?xs)"
    by (auto simp: has_resource_def list_ex_iff)
  also have "\<dots> \<longleftrightarrow> (\<exists>k < length ?xs div 2. (?xs ! (2 * k), ?xs ! (2 * k + 1)) = (channel, programa))"
    by (simp add: in_set_conv_nth pairs_of_length pairs_of_nth cong: conj_cong)
  also have "\<dots> \<longleftrightarrow> (\<exists>k. 2 * k + 1 < length ?xs \<and> ?xs ! (2 * k) = channel \<and> ?xs ! (2 * k + 1) = programa)"
  proof -
    have "k < n div 2 \<longleftrightarrow> 2 * k + 1 < n" for k n :: nat by linarith
    then show ?thesis by (simp del: One_nat_def)
  qed
  finally show ?thesis by (simp add: Let_def)
qed


section \<open>Who gets to the loop\<close>

definition refused :: "(up_response_error + string http_response) \<times> logs list \<Rightarrow> bool" where
  "refused r \<longleftrightarrow> snd r = [] \<and> (case fst r of Inl e \<Rightarrow> re_status e \<noteq> 201 | Inr resp \<Rightarrow> hr_status resp \<noteq> 201)"

definition logged_for :: "string \<Rightarrow> string \<Rightarrow> string \<Rightarrow> logs list \<Rightarrow> bool" where
  "logged_for username channel programa lgs \<longleftrightarrow>
     (\<exists>own. ow_username own = username \<and> list_all (logs_of own channel programa) lgs)"

lemma up_fail_simps [simp]:
  "up_fail e = Some (Inr r) \<longleftrightarrow> r = (Inl e, [])"
  "refused (Inl e, []) \<longleftrightarrow> re_status e \<noteq> 201"
  "re_status (up_error_new json st d) = st"
  by (auto simp: up_fail_def refused_def up_error_new_def)

lemma upload_video_result:
  assumes "upload_video env req channel programa username role = Some (Inr r)"
  shows "refused r \<or> logged_for username channel programa (snd r)"
proof (cases "ue_peer (hq_ext req)")
  case None
  then show ?thesis
    using assms by (simp add: upload_video_def get_extention_def)
next
  case (Some p)
  note peer = this
  show ?thesis
  proof (cases "get_boundary env (hq_headers req)")
    case (Inl e)
    then have "\<exists>d. e = up_error_new (uv_json env) 400 d"
      by (auto simp: get_boundary_def split: option.splits)
    with Inl peer assms show ?thesis by (auto simp: upload_video_def)
  next
    case (Inr b)
    show ?thesis
    proof (cases "uv_parse_boundary env b")
      case (Inl e)
      with Inr peer assms show ?thesis by (auto simp: upload_video_def)
    next
      case (Inr bd)
      with \<open>get_boundary _ _ = Inr b\<close> peer assms show ?thesis
        by (cases r) (auto simp: upload_video_def logged_for_def dest!: upload_loop_result)
    qed
  qed
qed

definition authorised :: "up_env \<Rightarrow> up_request \<Rightarrow> user_info_reply \<Rightarrow> string \<Rightarrow> string \<Rightarrow> bool" where
  "authorised env req user channel programa \<longleftrightarrow>
     hq_method req = POST \<and> upload_path (hq_path req) = [channel, programa]
     \<and> has_resource (ui_resources user) channel programa"

lemma upload_fn_result:
  assumes "upload_fn env req = Some (Inr r)" "\<not> refused r"
  obtains claim user channel programa where "ue_claim (hq_ext req) = Some claim"
    "uv_get_role env (uk_sub claim) = Inr user" "authorised env req user channel programa"
    "logged_for (ui_username user) channel programa (snd r)"
proof (cases "\<exists>channel programa. upload_path (hq_path req) = [channel, programa]")
  case False
  then have "upload_fn env req = up_fail (up_error_parse (uv_json env) ParsePath)"
    by (auto simp: upload_fn_def split: list.splits)
  with assms show thesis by (simp add: up_error_parse_def)
next
  case True
  then obtain channel programa where path: "upload_path (hq_path req) = [channel, programa]" by blast
  have post: "hq_method req = POST"
  proof (rule ccontr)
    assume "hq_method req \<noteq> POST"
    with path assms show False
      by (auto simp: upload_fn_def up_answer_def refused_def up_cors_def split: if_splits)
  qed
  obtain claim where claim: "ue_claim (hq_ext req) = Some claim"
    using assms path post by (cases "ue_claim (hq_ext req)") (auto simp: upload_fn_def)
  obtain user where user: "uv_get_role env (uk_sub claim) = Inr user"
    using assms path post claim
    by (cases "uv_get_role env (uk_sub claim)") (auto simp: upload_fn_def user_info_def split: if_splits)
  have has: "has_resource (ui_resources user) channel programa"
  proof (rule ccontr)
    assume "\<not> has_resource (ui_resources user) channel programa"
    with path post claim user assms show False by (auto simp: upload_fn_def user_info_def split: if_splits)
  qed
  have "\<exists>role. upload_video env req channel programa (ui_username user) role = Some (Inr r)"
    using assms path post claim user has
    by (cases "up_role_of_i32 (uv_role env) (ui_role user)") (auto simp: upload_fn_def user_info_def split: if_splits)
  with assms(2) upload_video_result have "logged_for (ui_username user) channel programa (snd r)" by blast
  with that claim user path post has show thesis by (simp add: authorised_def)
qed

lemma up_serve_result:
  assumes "up_serve env peer req = Some (Inr (resp, lgs))" "\<not> (lgs = [] \<and> hr_status resp \<noteq> 201)"
  obtains token claim user channel programa where
    "get_token jwt_cookie_search (hq_headers req) = Some token" "uv_check env token = Inr (Inr claim)"
    "uv_get_role env (uk_sub claim) = Inr user" "authorised env req user channel programa"
    "logged_for (ui_username user) channel programa lgs"
proof -
  let ?req = "req\<lparr>hq_ext := (hq_ext req)\<lparr>ue_grpc := True, ue_peer := Some peer\<rparr>\<rparr>"
  have e: "up_entry env ?req = Some (Inr (resp, lgs))"
    using assms(1) by (simp add: up_serve_def service_call_def)
  then obtain r where m: "midlleware_token env ?req = Some (Inr (r, lgs))"
    and r: "resp = (case r of Inr x \<Rightarrow> x | Inl x \<Rightarrow> response_of_up_error x)"
    by (auto simp: up_entry_def split: option.splits sum.splits)
  have nr: "\<not> refused (r, lgs)"
    using assms(2) r by (auto simp: refused_def response_of_up_error_def split: sum.splits)
  obtain token where t: "get_token jwt_cookie_search (hq_headers req) = Some token"
    using m nr
    by (cases "get_token jwt_cookie_search (hq_headers req)") (auto simp: midlleware_token_def)
  obtain claim where c: "uv_check env token = Inr (Inr claim)"
    using m nr t
    by (cases "uv_check env token") (auto simp: midlleware_token_def split: sum.splits)
  from m t c have "upload_fn env (?req\<lparr>hq_ext := (hq_ext ?req)\<lparr>ue_claim := Some claim\<rparr>\<rparr>) = Some (Inr (r, lgs))"
    by (simp add: midlleware_token_def)
  from upload_fn_result[OF this nr] obtain claim' user channel programa where
    "uv_get_role env (uk_sub claim') = Inr user" "claim' = claim"
    "authorised env (?req\<lparr>hq_ext := (hq_ext ?req)\<lparr>ue_claim := Some claim\<rparr>\<rparr>) user channel programa"
    "logged_for (ui_username user) channel programa lgs" by simp metis
  with that t c show thesis by (simp add: authorised_def)
qed

section \<open>Properties\<close>

definition sample_mp4 :: part_answer where
  "sample_mp4 = Part \<lparr>pt_file_name = Some ''a.mp4'',
     pt_content_type = Some \<lparr>mm_type = ''video'', mm_subtype = ''mp4'', mm_rest = []\<rparr>,
     pt_body = [Chunk ''ab'', BodyPending, Chunk ''c'']\<rparr>"

definition sample_txt :: part_answer where
  "sample_txt = Part \<lparr>pt_file_name = Some ''b.txt'',
     pt_content_type = Some \<lparr>mm_type = ''text'', mm_subtype = ''plain'', mm_rest = []\<rparr>, pt_body = []\<rparr>"

definition slow_open :: "string \<Rightarrow> create" where
  "slow_open p = (1, Inr \<lparr>sf_answers = [NotReady, Takes 1], sf_content = []\<rparr>)"

definition sample_up_env :: up_env where
  "sample_up_env = \<lparr>
     uv_check = (\<lambda>t. if t = ''T'' then Inr (Inr \<lparr>uk_sub = ''7'', uk_exp = 0, uk_role = UpProductor\<rparr>) else Inl UnwrapErr),
     uv_get_role = (\<lambda>i. Inr \<lparr>ui_username = ''ana'', ui_role = 2, ui_resources = ''c1,p1,c2,p2''\<rparr>),
     uv_role = (\<lambda>n. if n = 2 then Some ProtoProductor else None),
     uv_json = (\<lambda>d. d), uv_show_uri = hq_path, uv_show_mime = mm_type, uv_src = get_socket_or_unknown,
     uv_parse_boundary = Inr, uv_parts = (\<lambda>b bd. [sample_mp4, PartPending, sample_txt, sample_mp4]),
     uv_open = slow_open, uv_var_programs = Some ''/srv'', uv_var_icons = None,
     uv_clock = (\<lambda>n. n), uv_now_local = (\<lambda>n. Some (int n))\<rparr>"

definition sample_up_request :: up_request where
  "sample_up_request = \<lparr>hq_method = POST, hq_path = ''/api/v1/file/c2/p2'',
     hq_headers = [(''cookie'', ''JWT=T''), (''content-type'', ''multipart/form-data; boundary=x'')],
     hq_body = BodyBroken, hq_ext = \<lparr>ue_peer = Some (Peer None), ue_claim = None, ue_grpc = True\<rparr>\<rparr>"

lemma slow_open_obliging: "obliging_open slow_open"
  by (simp add: obliging_open_def slow_open_def obliging_def)

lemma sample_boundary:
  "get_boundary env (hq_headers sample_up_request) = Inr ''multipart/form-data; boundary=x''"
  by (simp add: get_boundary_def sample_up_request_def header_to_str_def visible_def)

text \<open>
  C35. Over files that take what they are given, a body is answered with 201 and one log entry per part, up to
  the first part that is not accepted: an entry of success with the name the part declares and the number of
  its bytes, and for the part that ends the upload an entry with its error, no name and no bytes. Nothing
  after that part is reported.
\<close>

theorem upload_video_exact:
  assumes "obliging_open (uv_open env)" "\<forall>n. uv_now_local env n \<noteq> None"
    and "ue_peer (hq_ext req) = Some p" "get_boundary env (hq_headers req) = Inr b"
    and "uv_parse_boundary env b = Inr boundary"
  shows "\<exists>ls. upload_video env req channel programa username role = Some (Inr (Inr created, ls))
    \<and> list_all2 (logs_outcome env \<lparr>ow_username = username, ow_src = uv_src env p, ow_role = role\<rparr> channel programa)
        ls (outcomes [AllowType ''video'', AllowType ''image''] (uv_parts env (hq_body req) boundary))"
proof -
  let ?u = "upload_new (stream_upload_new (uv_parts env (hq_body req) boundary) [AllowType ''video'', AllowType ''image''])"
  have "obliging_upload ?u" by (simp add: obliging_upload_def upload_new_def)
  moreover have "due ?u = outcomes [AllowType ''video'', AllowType ''image''] (uv_parts env (hq_body req) boundary)"
    by (simp add: due_def due_stream_def upload_new_def stream_upload_new_def)
  ultimately show ?thesis
    using upload_loop_due[OF assms(1,2) upload_inv_new \<open>obliging_upload ?u\<close>,
        of "\<lparr>ow_username = username, ow_src = uv_src env p, ow_role = role\<rparr>" channel programa 0 "[]"] assms(3-5)
    by (auto simp: upload_video_def)
qed

theorem upload_video_exact_witness:
  "\<exists>l1 l2. upload_video sample_up_env sample_up_request ''c2'' ''p2'' ''ana'' UpProductor = Some (Inr (Inr created, [l1, l2]))
     \<and> (\<exists>e. lg_operation l1 = UploadOp Success \<lparr>ul_file_name = ''a.mp4'', ul_channel = ''c2'',
          ul_program_tv = ''p2'', ul_elapsed_upload = Some e, ul_size = 3\<rparr>)"
proof -
  let ?own = "\<lparr>ow_username = ''ana'', ow_src = uv_src sample_up_env (Peer None), ow_role = UpProductor\<rparr>"
  have "\<exists>ls. upload_video sample_up_env sample_up_request ''c2'' ''p2'' ''ana'' UpProductor = Some (Inr (Inr created, ls))
    \<and> list_all2 (logs_outcome sample_up_env ?own ''c2'' ''p2'') ls
        (outcomes [AllowType ''video'', AllowType ''image''] (uv_parts sample_up_env (hq_body sample_up_request)
           ''multipart/form-data; boundary=x''))"
    by (rule upload_video_exact[OF _ _ _ sample_boundary])
      (simp_all add: sample_up_env_def slow_open_obliging sample_up_request_def)
  moreover have "outcomes [AllowType ''video'', AllowType ''image''] (uv_parts sample_up_env (hq_body sample_up_request)
           ''multipart/form-data; boundary=x'') =
      [Inr (''a.mp4'', 3), Inl (MimeNotAllowed ''b.txt'' \<lparr>mm_type = ''text'', mm_subtype = ''plain'', mm_rest = []\<rparr>)]"
    by (simp add: sample_up_env_def sample_mp4_def sample_txt_def field_outcome_def)
  ultimately show ?thesis
    by (auto simp: list_all2_Cons2 logs_outcome_def)
qed


definition full_disk_env :: up_env where
  "full_disk_env = sample_up_env\<lparr>uv_open := (\<lambda>p. (0, Inl StorageFullKind))\<rparr>"


text \<open>
  C34. Nothing is uploaded, and 201 is not answered, but for a POST whose cookie carries a token that was
  accepted, from a user whose resources list the channel of the path directly before its program, at an even
  place; and what is logged names that user, that channel and that program.
\<close>

theorem uploads_authorised:
  assumes "up_serve env peer req = Some (Inr (resp, lgs))"
    and "\<not> (lgs = [] \<and> hr_status resp \<noteq> 201)"
  shows "\<exists>token claim user channel programa k.
    hq_method req = POST \<and> get_token jwt_cookie_search (hq_headers req) = Some token
    \<and> uv_check env token = Inr (Inr claim) \<and> uv_get_role env (uk_sub claim) = Inr user
    \<and> upload_path (hq_path req) = [channel, programa]
    \<and> 2 * k + 1 < length (split_ch CHR '','' (ui_resources user))
    \<and> split_ch CHR '','' (ui_resources user) ! (2 * k) = channel
    \<and> split_ch CHR '','' (ui_resources user) ! (2 * k + 1) = programa
    \<and> list_all (\<lambda>l. ow_username (lg_owner l) = ui_username user
        \<and> (\<exists>op d. lg_operation l = UploadOp op d \<and> ul_channel d = channel \<and> ul_program_tv d = programa)) lgs"
proof -
  from up_serve_result[OF assms] obtain token claim user channel programa where
    r: "get_token jwt_cookie_search (hq_headers req) = Some token" "uv_check env token = Inr (Inr claim)"
    "uv_get_role env (uk_sub claim) = Inr user" "authorised env req user channel programa"
    "logged_for (ui_username user) channel programa lgs" by metis
  from r(4) obtain k where k: "2 * k + 1 < length (split_ch CHR '','' (ui_resources user))"
    "split_ch CHR '','' (ui_resources user) ! (2 * k) = channel"
    "split_ch CHR '','' (ui_resources user) ! (2 * k + 1) = programa"
    by (auto simp: authorised_def has_resource_iff Let_def)
  have "list_all (\<lambda>l. ow_username (lg_owner l) = ui_username user
        \<and> (\<exists>op d. lg_operation l = UploadOp op d \<and> ul_channel d = channel \<and> ul_program_tv d = programa)) lgs"
    using r(5) by (auto simp: logged_for_def logs_of_def list_all_iff)
  with r k show ?thesis unfolding authorised_def by blast
qed

theorem uploads_authorised_witness:
  "\<exists>lgs claim. up_serve sample_up_env (Peer None) sample_up_request = Some (Inr (created, lgs))
     \<and> uv_check sample_up_env ''T'' = Inr (Inr claim)
     \<and> list_all (\<lambda>l. ow_username (lg_owner l) = ''ana'') lgs"
proof -
  let ?u = "upload_new (stream_upload_new [sample_mp4, PartPending, sample_txt, sample_mp4]
              [AllowType ''video'', AllowType ''image''])"
  let ?own = "\<lparr>ow_username = ''ana'', ow_src = ''Unknown'', ow_role = UpProductor\<rparr>"
  have "creates_empty slow_open" using obliging_creates_empty[OF slow_open_obliging] .
  with upload_loop_returns[of sample_up_env ?u _ ?own "''c2''" "''p2''" 0 "[]", OF _ _ upload_inv_new]
  obtain lgs where loop: "upload_loop sample_up_env ?own ''c2'' ''p2'' 0 ?u [] = Some (Inr (Inr created, lgs))"
    by (auto simp: sample_up_env_def)
  have token: "get_token jwt_cookie_search (hq_headers sample_up_request) = Some ''T''"
    by (simp add: get_token_def jwt_cookie_search_def sample_up_request_def header_to_str_def visible_def
        jwt_identified_def trim_both_def is_ws_def nth_opt_def)
  have path: "upload_path ''/api/v1/file/c2/p2'' = [''c2'', ''p2'']"
    by (simp add: upload_path_def nth_opt_def split_str.simps)
  have res: "has_resource ''c1,p1,c2,p2'' ''c2'' ''p2''" by (simp add: has_resource_def)
  have serve: "up_serve sample_up_env (Peer None) sample_up_request = Some (Inr (created, lgs))"
    using loop token path res sample_boundary
    by (simp add: up_serve_def service_call_def up_entry_def midlleware_token_def upload_fn_def upload_video_def
        user_info_def up_role_of_i32_def sample_up_request_def sample_up_env_def)
  have "\<not> (lgs = [] \<and> hr_status created \<noteq> 201)" by (simp add: created_def plain_response_def)
  from uploads_authorised[OF serve this] serve show ?thesis
    using token by (auto simp: sample_up_env_def list_all_iff)
qed

end
