(* ===== verification/Spec2Isabelle.thy ===== *)
theory Spec2Isabelle
  imports Directory_Start Directory_State Auth_Start Directory_Http Directory_Grpc Websocket Request_Log Cowed
    Serving Upload_Service
begin

text \<open>
  A verification development for ws-hyper, a set of Rust services around a directory of files: the service
  \<^verbatim>\<open>directory\<close> keeps a tree of buckets, keys (directories) and objects (files) in memory and in step with
  the disk and a database, \<^verbatim>\<open>auth\<close> keeps accounts and permissions in PostgreSQL and hands out tokens,
  \<^verbatim>\<open>upload_files\<close> receives files, and \<^verbatim>\<open>utils\<close> holds what they share. Paths below are relative to src/.

  \<^bold>\<open>How the parts work together.\<close> A request enters a service through a stack of layers (Middleware, Proxy_Info)
  which is composed in Auth_Service for auth/src/main.rs, in Directory_Http for directory/src/main.rs and in
  Upload_Service for upload_files/src/main.rs. The entry points take their tokens from the headers (Tokens).
  Auth_Handlers routes and answers with the repository (Auth_Repository), whose statements are built by
  Sql_Query for the tables of Auth_Models; Auth_Grpc is what the other services ask. Directory_Http reads the
  tree (Bucket_Map, Fhs); Directory_Grpc is the tree's other reader. The tree is built at start (Tree_Build)
  and then changed by one writer, the manager, on events of the file system (Event_Watcher, with
  Watcher_Handlers, Rename_Control, Skipper and Normalize), which tells the database too (Local_Storage).
  Websocket is how clients observe a directory.

  \<^bold>\<open>Representation.\<close> A panic is the left side of a sum (\<open>run\<close> in Prelude), an error of the code its right side's
  error value, \<open>None\<close> of a function that may not end its not ending. Strings are UTF-8 bytes. Tables of the
  code that are ordered (\<^verbatim>\<open>BTreeMap\<close>) are sorted association lists (Btree_Map); hash tables are lists without
  repetition with the order of iteration as an argument (\<open>hash_order\<close>). Services that run over time are step
  relations, with every interleaving of their tasks.

  \<^bold>\<open>The theories.\<close>
  \<^item> Prelude, Utf8, Btree_Map, Http, Ip_Addr: the standard library and the http crate as far as the code
    uses them: splitting and trimming of strings, numbers and addresses as text, ordered maps, headers.
  \<^item> Keys (directory/src/bucket/mod.rs, key.rs), Objects (object.rs), Normalize (bucket/utils): names, keys
    computed from paths, objects, the clean names of files and directories. Cowed (also mod.rs, key.rs): names
    that are borrowed or owned, and that none of the conversions between the two changes a name.
  \<^item> Bucket_Map (bucket/bucket_map.rs): the tree, its lookups and its nine changes. Bucket_Map_Spec: the tree
    as a partial function from addresses to nodes, every change as an operation on that function, the
    simulation (\<open>change_refines\<close>), the invariant (sorted tables, one broker per entry) and when a change
    panics.
  \<^item> Tree_Build: building the tree at start, with the depth of the directories as fuel: a recursion that is
    given at least the depth of the disk below it ends, which \<open>build_mirrors_disk\<close> shows for clean names.
  \<^item> Fhs (bucket/fhs.rs): listings, and that they say exactly what the tree has.
  \<^item> Local_Storage (directory/src/state/local_storage): the requests to MongoDB and the round trip of stored
    objects.
  \<^item> Skipper, Watcher_Handlers, Rename_Control, Event_Watcher (directory/src/manager): what an event becomes,
    events the service causes itself and skips, removals that wait for a rename, and the manager and the
    watcher as one step relation. Disk_Sync: a disk that the operating system changes, and that the tree
    follows it for operations with clean names, through every interleaving of watcher and manager.
  \<^item> Directory_Start (directory/src/main.rs, cli.rs, \<^verbatim>\<open>new\<close> and \<^verbatim>\<open>start\<close> of the actors): from the arguments to the
    running actors, and the service from its start on: it shows a clean disk and goes on following it.
  \<^item> Directory_State (directory/src/state/mod.rs, bucket/error.rs, user.rs, manager/watcher/pool_watcher.rs,
    error.rs): the state shared by the handlers, and parts that the service does not use when it runs; the
    set-up of the poll watcher, and which of its steps fails it.
  \<^item> Actor (directory/src/actor): mailboxes of 32, references to actors, and that an actor is stopped once.
    Websocket (directory/src/manager/websocket): brokers and handlers; delivery to observers, and a deadlock.
  \<^item> Directory_Http (directory/src/handlers, main.rs), Directory_Grpc (directory/src/grpc_v1_server, grpc_v1):
    the two ways to read the tree, who is answered what, the upgrade that stops the service, where files
    are created, and what the auth service answers to this one.
  \<^item> Sql_Query, Auth_Models, Auth_Repository, Auth_Handlers, Auth_Grpc, Auth_Service, Auth_Start (auth/src):
    statements and what they bind, tables and their typing against auth/initdb.sql, the handlers, who may
    change what, what responses show, logins, the gRPC answers, the stack around them, and how it starts.
  \<^item> Request_Log (auth/src/main.rs, directory/src/main.rs): the entries of the logs of these two services as
    values, and that they hold the tokens.
  \<^item> Serving (utils/src/lib.rs, the ends of the three main.rs): the adapter through which bytes are read, that
    it hands over what was read and only initialised memory, and the loops that accept connections.
  \<^item> Tokens, Middleware, Proxy_Info (utils/src): tokens and claims, layers, cross-origin headers, addresses
    of proxies and of the service.
  \<^item> Upload_Buffer, Upload_Stream, Upload_Progress, Upload_Service (upload_files/src): the write buffer, the
    state machine that stores the parts of a body, an order that every turn of it descends (parts and chunks
    left, state, answers left of the file), which is why a poll and the loop around it end, what an upload
    reports as a function of its parts, and the service around it.

  \<^bold>\<open>Interfaces.\<close> Btree_Map, Cowed, Bucket_Map, Skipper, Upload_Buffer and Sql_Query state what a component
  promises its callers as locales, interpreted there (those of Sql_Query in Auth_Models) on the model's own
  operations; the properties use the facts of these interpretations.

  \<^bold>\<open>What is outside.\<close> Third-party crates and the operating system are arguments: the database drivers, JSON, JWT,
  bcrypt, the multipart parser, the websocket handshake, regular expressions, files. What a property needs of
  them is a hypothesis in its statement.

  \<^bold>\<open>Not modelled.\<close> Reading the command line, what is written to the log but for the entries of uploads,
  requests and responses, generated gRPC code, the empty files directory/src/lib.rs and ws.rs, the future of
  the log layer (utils/src/middleware/log_layer/future.rs), which is not a module of its crate and does not
  compile, and the skeletons download_srv and notify.
\<close>

end
